(* ===== verification/Prelude.thy ===== *)
theory Prelude
  imports Complex_Main "HOL-Library.Multiset" "HOL-Library.Word"
begin

text \<open>
  Shared vocabulary of the development: HTTP results as sums, the SQL query fragments the
  services use (\<open>WHERE\<close>, \<open>ORDER BY\<close>, \<open>LIMIT\<close>, \<open>OFFSET\<close>), the contract of \<open>ORDER BY\<close> as a locale,
  Python list indexing, and the theorem collections the component theories fill.

  Python floats are modelled by HOL reals: the model computes the exact value of every
  arithmetic expression. Where rounding matters the operation takes the rounding function as
  an argument.
\<close>

named_theorems query_simps "membership and length of query results"

section \<open>HTTP results\<close>

text \<open>
  A handler either raises \<open>HTTPException\<close> with a status code and a detail, or returns a body.
\<close>

datatype 'd http_error = HTTPException (status_code: nat) (detail: 'd)

type_synonym ('d, 'a) response = "'d http_error + 'a"

text \<open>A Python \<open>datetime\<close>, as microseconds, with or without a time zone.\<close>

datatype pytime = Aware int | Naive int

text \<open>
  A time without a zone is read as UTC by SQLite; asyncpg refuses it for the columns of the services, which have one.
\<close>

definition is_naive :: "pytime \<Rightarrow> bool" where
  "is_naive t = (case t of Naive _ \<Rightarrow> True | Aware _ \<Rightarrow> False)"

definition micros :: "pytime \<Rightarrow> int" where
  "micros t = (case t of Naive x \<Rightarrow> x | Aware x \<Rightarrow> x)"

lemma micros_simps [simp]: "micros (Aware x) = x" "micros (Naive x) = x" "\<not> is_naive (Aware x)" "is_naive (Naive x)"
  by (simp_all add: micros_def is_naive_def)

text \<open>The range of \<open>datetime\<close>, from the years 1 to 9999; arithmetic that leaves it raises \<open>OverflowError\<close>.\<close>

definition datetime_ok :: "int \<Rightarrow> bool" where
  "datetime_ok t \<longleftrightarrow> -62135596800000000 \<le> t \<and> t \<le> 253402300799999999"

text \<open>A \<open>UUID\<close>.\<close>

type_synonym uuid = "128 word"

section \<open>Query fragments\<close>

text \<open>
  A table is the list of its rows. SQLite reads a negative \<open>LIMIT\<close> as no limit.
\<close>

definition sqlite_limit :: "int \<Rightarrow> 'r list \<Rightarrow> 'r list" where
  "sqlite_limit n rows = (if n < 0 then rows else take (nat n) rows)"

definition page :: "nat \<Rightarrow> nat \<Rightarrow> 'r list \<Rightarrow> 'r list" where
  "page limit offset rows = take limit (drop offset rows)"

lemma set_sqlite_limit [query_simps]: "set (sqlite_limit n rows) \<subseteq> set rows"
  by (auto simp: sqlite_limit_def dest: in_set_takeD)

lemma length_sqlite_limit [query_simps]:
  "length (sqlite_limit n rows) = (if n < 0 then length rows else min (length rows) (nat n))"
  by (simp add: sqlite_limit_def)

lemma set_page: "set (page l k rows) \<subseteq> set rows"
  by (auto simp: page_def dest: in_set_takeD in_set_dropD)

lemma length_page [query_simps]: "length (page l k rows) = min (length rows - k) l"
  by (simp add: page_def)

lemma pages_partition: "concat (map (\<lambda>i. page l (i * l) rows) [0..<n]) = take (n * l) rows"
proof (induction n)
  case 0
  then show ?case by simp
next
  case (Suc n)
  have "take (Suc n * l) rows = take (n * l) rows @ take l (drop (n * l) rows)"
    by (metis add.commute mult_Suc take_add)
  with Suc show ?case by (simp add: page_def)
qed

section \<open>The contract of ORDER BY key DESC\<close>

text \<open>
  SQL leaves the order of rows with equal keys open, so the ordering itself is a parameter
  \<open>order\<close> of every query, and this locale is what the queries rely on: the result is a
  rearrangement of the rows, and its keys do not increase.
\<close>

locale order_desc =
  fixes key :: "'r \<Rightarrow> 'k::linorder"
    and order :: "'r list \<Rightarrow> 'r list"
  assumes mset_order: "mset (order rows) = mset rows"
    and sorted_order: "sorted_wrt (\<lambda>a b. key b \<le> key a) (order rows)"
begin

lemma set_order [simp]: "set (order rows) = set rows"
  using mset_order by (metis set_mset_mset)

lemma length_order [simp]: "length (order rows) = length rows"
  using mset_order by (metis size_mset)

lemma order_Nil_iff [simp]: "order rows = [] \<longleftrightarrow> rows = []"
  by (metis length_0_conv length_order)

text \<open>The first \<open>n\<close> rows of the result are \<open>n\<close> rows of largest key.\<close>

lemma take_order_newest:
  assumes "a \<in> set (take n (order rows))" and "b \<in> set (drop n (order rows))"
  shows "key b \<le> key a"
proof -
  have "sorted_wrt (\<lambda>a b. key b \<le> key a) (take n (order rows) @ drop n (order rows))"
    using sorted_order by simp
  then show ?thesis using assms unfolding sorted_wrt_append by blast
qed

lemma hd_order_max: "rows \<noteq> [] \<Longrightarrow> r \<in> set rows \<Longrightarrow> key r \<le> key (hd (order rows))"
proof -
  assume "rows \<noteq> []" and r: "r \<in> set rows"
  then obtain x xs where x: "order rows = x # xs"
    by (metis list.exhaust order_Nil_iff)
  with sorted_order [of rows] r set_order [of rows] show ?thesis
    by (auto simp: x)
qed

lemma hd_order_in: "rows \<noteq> [] \<Longrightarrow> hd (order rows) \<in> set rows"
  using hd_in_set [of "order rows"] by simp

text \<open>With distinct keys the ordering is determined.\<close>

lemma hd_order_unique:
  assumes "rows \<noteq> []" and "r \<in> set rows" and "inj_on key (set rows)"
    and "\<And>s. s \<in> set rows \<Longrightarrow> key s \<le> key r"
  shows "hd (order rows) = r"
  using assms hd_order_max [of rows r] hd_order_in [of rows]
  by (metis (no_types, lifting) antisym inj_onD)

end

text \<open>A concrete ordering: rows with equal keys stay in table order.\<close>

definition newest_first :: "('r \<Rightarrow> 'k::linorder) \<Rightarrow> 'r list \<Rightarrow> 'r list" where
  "newest_first key rows = rev (sort_key key (rev rows))"

lemma order_desc_newest_first: "order_desc key (newest_first key)"
proof
  show "mset (newest_first key rows) = mset rows" for rows :: "'a list"
    by (simp add: newest_first_def)
  have "sorted_wrt (\<lambda>a b. key a \<le> key b) (sort_key key (rev rows))" for rows :: "'a list"
    using sorted_sort_key [of key "rev rows"] by (simp add: sorted_map)
  then show "sorted_wrt (\<lambda>a b. key b \<le> key a) (newest_first key rows)" for rows :: "'a list"
    by (simp add: newest_first_def sorted_wrt_rev)
qed

interpretation newest: order_desc key "newest_first key"
  for key :: "'r \<Rightarrow> 'k::linorder"
  by (rule order_desc_newest_first)

section \<open>Removing by index\<close>

text \<open>Python's \<open>xs.pop(i)\<close> without its result.\<close>

definition pop_at :: "nat \<Rightarrow> 'a list \<Rightarrow> 'a list" where
  "pop_at i xs = take i xs @ drop (Suc i) xs"

lemma length_pop_at [simp]: "i < length xs \<Longrightarrow> length (pop_at i xs) = length xs - 1"
  by (simp add: pop_at_def)

lemma mset_pop_at: "i < length xs \<Longrightarrow> mset xs = add_mset (xs ! i) (mset (pop_at i xs))"
  by (metis append_Cons id_take_nth_drop mset.simps(2) mset_append pop_at_def union_mset_add_mset_right)

lemma set_pop_at: "set (pop_at i xs) \<subseteq> set xs"
  by (auto simp: pop_at_def dest: in_set_takeD in_set_dropD)

lemma distinct_pop_at:
  assumes "distinct (map f xs)" and "i < length xs"
  shows "distinct (map f (pop_at i xs))" and "f (xs ! i) \<notin> f ` set (pop_at i xs)"
proof -
  have "mset (map f xs) = mset (map f (xs ! i # pop_at i xs))"
    using mset_pop_at [OF assms(2)] by simp
  then have "distinct (map f (xs ! i # pop_at i xs))"
    using assms(1) mset_eq_imp_distinct_iff by blast
  then show "distinct (map f (pop_at i xs))" and "f (xs ! i) \<notin> f ` set (pop_at i xs)" by auto
qed

lemma find_distinct:
  assumes "distinct (map f xs)" and "x \<in> set xs"
  shows "find (\<lambda>y. f y = f x) xs = Some x"
  using assms by (induction xs) (auto simp: image_iff)

section \<open>Statistics\<close>

text \<open>The mean, and the standard deviation of a sample (\<open>statistics.stdev\<close>, \<open>Series.std\<close>).\<close>

definition mean_of :: "real list \<Rightarrow> real" where
  "mean_of xs = sum_list xs / real (length xs)"

definition stdev :: "real list \<Rightarrow> real" where
  "stdev xs =
     (let m = sum_list xs / real (length xs)
      in sqrt (sum_list (map (\<lambda>x. (x - m)\<^sup>2) xs) / (real (length xs) - 1)))"

section \<open>Rounding\<close>

text \<open>Python's \<open>round(x, 3)\<close>: to the nearest thousandth, ties to the even one.\<close>

definition round_half_even :: "real \<Rightarrow> int" where
  "round_half_even x =
     (let f = \<lfloor>x\<rfloor>; d = x - of_int f
      in if d < 1 / 2 then f else if 1 / 2 < d then f + 1 else if even f then f else f + 1)"

definition round3 :: "real \<Rightarrow> real" where
  "round3 x = of_int (round_half_even (x * 1000)) / 1000"

lemma round_half_even_close: "\<bar>of_int (round_half_even x) - x\<bar> \<le> 1 / 2"
  using floor_correct [of x] by (auto simp: round_half_even_def Let_def abs_le_iff)

lemma round_half_even_ge: "of_int n \<le> x \<Longrightarrow> n \<le> round_half_even x"
proof -
  assume "of_int n \<le> x"
  then have "n \<le> \<lfloor>x\<rfloor>" by (simp add: le_floor_iff)
  then show ?thesis by (auto simp: round_half_even_def Let_def)
qed

lemma round3_close: "\<bar>round3 x - x\<bar> \<le> 1 / 2000"
  using round_half_even_close [of "x * 1000"] by (simp add: round3_def abs_le_iff field_simps)

lemma round3_ge2: "2 \<le> x \<Longrightarrow> 2 \<le> round3 x"
  using round_half_even_ge [of 2000 "x * 1000"] by (simp add: round3_def)

section \<open>Texts\<close>

text \<open>\<open>str.lower\<close> on code points below 256.\<close>

definition lower_char :: "char \<Rightarrow> char" where
  "lower_char c = (let n = (of_char c :: nat)
     in if 65 \<le> n \<and> n \<le> 90 \<or> 192 \<le> n \<and> n \<le> 222 \<and> n \<noteq> 215 then char_of (n + 32) else c)"

definition lower :: "string \<Rightarrow> string" where
  "lower s = map lower_char s"

text \<open>\<open>str.strip\<close> on code points below 256.\<close>

definition py_space :: "char \<Rightarrow> bool" where
  "py_space c \<longleftrightarrow> (let n = (of_char c :: nat) in 9 \<le> n \<and> n \<le> 13 \<or> 28 \<le> n \<and> n \<le> 32 \<or> n = 133 \<or> n = 160)"

definition py_strip :: "string \<Rightarrow> string" where
  "py_strip s = rev (dropWhile py_space (rev (dropWhile py_space s)))"

lemma lower_append [simp]: "lower (s @ t) = lower s @ lower t"
  by (simp add: lower_def)

lemma length_lower [simp]: "length (lower s) = length s"
  by (simp add: lower_def)

end
