(* ===== verification/Dosing_Registers.thy ===== *)
theory Dosing_Registers
  imports Prelude
begin

text \<open>
  The Modbus register image: how the C++ daemon packs its state into thirteen 16-bit holding
  registers (\<open>controller/src/ModbusServer.cpp\<close>) and how the Python collector unpacks them
  (\<open>collector/modbus_reader.py\<close>, \<open>collector/db.py\<close>).
\<close>

unbundle bit_operations_syntax

section \<open>Dosing states\<close>

datatype dosing_state = IDLE | DOSING | PAUSE | COMPLETE

fun dosing_state_name :: "dosing_state \<Rightarrow> string" where
  "dosing_state_name IDLE = ''IDLE''"
| "dosing_state_name DOSING = ''DOSING''"
| "dosing_state_name PAUSE = ''PAUSE''"
| "dosing_state_name COMPLETE = ''COMPLETE''"

fun dosing_state_code :: "dosing_state \<Rightarrow> 16 word" where
  "dosing_state_code IDLE = 0"
| "dosing_state_code DOSING = 1"
| "dosing_state_code PAUSE = 2"
| "dosing_state_code COMPLETE = 3"

text \<open>\<open>state_name\<close> of \<open>collector/db.py\<close>: a dictionary lookup with a default.\<close>

definition DOSING_STATES :: "int \<rightharpoonup> string" where
  "DOSING_STATES = [0 \<mapsto> ''IDLE'', 1 \<mapsto> ''DOSING'', 2 \<mapsto> ''PAUSE'', 3 \<mapsto> ''COMPLETE'']"

definition state_name :: "int \<Rightarrow> string" where
  "state_name code = (case DOSING_STATES code of None \<Rightarrow> ''UNKNOWN'' | Some n \<Rightarrow> n)"

section \<open>Packing (the daemon)\<close>

type_synonym registers = "16 word list"

definition regs_init :: registers where
  "regs_init = replicate 13 0"

text \<open>
  The cast of a double to \<open>uint16_t\<close> truncates towards zero and is undefined outside the
  range of the target type; \<open>None\<close> is that undefined behaviour.
\<close>

definition set_flow_rate :: "real \<Rightarrow> registers \<Rightarrow> registers option" where
  "set_flow_rate ml_per_min regs =
     (let v = ml_per_min * 10
      in if -1 < v \<and> v < 65536 then Some (regs[0 := word_of_int (if v < 0 then 0 else \<lfloor>v\<rfloor>)])
         else None)"

definition set_valve_state :: "bool \<Rightarrow> registers \<Rightarrow> registers" where
  "set_valve_state is_open regs = regs[1 := (if is_open then 1 else 0)]"

definition set_total_volume :: "32 word \<Rightarrow> registers \<Rightarrow> registers" where
  "set_total_volume ml regs =
     regs[2 := ucast (drop_bit 16 ml), 3 := ucast (ml AND 0xFFFF)]"

text \<open>
  \<open>static_cast<uint16_t>(epc_hex[j])\<close>: a C++ \<open>char\<close> is signed on x86-64 and unsigned on ARM64,
  the two targets of the build; the signed cast extends the sign bit.
\<close>

definition char_u16 :: "bool \<Rightarrow> char \<Rightarrow> 16 word" where
  "char_u16 char_signed c =
     (if char_signed then scast (of_char c :: 8 word) else ucast (of_char c :: 8 word))"

definition epc_u16 :: "bool \<Rightarrow> string \<Rightarrow> nat \<Rightarrow> 16 word" where
  "epc_u16 char_signed epc j = (if j < length epc then char_u16 char_signed (epc ! j) else 0)"

definition pack_pair :: "bool \<Rightarrow> string \<Rightarrow> nat \<Rightarrow> 16 word" where
  "pack_pair char_signed epc i =
     push_bit 8 (epc_u16 char_signed epc (2 * i)) OR epc_u16 char_signed epc (2 * i + 1)"

definition set_rfid_tag :: "bool \<Rightarrow> string \<Rightarrow> registers \<Rightarrow> registers" where
  "set_rfid_tag char_signed epc regs =
     fold (\<lambda>i rs. rs[4 + i := pack_pair char_signed epc i]) [0..<8] regs"

definition set_dosing_state :: "dosing_state \<Rightarrow> registers \<Rightarrow> registers" where
  "set_dosing_state st regs = regs[12 := dosing_state_code st]"

text \<open>The register writes of one cycle of the daemon's main loop, in its order.\<close>

definition publish_registers :: "bool \<Rightarrow> real \<Rightarrow> bool \<Rightarrow> 32 word \<Rightarrow> string \<Rightarrow> dosing_state \<Rightarrow> registers \<Rightarrow> registers option" where
  "publish_registers cs flow valve vol epc st regs =
     map_option (\<lambda>r. set_dosing_state st (set_rfid_tag cs epc (set_total_volume vol (set_valve_state valve r))))
       (set_flow_rate flow regs)"

section \<open>Unpacking (the collector)\<close>

record sensor_snapshot =
  snap_ts :: string
  flow_rate_ml_min :: real
  valve_state :: int
  dosing_state_of :: string
  rfid_tag :: string
  total_volume_ml :: int

datatype parse_error = ValueError nat \<comment> \<open>the number of registers received\<close>

text \<open>\<open>"".join(epc_bytes).strip("\\x00")\<close> removes NUL characters at both ends.\<close>

definition strip_nul :: "string \<Rightarrow> string" where
  "strip_nul s = rev (dropWhile (\<lambda>c. c = CHR 0x00) (rev (dropWhile (\<lambda>c. c = CHR 0x00) s)))"

definition epc_chars :: "int list \<Rightarrow> nat \<Rightarrow> string" where
  "epc_chars regs i =
     [char_of (nat (drop_bit 8 (regs ! (4 + i)) AND 0xFF)), char_of (nat (regs ! (4 + i) AND 0xFF))]"

definition parse_registers :: "string \<Rightarrow> int list \<Rightarrow> parse_error + sensor_snapshot" where
  "parse_registers now regs =
     (if length regs < 13 then Inl (ValueError (length regs))
      else Inr \<lparr>snap_ts = now,
                flow_rate_ml_min = of_int (regs ! 0) / 10,
                valve_state = regs ! 1,
                dosing_state_of = state_name (regs ! 12),
                rfid_tag = strip_nul (concat (map (epc_chars regs) [0..<8])),
                total_volume_ml = push_bit 16 (regs ! 2) OR regs ! 3\<rparr>)"

section \<open>Bytes in registers\<close>

lemma small_bit: 
  fixes a :: "16 word"
  assumes "a < 256" "bit a k" shows "k < 8"
proof -
  have "uint a < 2 ^ 8"
    using assms(1) by (simp add: word_less_def)
  then have "take_bit 8 (uint a) = uint a"
    by (simp add: take_bit_int_eq_self)
  with assms(2) show ?thesis by (metis bit_take_bit_iff bit_uint_iff bit_imp_le_length)
qed

lemma pair_hi:
  fixes a b :: "16 word"
  assumes "a < 256" "b < 256"
  shows "drop_bit 8 (uint (push_bit 8 a OR b)) AND 0xFF = uint a"
proof (rule bit_eqI)
  fix n
  have m: "(0xFF :: int) = mask 8" by (simp add: mask_eq_exp_minus_1)
  show "bit (drop_bit 8 (uint (push_bit 8 a OR b)) AND 0xFF) n = bit (uint a) n"
    unfolding m using small_bit [OF assms(1), of n] small_bit [OF assms(2), of "8 + n"]
    by (auto simp: bit_simps)
qed

lemma pair_lo:
  fixes a b :: "16 word"
  assumes "b < 256"
  shows "uint (push_bit 8 a OR b) AND 0xFF = uint b"
proof (rule bit_eqI)
  fix n
  have m: "(0xFF :: int) = mask 8" by (simp add: mask_eq_exp_minus_1)
  show "bit (uint (push_bit 8 a OR b) AND 0xFF) n = bit (uint b) n"
    unfolding m using small_bit [OF assms, of n] by (auto simp: bit_simps)
qed

lemma volume_join:
  fixes ml :: "32 word"
  shows "push_bit 16 (uint (ucast (drop_bit 16 ml) :: 16 word)) OR
         uint (ucast (ml AND 0xFFFF) :: 16 word) = uint ml"
proof (rule bit_eqI)
  fix n
  have m: "(0xFFFF :: 32 word) = mask 16" by (simp add: mask_eq_exp_minus_1)
  have "bit ml n \<Longrightarrow> n < 32" by (auto dest: bit_imp_le_length)
  then show "bit (push_bit 16 (uint (ucast (drop_bit 16 ml) :: 16 word)) OR
      uint (ucast (ml AND 0xFFFF) :: 16 word)) n = bit (uint ml) n"
    unfolding m by (cases "n < 16") (auto simp: bit_simps)
qed

lemma uint_char_u16: assumes "of_char c < (128::nat)" shows "uint (char_u16 s c) = of_char c"
proof -
  define n :: nat where "n = of_char c"
  have w: "(of_char c :: 8 word) = of_nat n" and i: "(of_char c :: int) = of_nat n"
    unfolding n_def by (simp_all only: of_nat_of_char)
  have n: "n < 128" using assms by (simp add: n_def)
  have "sint (of_nat n :: 8 word) = int n"
    using n by (simp add: signed_of_nat signed_take_bit_int_eq_self)
  moreover have "uint (of_nat n :: 8 word) = int n"
    using n by (simp add: unsigned_of_nat take_bit_nat_eq_self)
  ultimately show ?thesis 
    using n unfolding char_u16_def w i scast_eq ucast_eq
    by (simp add: unsigned_of_nat take_bit_nat_eq_self)
qed

definition epc_char :: "string \<Rightarrow> nat \<Rightarrow> char" where
  "epc_char epc j = (if j < length epc then epc ! j else CHR 0x00)"

lemma epc_u16_char:
  assumes "\<forall>c\<in>set epc. of_char c < (128::nat)"
  shows "uint (epc_u16 cs epc j) = of_char (epc_char epc j)" and "epc_u16 cs epc j < 256"
proof -
  show u: "uint (epc_u16 cs epc j) = of_char (epc_char epc j)"
    using assms by (auto simp: epc_u16_def epc_char_def uint_char_u16)
  have "of_char (epc_char epc j) < (256 :: int)"
    using nat_of_char_less_256[of "epc_char epc j"] by (metis of_nat_less_iff of_nat_numeral of_nat_of_char)
  with u show "epc_u16 cs epc j < 256" by (simp add: word_less_def)
qed

lemma map_epc_char: "length epc \<le> n \<Longrightarrow> map (epc_char epc) [0..<n] = epc @ replicate (n - length epc) (CHR 0x00)"
  by (rule nth_equalityI) (auto simp: epc_char_def nth_append)

lemma strip_nul_padded:
  assumes "epc = [] \<or> hd epc \<noteq> CHR 0x00 \<and> last epc \<noteq> CHR 0x00"
  shows "strip_nul (epc @ replicate k (CHR 0x00)) = epc"
proof (cases "epc = []")
  case True
  have "dropWhile (\<lambda>c. c = CHR 0x00) (replicate k (CHR 0x00)) = []" by simp
  with True show ?thesis by (simp add: strip_nul_def)
next
  case False
  with assms have h: "hd epc \<noteq> CHR 0x00" and l: "hd (rev epc) \<noteq> CHR 0x00"
    by (auto simp: hd_rev)
  have "dropWhile (\<lambda>c. c = CHR 0x00) (epc @ replicate k (CHR 0x00)) = epc @ replicate k (CHR 0x00)"
    using h False by (cases epc) auto
  moreover have "dropWhile (\<lambda>c. c = CHR 0x00) (rev epc) = rev epc"
    using l False by (cases "rev epc") auto
  ultimately show ?thesis
    using dropWhile_append2 [of "replicate k (CHR 0x00)" "\<lambda>c. c = CHR 0x00" "rev epc"]
    by (simp add: strip_nul_def)
qed

lemma list13: "length (regs :: 'a list) = 13 \<Longrightarrow> \<exists>a b c d e f g h i j k l m. regs = [a,b,c,d,e,f,g,h,i,j,k,l,m]"
  by (auto simp: length_Suc_conv eval_nat_numeral)

lemma upt8: "[0..<8::nat] = [0,1,2,3,4,5,6,7]" by (simp add: upt_rec)
lemma upt16: "[0..<16::nat] = [0,1,2,3,4,5,6,7,8,9,10,11,12,13,14,15]" by (simp add: upt_rec)

lemma set_rfid_tag_simp:
  "set_rfid_tag cs epc [a,b,c,d,e,f,g,h,i,j,k,l,m] = [a,b,c,d] @ map (pack_pair cs epc) [0..<8] @ [m]"
  by (simp add: set_rfid_tag_def upt8)

lemma publish_layout:
  assumes "length regs = 13" and "-1 < flow * 10" and "flow * 10 < 65536"
  shows "publish_registers cs flow valve vol epc st regs =
    Some ([word_of_int (if flow < 0 then 0 else \<lfloor>flow * 10\<rfloor>), if valve then 1 else 0,
      ucast (drop_bit 16 vol), ucast (vol AND 0xFFFF)] @ map (pack_pair cs epc) [0..<8] @ [dosing_state_code st])"
proof -
  obtain a b c d e f g h i j k l m where "regs = [a,b,c,d,e,f,g,h,i,j,k,l,m]"
    using list13 [OF assms(1)] by blast
  with assms(2,3) show ?thesis
    by (simp add: publish_registers_def set_flow_rate_def set_valve_state_def set_total_volume_def
        set_rfid_tag_simp set_dosing_state_def Let_def upt8)
qed
lemma state_name_code: "state_name (uint (dosing_state_code st)) = dosing_state_name st"
  by (cases st) (simp_all add: state_name_def DOSING_STATES_def)

lemma epc_chars_pack:
  assumes "\<forall>c\<in>set epc. of_char c < (128::nat)"
    and "regs ! (4 + i) = uint (pack_pair cs epc i)"
  shows "epc_chars regs i = [epc_char epc (2 * i), epc_char epc (2 * i + 1)]"
proof -
  let ?u = "\<lambda>j. epc_u16 cs epc j"
  have hi: "drop_bit 8 (regs ! (4 + i)) AND 0xFF = of_char (epc_char epc (2 * i))"
    using pair_hi [of "?u (2 * i)" "?u (2 * i + 1)"] epc_u16_char [OF assms(1)]
    unfolding assms(2) pack_pair_def by simp
  have lo: "regs ! (4 + i) AND 0xFF = of_char (epc_char epc (2 * i + 1))"
    using pair_lo [of "?u (2 * i + 1)" "?u (2 * i)"] epc_u16_char [OF assms(1)]
    unfolding assms(2) pack_pair_def by simp
  show ?thesis unfolding epc_chars_def hi lo by simp
qed

definition epc_ok :: "string \<Rightarrow> bool" where
  "epc_ok epc \<longleftrightarrow> length epc \<le> 16 \<and> list_all (\<lambda>c. of_char c < (128::nat)) epc \<and>
     (epc = [] \<or> hd epc \<noteq> CHR 0x00 \<and> last epc \<noteq> CHR 0x00)"

section \<open>The round trip\<close>

text \<open>
  C4. What the daemon packs, the collector unpacks: for a flow rate in range and an ASCII tag of
  at most sixteen characters, the decoded snapshot holds the flow rounded down to a tenth, the
  valve bit, the name of the dosing state, the tag and the whole 32-bit volume. It holds on
  targets with signed and with unsigned \<open>char\<close>.
\<close>

theorem parse_publish_roundtrip:
  assumes "length regs = 13" and "0 \<le> flow" and "flow * 10 < 65536" and "epc_ok epc"
  shows "\<exists>regs'. publish_registers cs flow valve vol epc st regs = Some regs' \<and>
         parse_registers now (map uint regs') =
           Inr \<lparr>snap_ts = now, flow_rate_ml_min = of_int \<lfloor>flow * 10\<rfloor> / 10,
                valve_state = (if valve then 1 else 0), dosing_state_of = dosing_state_name st,
                rfid_tag = epc, total_volume_ml = uint vol\<rparr>"
proof -
  let ?regs = "[word_of_int \<lfloor>flow * 10\<rfloor>, if valve then 1 else 0,
      ucast (drop_bit 16 vol), ucast (vol AND 0xFFFF)] @ map (pack_pair cs epc) [0..<8] @ [dosing_state_code st]"
  have "publish_registers cs flow valve vol epc st regs = Some ?regs"
    using publish_layout [of regs flow cs valve vol epc st] assms by simp
  moreover have tag: "strip_nul (concat (map (epc_chars (map uint ?regs)) [0..<8])) = epc"
  proof -
    have "epc_chars (map uint ?regs) i = [epc_char epc (2 * i), epc_char epc (2 * i + 1)]" if "i < 8" for i
      using that assms(4) by (intro epc_chars_pack) (auto simp: nth_append nth_Cons' epc_ok_def list_all_iff)
    then have "concat (map (epc_chars (map uint ?regs)) [0..<8]) = map (epc_char epc) [0..<16]"
      by (simp add: upt8 upt16)
    then show ?thesis
      using assms(4) map_epc_char [of epc 16] strip_nul_padded by (simp add: epc_ok_def)
  qed
  moreover have "parse_registers now (map uint ?regs) =
           Inr \<lparr>snap_ts = now, flow_rate_ml_min = of_int \<lfloor>flow * 10\<rfloor> / 10,
                valve_state = (if valve then 1 else 0), dosing_state_of = dosing_state_name st,
                rfid_tag = epc, total_volume_ml = uint vol\<rparr>"
    unfolding parse_registers_def tag using assms(2,3) volume_join [of vol] state_name_code [of st]
    by (simp add: nth_append unsigned_of_int take_bit_int_eq_self floor_less_iff)
  ultimately show ?thesis by blast
qed

theorem parse_publish_roundtrip_witness:
  "\<exists>regs'. publish_registers True (20055 / 100) True 70000 ''E2801160A5F00001'' DOSING regs_init = Some regs' \<and>
     parse_registers ''t0'' (map uint regs') =
       Inr \<lparr>snap_ts = ''t0'', flow_rate_ml_min = 2005 / 10, valve_state = 1,
            dosing_state_of = ''DOSING'', rfid_tag = ''E2801160A5F00001'', total_volume_ml = 70000\<rparr>"
  using parse_publish_roundtrip [of regs_init "20055 / 100" "''E2801160A5F00001''" True True 70000 DOSING "''t0''"]
  by (simp add: regs_init_def epc_ok_def)

text \<open>Too few registers raise \<open>ValueError\<close>, and nothing else does.\<close>

lemma parse_registers_error_iff:
  "(\<exists>e. parse_registers now regs = Inl e) \<longleftrightarrow> length regs < 13"
  by (simp add: parse_registers_def)

end
