(* ===== verification/Dosing_Control.thy ===== *)
theory Dosing_Control
  imports Dosing_Registers
begin

text \<open>
  The control loop around the register image: the dosing state machine and main loop of the C++
  daemon (\<open>controller/src/DosingFsm.cpp\<close>, \<open>FlowSensor.cpp\<close>, \<open>main.cpp\<close>), the PLC simulator that
  commands the valve (\<open>plc_simulator/simulator.py\<close>), and their closed loop over Modbus.
\<close>

section \<open>The flow sensor\<close>

record flow_reading =
  flow_rate :: real
  pulse_freq_hz :: real
  is_flowing :: bool

text \<open>\<open>noise\<close> is the sample drawn from the sensor's normal distribution.\<close>

definition sensor_read :: "real \<Rightarrow> real \<Rightarrow> real \<Rightarrow> flow_reading" where
  "sensor_read k_factor noise target_flow =
     (let target_freq = target_flow / k_factor;
          noisy_freq = target_freq * (1 + noise);
          noisy_freq = (if noisy_freq < 0 then 0 else noisy_freq);
          flow = k_factor * noisy_freq
      in \<lparr>flow_rate = flow, pulse_freq_hz = noisy_freq, is_flowing = 10 < flow\<rparr>)"

lemma sensor_read_zero [simp]: "flow_rate (sensor_read k noise 0) = 0"
  by (simp add: sensor_read_def Let_def)

lemma sensor_read_nonneg: "0 \<le> k \<Longrightarrow> 0 \<le> flow_rate (sensor_read k noise t)"
  by (simp add: sensor_read_def Let_def)

section \<open>The dosing state machine\<close>

record fsm =
  fsm_state :: dosing_state
  accumulated_ml :: real
  active_tag :: string
  target_volume_ml :: real

definition fsm_init :: "real \<Rightarrow> fsm" where
  "fsm_init target =
     \<lparr>fsm_state = IDLE, accumulated_ml = 0, active_tag = [], target_volume_ml = target\<rparr>"

lemma fsm_init_sel [simp]:
  "fsm_state (fsm_init v) = IDLE" "accumulated_ml (fsm_init v) = 0"
  "active_tag (fsm_init v) = []" "target_volume_ml (fsm_init v) = v"
  by (simp_all add: fsm_init_def)

definition fsm_reset :: "fsm \<Rightarrow> fsm" where
  "fsm_reset f = f\<lparr>fsm_state := IDLE, accumulated_ml := 0, active_tag := []\<rparr>"

definition fsm_update :: "bool \<Rightarrow> bool \<Rightarrow> real \<Rightarrow> string option \<Rightarrow> real \<Rightarrow> fsm \<Rightarrow> fsm" where
  "fsm_update valve reset flow rfid dt f =
     (if reset then fsm_reset f
      else case fsm_state f of
        IDLE \<Rightarrow> (case rfid of
                   Some epc \<Rightarrow> if valve then f\<lparr>active_tag := epc, fsm_state := DOSING\<rparr> else f
                 | None \<Rightarrow> f)
      | DOSING \<Rightarrow>
          (let f = f\<lparr>accumulated_ml := accumulated_ml f + flow * (dt / 60)\<rparr>
           in if target_volume_ml f \<le> accumulated_ml f then f\<lparr>fsm_state := COMPLETE\<rparr>
              else if \<not> valve then f\<lparr>fsm_state := PAUSE\<rparr>
              else f)
      | PAUSE \<Rightarrow> if valve then f\<lparr>fsm_state := DOSING\<rparr> else f
      | COMPLETE \<Rightarrow> f)"

text \<open>One cycle's inputs: valve command, reset command, flow, detected tag, elapsed seconds.\<close>

record fsm_input =
  in_valve :: bool
  in_reset :: bool
  in_flow :: real
  in_rfid :: "string option"
  in_dt :: real

definition fsm_cycle :: "fsm_input \<Rightarrow> fsm \<Rightarrow> fsm" where
  "fsm_cycle i f = fsm_update (in_valve i) (in_reset i) (in_flow i) (in_rfid i) (in_dt i) f"

definition fsm_run :: "fsm_input list \<Rightarrow> fsm \<Rightarrow> fsm" where
  "fsm_run is f = fold fsm_cycle is f"

definition dose :: "fsm_input \<Rightarrow> real" where
  "dose i = in_flow i * (in_dt i / 60)"

subsection \<open>Dose safety\<close>

text \<open>
  The state agrees with the accumulated volume: an idle machine has dosed nothing, a dosing or
  paused one is below its target, a complete one has reached the target and passed it by less
  than the dose of one cycle.
\<close>

definition fsm_inv :: "real \<Rightarrow> fsm \<Rightarrow> bool" where
  "fsm_inv d f \<longleftrightarrow>
     (case fsm_state f of
        IDLE \<Rightarrow> accumulated_ml f = 0 \<and> active_tag f = []
      | DOSING \<Rightarrow> 0 \<le> accumulated_ml f \<and> accumulated_ml f < target_volume_ml f
      | PAUSE \<Rightarrow> 0 \<le> accumulated_ml f \<and> accumulated_ml f < target_volume_ml f
      | COMPLETE \<Rightarrow> target_volume_ml f \<le> accumulated_ml f \<and> accumulated_ml f < target_volume_ml f + d)"

lemma fsm_update_target [simp]:
  "target_volume_ml (fsm_update v r q t dt f) = target_volume_ml f"
  by (auto simp: fsm_update_def fsm_reset_def Let_def split: dosing_state.split option.split)

lemma fsm_run_target [simp]: "target_volume_ml (fsm_run is f) = target_volume_ml f"
  by (induction "is" arbitrary: f) (auto simp: fsm_run_def fsm_cycle_def)

lemma fsm_cycle_inv:
  assumes "fsm_inv d f" and "0 < target_volume_ml f" and "0 \<le> dose i" and "dose i \<le> d"
  shows "fsm_inv d (fsm_cycle i f)"
  using assms
  by (cases "fsm_state f"; cases "in_rfid i")
     (auto simp: fsm_inv_def fsm_cycle_def fsm_update_def fsm_reset_def dose_def Let_def)

lemma fsm_run_inv:
  assumes "fsm_inv d f" and "0 < target_volume_ml f"
    and "\<forall>i\<in>set is. 0 \<le> dose i \<and> dose i \<le> d"
  shows "fsm_inv d (fsm_run is f)"
  using assms
proof (induction "is" arbitrary: f)
  case Nil
  then show ?case by (simp add: fsm_run_def)
next
  case (Cons i "is")
  have "fsm_inv d (fsm_cycle i f)"
    using Cons.prems by (intro fsm_cycle_inv) auto
  moreover have "target_volume_ml (fsm_cycle i f) = target_volume_ml f"
    by (simp add: fsm_cycle_def)
  ultimately have "fsm_inv d (fsm_run is (fsm_cycle i f))"
    using Cons by simp
  then show ?case by (simp add: fsm_run_def)
qed



subsection \<open>Completion\<close>

lemma fsm_run_complete_latches:
  assumes "fsm_state f = COMPLETE" and "\<forall>i\<in>set is. \<not> in_reset i"
  shows "fsm_run is f = f"
  using assms
  by (induction "is" arbitrary: f) (auto simp: fsm_run_def fsm_cycle_def fsm_update_def)

lemma fsm_run_pours:
  assumes "fsm_state f = DOSING"
    and "\<forall>i\<in>set is. in_valve i \<and> \<not> in_reset i \<and> \<delta> \<le> dose i"
    and "target_volume_ml f \<le> accumulated_ml f + real (length is) * \<delta>"
    and "is \<noteq> []"
  shows "fsm_state (fsm_run is f) = COMPLETE"
  using assms
proof (induction "is" arbitrary: f)
  case Nil
  then show ?case by simp
next
  case (Cons i "is")
  let ?f = "fsm_cycle i f"
  show ?case
  proof (cases "fsm_state ?f = COMPLETE")
    case True
    then show ?thesis
      using Cons.prems fsm_run_complete_latches [of ?f "is"] by (simp add: fsm_run_def)
  next
    case False
    with Cons.prems have d: "fsm_state ?f = DOSING"
      and a: "accumulated_ml ?f = accumulated_ml f + dose i"
      and t: "accumulated_ml f + dose i < target_volume_ml f"
      by (auto simp: fsm_cycle_def fsm_update_def dose_def Let_def split: if_splits)
    have le: "target_volume_ml ?f \<le> accumulated_ml ?f + real (length is) * \<delta>"
      using Cons.prems(2,3) a by (simp add: fsm_cycle_def algebra_simps)
    have ne: "is \<noteq> []"
      using Cons.prems(2,3) t by (auto simp: algebra_simps)
    have "\<forall>i\<in>set is. in_valve i \<and> \<not> in_reset i \<and> \<delta> \<le> dose i"
      using Cons.prems(2) by auto
    from Cons.IH [OF d this le ne] have "fsm_state (fsm_run is ?f) = COMPLETE" .
    then show ?thesis by (simp add: fsm_run_def)
  qed
qed



section \<open>The PLC simulator\<close>

definition VALVE_COIL :: nat where "VALVE_COIL = 0"
definition RESET_COIL :: nat where "RESET_COIL = 1"
definition FLOW_REGISTER :: nat where "FLOW_REGISTER = 0"
definition STATE_REGISTER :: nat where "STATE_REGISTER = 12"
definition FLOW_THRESHOLD_X10 :: int where "FLOW_THRESHOLD_X10 = 50"

lemmas plc_constants = VALVE_COIL_def RESET_COIL_def FLOW_REGISTER_def STATE_REGISTER_def
  FLOW_THRESHOLD_X10_def

definition decide_valve :: "int list \<Rightarrow> bool" where
  "decide_valve regs =
     (if length regs < 13 then False
      else let flow_x10 = regs ! FLOW_REGISTER;
               state = regs ! STATE_REGISTER
           in FLOW_THRESHOLD_X10 \<le> flow_x10 \<and> state \<noteq> 3)"

lemma floor_x10_threshold: "50 \<le> \<lfloor>flow * 10\<rfloor> \<longleftrightarrow> 5 \<le> (flow :: real)"
  by (simp add: le_floor_iff)

text \<open>
  The PLC's decision in physical terms: on the register image the daemon publishes for a
  flow of at least zero, the fixed-point test opens the valve exactly when the flow is at least
  5.0 ml/min and dosing is not complete. The RFID tag does not enter the decision.
\<close>

theorem decide_valve_published:
  assumes "length regs = 13" and "0 \<le> flow" and "flow * 10 < 65536"
  shows "\<exists>regs'. publish_registers cs flow valve vol epc st regs = Some regs' \<and>
           (decide_valve (map uint regs') \<longleftrightarrow> 5 \<le> flow \<and> st \<noteq> COMPLETE)"
proof -
  have "uint (word_of_int \<lfloor>flow * 10\<rfloor> :: 16 word) = \<lfloor>flow * 10\<rfloor>"
    using assms(2,3) by (simp add: unsigned_of_int take_bit_int_eq_self floor_less_iff)
  then show ?thesis
    using publish_layout [of regs flow cs valve vol epc st] assms floor_x10_threshold [of flow]
    by (cases st) (auto simp: decide_valve_def plc_constants Let_def nth_append)
qed

theorem decide_valve_published_witness:
  "\<exists>regs'. publish_registers False (73 / 10) False 0 '''' IDLE regs_init = Some regs' \<and>
     (decide_valve (map uint regs') \<longleftrightarrow> 5 \<le> (73 / 10 :: real) \<and> IDLE \<noteq> COMPLETE)"
  by (rule decide_valve_published) (simp_all add: regs_init_def)

end
