(* ===== verification/Dosing_Loop.thy ===== *)
theory Dosing_Loop
  imports Dosing_Control
begin

text \<open>
  The closed loop of the daemon (\<open>controller/src/main.cpp\<close>, \<open>ModbusServer.cpp\<close>) and its Modbus
  clients: the PLC simulator (\<open>plc_simulator/simulator.py\<close>), the collector (\<open>collector/modbus_reader.py\<close>) and any other
  client that writes coils. The daemon's cycle is not atomic: each access to the shared arrays takes the server's
  mutex for itself, and requests come in between.
\<close>

section \<open>The plant\<close>

text \<open>The five register writes at the end of a cycle, and the places between which a request can come.\<close>

datatype reg_write = WFlow real | WValve bool | WVolume real | WTag string | WState dosing_state

datatype daemon_pos = LoopTop | ValveRead bool | Publishing "reg_write list"

datatype peer = PLC | Collector | Operator

text \<open>
  \<open>p_regs\<close> and \<open>p_coils\<close> are the server's shared arrays; \<open>p_tab_bits\<close> and \<open>p_tab_regs\<close> are libmodbus' mapping. The server
  serves one connection, \<open>p_peer\<close>, until that client hangs up. \<open>p_plc\<close> is the PLC's
  decision between its read and its write. A coil pair is (valve command, reset command).
\<close>

record plant =
  p_fsm :: fsm
  p_pos :: daemon_pos
  p_regs :: registers
  p_coils :: "bool \<times> bool"
  p_tab_bits :: "bool \<times> bool"
  p_tab_regs :: registers
  p_peer :: "peer option"
  p_plc :: "bool option"

definition plant_init :: plant where
  "plant_init =
     \<lparr>p_fsm = fsm_init 1000, p_pos = LoopTop, p_regs = regs_init, p_coils = (False, False),
      p_tab_bits = (False, False), p_tab_regs = regs_init, p_peer = None, p_plc = None\<rparr>"

section \<open>The daemon\<close>

text \<open>
  One write. \<open>None\<close> is undefined behaviour: the cast of a flow or a volume that does not fit its unsigned type.
\<close>

definition reg_write :: "bool \<Rightarrow> reg_write \<Rightarrow> registers \<Rightarrow> registers option" where
  "reg_write char_signed w regs =
     (case w of
        WFlow x \<Rightarrow> set_flow_rate x regs
      | WValve b \<Rightarrow> Some (set_valve_state b regs)
      | WVolume x \<Rightarrow>
          if -1 < x \<and> x < 2 ^ 32 then Some (set_total_volume (word_of_int (if x < 0 then 0 else \<lfloor>x\<rfloor>)) regs) else None
      | WTag epc \<Rightarrow> Some (set_rfid_tag char_signed epc regs)
      | WState st \<Rightarrow> Some (set_dosing_state st regs))"

definition writes :: "real \<Rightarrow> bool \<Rightarrow> string option \<Rightarrow> fsm \<Rightarrow> reg_write list" where
  "writes flow valve tag f =
     [WFlow flow, WValve valve, WVolume (accumulated_ml f), WTag (case tag of Some epc \<Rightarrow> epc | None \<Rightarrow> []), WState (fsm_state f)]"

text \<open>
  A step of the main loop: read the valve command; read the reset command and update the machine, with the
  flow the sensor gives for its state; then one write after the other.
\<close>

definition daemon_step :: "bool \<Rightarrow> string option \<Rightarrow> real \<Rightarrow> real \<Rightarrow> plant \<Rightarrow> plant option" where
  "daemon_step char_signed tag noise dt s =
     (case p_pos s of
        LoopTop \<Rightarrow> Some (s\<lparr>p_pos := ValveRead (fst (p_coils s))\<rparr>)
      | ValveRead valve \<Rightarrow>
          (let flow = flow_rate (sensor_read 5 noise (if fsm_state (p_fsm s) = DOSING then 200 else 0));
               f = fsm_update valve (snd (p_coils s)) flow tag dt (p_fsm s)
           in Some (s\<lparr>p_fsm := f, p_pos := Publishing (writes flow valve tag f)\<rparr>))
      | Publishing [] \<Rightarrow> Some (s\<lparr>p_pos := LoopTop\<rparr>)
      | Publishing (w # ws) \<Rightarrow>
          map_option (\<lambda>r. s\<lparr>p_regs := r, p_pos := (if ws = [] then LoopTop else Publishing ws)\<rparr>)
            (reg_write char_signed w (p_regs s)))"

section \<open>The server and its clients\<close>

text \<open>On any request the server takes over the coils of the mapping and shows the registers in it.\<close>

definition sync_coils :: "plant \<Rightarrow> plant" where
  "sync_coils s = s\<lparr>p_coils := p_tab_bits s, p_tab_regs := p_regs s\<rparr>"

definition accept_peer :: "peer \<Rightarrow> plant \<Rightarrow> plant" where
  "accept_peer p s = s\<lparr>p_peer := Some p, p_tab_regs := p_regs s\<rparr>"

definition hang_up :: "plant \<Rightarrow> plant" where
  "hang_up s = s\<lparr>p_peer := None, p_plc := (if p_peer s = Some PLC then None else p_plc s)\<rparr>"

definition plc_read :: "plant \<Rightarrow> plant" where
  "plc_read s = (let t = sync_coils s in t\<lparr>p_plc := Some (decide_valve (map uint (p_tab_regs t)))\<rparr>)"

definition plc_write :: "bool \<Rightarrow> plant \<Rightarrow> plant" where
  "plc_write valve s = (sync_coils s)\<lparr>p_tab_bits := (valve, snd (p_tab_bits s)), p_plc := None\<rparr>"

definition write_coils :: "bool \<times> bool \<Rightarrow> plant \<Rightarrow> plant" where
  "write_coils bits s = (sync_coils s)\<lparr>p_tab_bits := bits\<rparr>"

text \<open>
  The steps. \<open>operators\<close> says whether clients other than the PLC simulator write coils, \<open>ok\<close> which samples and cycle
  times occur.
\<close>

inductive plant_step :: "bool \<Rightarrow> bool \<Rightarrow> (real \<Rightarrow> real \<Rightarrow> bool) \<Rightarrow> plant \<Rightarrow> plant \<Rightarrow> bool" for char_signed operators ok where
  daemon: "ok noise dt \<Longrightarrow> daemon_step char_signed tag noise dt s = Some t \<Longrightarrow> plant_step char_signed operators ok s t"
| accepted: "p_peer s = None \<Longrightarrow> plant_step char_signed operators ok s (accept_peer p s)"
| gone: "plant_step char_signed operators ok s (hang_up s)"
| poll: "p_peer s = Some PLC \<Longrightarrow> p_plc s = None \<Longrightarrow> plant_step char_signed operators ok s (plc_read s)"
| command: "p_peer s = Some PLC \<Longrightarrow> p_plc s = Some v \<Longrightarrow> plant_step char_signed operators ok s (plc_write v s)"
| collect: "p_peer s = Some Collector \<Longrightarrow> plant_step char_signed operators ok s (sync_coils s)"
| operate: "operators \<Longrightarrow> p_peer s = Some Operator \<Longrightarrow> plant_step char_signed operators ok s (write_coils bits s)"

lemmas plant_ops = plc_read_def plc_write_def sync_coils_def accept_peer_def hang_up_def write_coils_def Let_def

lemma set_rfid_tag_keeps [simp]: "length (set_rfid_tag cs epc regs) = length regs" "j < 4 \<Longrightarrow> set_rfid_tag cs epc regs ! j = regs ! j"
  by (auto simp: set_rfid_tag_def upt8)

lemma reg_write_keeps:
  assumes "reg_write cs w regs = Some r"
  shows "length r = length regs"
    and "(\<forall>x. w \<noteq> WFlow x) \<Longrightarrow> r ! 0 = regs ! 0"
    and "(\<forall>x. w \<noteq> WVolume x) \<Longrightarrow> r ! 2 = regs ! 2 \<and> r ! 3 = regs ! 3"
  using assms
  by (auto simp: reg_write_def set_flow_rate_def set_valve_state_def set_total_volume_def set_dosing_state_def Let_def
      split: reg_write.splits if_splits)

section \<open>An undisturbed cycle\<close>

definition daemon_run :: "nat \<Rightarrow> bool \<Rightarrow> string option \<Rightarrow> real \<Rightarrow> real \<Rightarrow> plant \<Rightarrow> plant option" where
  "daemon_run n cs tag noise dt s = ((\<lambda>x. Option.bind x (daemon_step cs tag noise dt)) ^^ n) (Some s)"

text \<open>
  Without a request in between, the seven steps of a cycle are one update of the machine and one publication of
  the whole register image.
\<close>

theorem cycle_alone:
  fixes noise dt :: real and tag :: "string option"
  assumes "p_pos s = LoopTop"
  defines "flow \<equiv> flow_rate (sensor_read 5 noise (if fsm_state (p_fsm s) = DOSING then 200 else 0))"
  defines "f \<equiv> fsm_update (fst (p_coils s)) (snd (p_coils s)) flow tag dt (p_fsm s)"
  shows "daemon_run 7 cs tag noise dt s =
    (if -1 < accumulated_ml f \<and> accumulated_ml f < 2 ^ 32
     then map_option (\<lambda>r. s\<lparr>p_fsm := f, p_regs := r\<rparr>)
            (publish_registers cs flow (fst (p_coils s)) (word_of_int (if accumulated_ml f < 0 then 0 else \<lfloor>accumulated_ml f\<rfloor>))
               (case tag of Some epc \<Rightarrow> epc | None \<Rightarrow> []) (fsm_state f) (p_regs s))
     else None)"
proof -
  have run: "daemon_run 7 cs tag noise dt s = ((\<lambda>x. Option.bind x (daemon_step cs tag noise dt)) ^^ 5)
      (Some (s\<lparr>p_fsm := f, p_pos := Publishing (writes flow (fst (p_coils s)) tag f)\<rparr>))"
    using assms(1) by (simp add: daemon_run_def eval_nat_numeral funpow_swap1 daemon_step_def flow_def f_def Let_def)
  show ?thesis
  proof (cases "set_flow_rate flow (p_regs s)")
    case None
    then show ?thesis unfolding run by (simp add: eval_nat_numeral funpow_swap1 daemon_step_def writes_def reg_write_def publish_registers_def)
  next
    case (Some r)
    then show ?thesis
      unfolding run using assms(1)
      by (simp add: eval_nat_numeral funpow_swap1 daemon_step_def writes_def reg_write_def publish_registers_def)
  qed
qed

section \<open>The loop never starts\<close>

text \<open>
  The PLC opens the valve only on flow, and the sensor reports flow only while the machine is
  dosing, which needs an open valve: the initial state is never left.
\<close>

definition stalled_pos :: "daemon_pos \<Rightarrow> bool" where
  "stalled_pos pos =
     (case pos of LoopTop \<Rightarrow> True | ValveRead v \<Rightarrow> \<not> v | Publishing ws \<Rightarrow> (\<forall>x. WFlow x \<in> set ws \<longrightarrow> x = 0))"

definition stalled :: "plant \<Rightarrow> bool" where
  "stalled s \<longleftrightarrow> p_fsm s = fsm_init 1000 \<and> stalled_pos (p_pos s) \<and> length (p_regs s) = 13 \<and> p_regs s ! 0 = 0 \<and>
     p_coils s = (False, False) \<and> p_tab_bits s = (False, False) \<and> p_plc s \<noteq> Some True"

lemma stalled_init: "stalled plant_init"
  by (simp add: stalled_def plant_init_def regs_init_def stalled_pos_def)

lemma fsm_update_idle: "fsm_update False False flow tag dt (fsm_init v) = fsm_init v"
  by (simp add: fsm_update_def fsm_init_def split: option.split)

lemma decide_valve_no_flow:
  "length (regs :: registers) = 13 \<Longrightarrow> regs ! 0 = 0 \<Longrightarrow> \<not> decide_valve (map uint regs)"
  by (simp add: decide_valve_def plc_constants Let_def)

lemma stalled_write:
  assumes "reg_write cs w regs = Some r" and "length regs = 13" and "regs ! 0 = 0" and "\<forall>x. w = WFlow x \<longrightarrow> x = 0"
  shows "length r = 13 \<and> r ! 0 = 0"
proof (cases "\<exists>x. w = WFlow x")
  case True
  then have "w = WFlow 0" using assms(4) by auto
  then show ?thesis using assms(1-3) by (auto simp: reg_write_def set_flow_rate_def)
next
  case False
  then show ?thesis using reg_write_keeps(1,2) [OF assms(1)] assms(2,3) by auto
qed

lemma stalled_daemon_step:
  assumes "stalled s" and "daemon_step char_signed tag noise dt s = Some t"
  shows "stalled t"
proof (cases "p_pos s")
  case LoopTop
  then show ?thesis using assms by (auto simp: stalled_def daemon_step_def stalled_pos_def)
next
  case (ValveRead v)
  then show ?thesis using assms by (auto simp: stalled_def daemon_step_def stalled_pos_def fsm_update_idle writes_def Let_def)
next
  case (Publishing ws)
  show ?thesis
  proof (cases ws)
    case Nil
    then show ?thesis using assms Publishing by (auto simp: stalled_def daemon_step_def stalled_pos_def)
  next
    case (Cons w ws')
    then show ?thesis
      using assms Publishing stalled_write [of char_signed w "p_regs s"]
      by (fastforce simp: stalled_def daemon_step_def stalled_pos_def)
  qed
qed

lemma stalled_step: "plant_step char_signed False ok s t \<Longrightarrow> stalled s \<Longrightarrow> stalled t"
proof (induction rule: plant_step.induct)
  case (daemon noise dt tag s t)
  then show ?case by (blast intro: stalled_daemon_step)
qed (auto simp: stalled_def plant_ops decide_valve_no_flow)

text \<open>
  C2. With the PLC simulator as the only writer of the coils, no interleaving of the daemon's accesses,
  detected tags, sensor noise, connections, PLC polls and collector polls ever starts a dosing run: the
  machine stays IDLE, pours nothing and the valve is never commanded open.
\<close>

theorem closed_loop_never_doses:
  assumes "(plant_step char_signed False ok)\<^sup>*\<^sup>* plant_init s"
  shows "fsm_state (p_fsm s) = IDLE \<and> accumulated_ml (p_fsm s) = 0 \<and> p_coils s = (False, False)"
proof -
  from assms have "stalled s"
    by (induction rule: rtranclp_induct) (auto intro: stalled_init stalled_step)
  then show ?thesis by (simp add: stalled_def)
qed

definition polled :: plant where
  "polled = plc_write False (plc_read (accept_peer PLC plant_init))"

lemma poll_then_command: "(plant_step char_signed False ok)\<^sup>*\<^sup>* plant_init polled"
proof -
  have "plant_step char_signed False ok plant_init (accept_peer PLC plant_init)"
    by (rule plant_step.accepted) (simp add: plant_init_def)
  moreover have "plant_step char_signed False ok (accept_peer PLC plant_init) (plc_read (accept_peer PLC plant_init))"
    by (rule plant_step.poll) (simp_all add: plant_init_def accept_peer_def)
  moreover have "plant_step char_signed False ok (plc_read (accept_peer PLC plant_init)) polled"
    unfolding polled_def using decide_valve_no_flow [of regs_init]
    by (intro plant_step.command) (simp_all add: plant_ops plant_init_def regs_init_def)
  ultimately show ?thesis by (meson converse_rtranclp_into_rtranclp rtranclp.rtrancl_refl)
qed

theorem closed_loop_never_doses_witness:
  "fsm_state (p_fsm polled) = IDLE \<and> accumulated_ml (p_fsm polled) = 0 \<and> p_coils polled = (False, False)"
  by (rule closed_loop_never_doses [OF poll_then_command [of False "\<lambda>_ _. True"]])

section \<open>With operators on the bus\<close>

text \<open>The volume that a register image shows, as the collector joins its halves.\<close>

definition shown_volume :: "registers \<Rightarrow> int" where
  "shown_volume regs = push_bit 16 (uint (regs ! 2)) OR uint (regs ! 3)"

lemma shown_set_volume: "4 \<le> length regs \<Longrightarrow> shown_volume (set_total_volume ml regs) = uint ml"
  using volume_join [of ml] by (simp add: shown_volume_def set_total_volume_def)

text \<open>What one cycle pours at most, in millilitres.\<close>

definition pours :: "real \<Rightarrow> real \<Rightarrow> real" where
  "pours noise dt = flow_rate (sensor_read 5 noise 200) * (dt / 60)"

definition safe_pos :: "real \<Rightarrow> daemon_pos \<Rightarrow> bool" where
  "safe_pos d pos =
     (case pos of Publishing ws \<Rightarrow>
        (\<forall>x. WVolume x \<in> set ws \<longrightarrow> 0 \<le> x \<and> x < 1000 + d) \<and> (\<forall>x. WFlow x \<in> set ws \<longrightarrow> 0 \<le> x \<and> x * 10 < 65536)
      | _ \<Rightarrow> True)"

definition plant_inv :: "real \<Rightarrow> plant \<Rightarrow> bool" where
  "plant_inv d s \<longleftrightarrow> fsm_inv d (p_fsm s) \<and> target_volume_ml (p_fsm s) = 1000 \<and> safe_pos d (p_pos s) \<and>
     length (p_regs s) = 13 \<and> of_int (shown_volume (p_regs s)) < 1000 + d \<and>
     length (p_tab_regs s) = 13 \<and> of_int (shown_volume (p_tab_regs s)) < 1000 + d"

lemma fsm_inv_volume: "fsm_inv d f \<Longrightarrow> 0 \<le> d \<Longrightarrow> 0 < target_volume_ml f \<Longrightarrow> 0 \<le> accumulated_ml f \<and> accumulated_ml f < target_volume_ml f + d"
  by (auto simp: fsm_inv_def split: dosing_state.splits)

lemma safe_write:
  assumes "reg_write cs w regs = Some r" and "length regs = 13" and "of_int (shown_volume regs) < 1000 + d"
    and "\<forall>x. w = WVolume x \<longrightarrow> 0 \<le> x \<and> x < 1000 + d"
  shows "length r = 13 \<and> of_int (shown_volume r) < 1000 + d"
proof (cases "\<exists>x. w = WVolume x")
  case True
  then obtain x where w: "w = WVolume x" "0 \<le> x" "x < 1000 + d" "x < 2 ^ 32" "r = set_total_volume (word_of_int \<lfloor>x\<rfloor>) regs"
    using assms(1,4) by (auto simp: reg_write_def split: if_splits)
  then have "uint (word_of_int \<lfloor>x\<rfloor> :: 32 word) = \<lfloor>x\<rfloor>"
    by (simp add: unsigned_of_int take_bit_int_eq_self floor_less_iff)
  then have "shown_volume r = \<lfloor>x\<rfloor>" using w(5) assms(2) by (simp add: shown_set_volume)
  moreover have "of_int \<lfloor>x\<rfloor> \<le> x" by simp
  ultimately have "of_int (shown_volume r) < 1000 + d" using w(3) by linarith
  then show ?thesis using reg_write_keeps(1) [OF assms(1)] assms(2) by simp
next
  case False
  then show ?thesis using reg_write_keeps(1,3) [OF assms(1)] assms(2,3) by (auto simp: shown_volume_def)
qed

lemma safe_daemon_step:
  assumes "plant_inv d s" and "daemon_step cs tag noise dt s = Some t" and "0 \<le> d"
    and "0 \<le> pours noise dt" "pours noise dt \<le> d" and "flow_rate (sensor_read 5 noise 200) * 10 < 65536"
  shows "plant_inv d t"
proof (cases "p_pos s")
  case LoopTop
  then show ?thesis using assms by (auto simp: plant_inv_def daemon_step_def safe_pos_def)
next
  case (ValveRead v)
  let ?flow = "flow_rate (sensor_read 5 noise (if fsm_state (p_fsm s) = DOSING then 200 else 0))"
  let ?i = "\<lparr>in_valve = v, in_reset = snd (p_coils s), in_flow = ?flow, in_rfid = tag, in_dt = dt\<rparr>"
  let ?f = "fsm_cycle ?i (p_fsm s)"
  have dose: "0 \<le> dose ?i \<and> dose ?i \<le> d" using assms(3-5) by (simp add: dose_def pours_def)
  then have inv: "fsm_inv d ?f" using assms(1) by (intro fsm_cycle_inv) (auto simp: plant_inv_def)
  have target: "target_volume_ml ?f = 1000" using assms(1) by (simp add: plant_inv_def fsm_cycle_def)
  have "0 \<le> accumulated_ml ?f \<and> accumulated_ml ?f < 1000 + d" using fsm_inv_volume [OF inv assms(3)] target by simp
  moreover have "0 \<le> ?flow \<and> ?flow * 10 < 65536" using assms(6) sensor_read_nonneg by simp
  ultimately have "safe_pos d (Publishing (writes ?flow v tag ?f))" by (auto simp: safe_pos_def writes_def)
  moreover have "t = s\<lparr>p_fsm := ?f, p_pos := Publishing (writes ?flow v tag ?f)\<rparr>"
    using assms(2) ValveRead by (simp add: daemon_step_def fsm_cycle_def Let_def)
  ultimately show ?thesis using assms(1) inv target by (simp add: plant_inv_def)
next
  case (Publishing ws)
  show ?thesis
  proof (cases ws)
    case Nil
    then show ?thesis using assms(1,2) Publishing by (auto simp: plant_inv_def daemon_step_def safe_pos_def)
  next
    case (Cons w ws')
    then show ?thesis
      using assms(1,2) Publishing safe_write [of cs w "p_regs s" _ d] by (auto simp: plant_inv_def daemon_step_def safe_pos_def)
  qed
qed

definition usual :: "real \<Rightarrow> (real \<Rightarrow> real \<Rightarrow> bool) \<Rightarrow> bool" where
  "usual d ok \<longleftrightarrow> (\<forall>noise dt. ok noise dt \<longrightarrow>
     0 \<le> pours noise dt \<and> pours noise dt \<le> d \<and> flow_rate (sensor_read 5 noise 200) * 10 < 65536)"

lemma plant_inv_step:
  assumes "plant_step cs operators ok s t" and "plant_inv d s" and "usual d ok" and "0 \<le> d"
  shows "plant_inv d t"
  using assms(1)
proof cases
  case (daemon noise dt tag)
  then show ?thesis using assms(2-4) safe_daemon_step [of d s cs tag noise dt t] by (simp add: usual_def)
qed (use assms(2) in \<open>auto simp: plant_inv_def plant_ops\<close>)

lemma plant_inv_init: "0 \<le> d \<Longrightarrow> plant_inv d plant_init"
  by (simp add: plant_inv_def plant_init_def fsm_inv_def safe_pos_def regs_init_def shown_volume_def)

lemma no_undefined_cast:
  assumes "plant_inv d s" and "1000 + d < 2 ^ 32"
  shows "daemon_step cs tag noise dt s \<noteq> None"
proof -
  have "reg_write cs w (p_regs s) \<noteq> None" if "p_pos s = Publishing (w # ws)" for w ws
    using assms that
    by (cases w) (auto simp: plant_inv_def safe_pos_def reg_write_def set_flow_rate_def Let_def)
  then show ?thesis by (auto simp: daemon_step_def Let_def split: daemon_pos.split list.split)
qed

text \<open>
  C3. Whoever else writes coils, and however connections, requests and the daemon's accesses interleave: if no cycle
  pours more than \<open>d\<close> ml, the machine stays below its target of a litre plus \<open>d\<close>, is COMPLETE exactly from the litre on,
  every register image that a client can read decodes, to a volume below the same bound, and no cast
  of the daemon is ever undefined.
\<close>

theorem plant_dose_safe:
  assumes "(plant_step cs operators ok)\<^sup>*\<^sup>* plant_init s" and "usual d ok" and "0 \<le> d" and "1000 + d < 2 ^ 32"
  shows "accumulated_ml (p_fsm s) < 1000 + d \<and> (fsm_state (p_fsm s) = COMPLETE \<longleftrightarrow> 1000 \<le> accumulated_ml (p_fsm s)) \<and>
    (\<exists>snap. parse_registers now (map uint (p_tab_regs s)) = Inr snap \<and> of_int (total_volume_ml snap) < 1000 + d) \<and>
    (\<forall>tag noise dt. daemon_step cs tag noise dt s \<noteq> None)"
proof -
  from assms(1) have inv: "plant_inv d s"
    by (induction rule: rtranclp_induct) (use plant_inv_init plant_inv_step assms(2,3) in blast)+
  then have f: "fsm_inv d (p_fsm s)" "target_volume_ml (p_fsm s) = 1000" by (simp_all add: plant_inv_def)
  then have "accumulated_ml (p_fsm s) < 1000 + d" "fsm_state (p_fsm s) = COMPLETE \<longleftrightarrow> 1000 \<le> accumulated_ml (p_fsm s)"
    using fsm_inv_volume [OF f(1) assms(3)] by (auto simp: fsm_inv_def split: dosing_state.splits)
  moreover have "\<exists>snap. parse_registers now (map uint (p_tab_regs s)) = Inr snap \<and> of_int (total_volume_ml snap) < 1000 + d"
    using inv by (simp add: plant_inv_def parse_registers_def shown_volume_def)
  ultimately show ?thesis using no_undefined_cast [OF inv assms(4)] by blast
qed

text \<open>An operator opens the valve; cycles of a tenth of a second without noise pour a third of a millilitre.\<close>

definition opened :: plant where
  "opened = write_coils (True, False) (accept_peer Operator plant_init)"

theorem plant_dose_safe_witness:
  "(plant_step True True (\<lambda>noise dt. noise = 0 \<and> dt = 1 / 10))\<^sup>*\<^sup>* plant_init opened \<and> accumulated_ml (p_fsm opened) < 1001"
proof -
  let ?ok = "\<lambda>noise dt :: real. noise = (0 :: real) \<and> dt = 1 / 10"
  have "plant_step True True ?ok plant_init (accept_peer Operator plant_init)"
    by (rule plant_step.accepted) (simp add: plant_init_def)
  moreover have "plant_step True True ?ok (accept_peer Operator plant_init) opened"
    unfolding opened_def by (rule plant_step.operate) (simp_all add: accept_peer_def)
  ultimately have run: "(plant_step True True ?ok)\<^sup>*\<^sup>* plant_init opened" by (meson converse_rtranclp_into_rtranclp r_into_rtranclp)
  have "usual 1 ?ok" by (simp add: usual_def pours_def sensor_read_def Let_def)
  from plant_dose_safe [OF run this] run show ?thesis by simp
qed

end
