(* ===== verification/Dosing_Rfid.thy ===== *)
theory Dosing_Rfid
  imports Dosing_Registers
begin

text \<open>
  The simulated RFID reader of the dosing daemon (\<open>controller/src/RfidSimulator.{h,cpp}\<close>). The random engine and the
  distributions of the C++ library are parameters: \<open>byte_dist\<close> draws a byte, \<open>trigger\<close> says whether a tag is seen and \<open>pick hi\<close>
  draws an index, each with the engine it leaves. A read beyond the pool is undefined behaviour, \<open>None\<close>.
\<close>

section \<open>Tags\<close>

record rfid_tag =
  epc :: string
  location :: string
  ts_us :: int

definition hex_digit :: "nat \<Rightarrow> char" where
  "hex_digit n = ''0123456789ABCDEF'' ! n"

text \<open>What a stream in the mode \<open>hex\<close>, \<open>uppercase\<close> writes for a number, and \<open>to_hex\<close> with its padding.\<close>

fun hex_text :: "nat \<Rightarrow> string" where
  "hex_text n = (if n < 16 then [hex_digit n] else hex_text (n div 16) @ [hex_digit (n mod 16)])"

declare hex_text.simps [simp del]

definition to_hex :: "8 word \<Rightarrow> string" where
  "to_hex b = (let t = hex_text (unat b) in replicate (2 - length t) CHR ''0'' @ t)"

fun hex_bytes :: "('r \<Rightarrow> 8 word \<times> 'r) \<Rightarrow> nat \<Rightarrow> 'r \<Rightarrow> string \<times> 'r" where
  "hex_bytes byte_dist 0 rng = ([], rng)"
| "hex_bytes byte_dist (Suc k) rng =
     (let (b, r) = byte_dist rng; (rest, r') = hex_bytes byte_dist k r in (to_hex b @ rest, r'))"

definition generate_epc :: "('r \<Rightarrow> 8 word \<times> 'r) \<Rightarrow> 'r \<Rightarrow> string \<times> 'r" where
  "generate_epc byte_dist rng = hex_bytes byte_dist 8 rng"

section \<open>The reader\<close>

text \<open>\<open>pick_max\<close> is the upper limit of \<open>pick_\<close>: \<open>pool_size - 1\<close> on \<open>size_t\<close>.\<close>

record 'r rfid_sim =
  rng :: 'r
  pool :: "string list"
  pick_max :: "64 word"
  pending_tag :: "string option"

fun fill_pool :: "('r \<Rightarrow> 8 word \<times> 'r) \<Rightarrow> nat \<Rightarrow> 'r \<Rightarrow> string list \<times> 'r" where
  "fill_pool byte_dist 0 r = ([], r)"
| "fill_pool byte_dist (Suc n) r =
     (let (e, r') = generate_epc byte_dist r; (es, r'') = fill_pool byte_dist n r' in (e # es, r''))"

definition rfid_init :: "('r \<Rightarrow> 8 word \<times> 'r) \<Rightarrow> 'r \<Rightarrow> 64 word \<Rightarrow> 'r rfid_sim" where
  "rfid_init byte_dist seeded pool_size =
     (let (es, r) = fill_pool byte_dist (unat pool_size) seeded
      in \<lparr>rng = r, pool = es, pick_max = pool_size - 1, pending_tag = None\<rparr>)"

definition scan ::
  "('r \<Rightarrow> bool \<times> 'r) \<Rightarrow> (64 word \<Rightarrow> 'r \<Rightarrow> 64 word \<times> 'r) \<Rightarrow> int \<Rightarrow> 'r rfid_sim \<Rightarrow> (rfid_tag option \<times> 'r rfid_sim) option" where
  "scan trigger pick now sim =
     (let tag = (\<lambda>e. \<lparr>epc = e, location = ''station-1'', ts_us = now\<rparr>)
      in case pending_tag sim of
           Some e \<Rightarrow> Some (Some (tag e), sim\<lparr>pending_tag := None\<rparr>)
         | None \<Rightarrow>
             (let (seen, r) = trigger (rng sim)
              in if \<not> seen then Some (None, sim\<lparr>rng := r\<rparr>)
                 else let (i, r') = pick (pick_max sim) r
                      in if unat i < length (pool sim) then Some (Some (tag (pool sim ! unat i)), sim\<lparr>rng := r'\<rparr>)
                         else None))"

definition inject :: "string \<Rightarrow> 'r rfid_sim \<Rightarrow> 'r rfid_sim" where
  "inject e sim = sim\<lparr>pending_tag := Some e\<rparr>"

text \<open>A use of the reader: scans at given times, and injected tags between them.\<close>

datatype rfid_op = Scan int | Inject string

fun rfid_run ::
  "('r \<Rightarrow> bool \<times> 'r) \<Rightarrow> (64 word \<Rightarrow> 'r \<Rightarrow> 64 word \<times> 'r) \<Rightarrow> rfid_op list \<Rightarrow> 'r rfid_sim
   \<Rightarrow> (rfid_tag option list \<times> 'r rfid_sim) option" where
  "rfid_run trigger pick [] sim = Some ([], sim)"
| "rfid_run trigger pick (Inject e # ops) sim = rfid_run trigger pick ops (inject e sim)"
| "rfid_run trigger pick (Scan now # ops) sim =
     (case scan trigger pick now sim of
        None \<Rightarrow> None
      | Some (t, sim') \<Rightarrow> map_option (\<lambda>(ts, s). (t # ts, s)) (rfid_run trigger pick ops sim'))"

section \<open>Tags are sixteen hexadecimal digits\<close>

definition hex_char :: "char \<Rightarrow> bool" where
  "hex_char c \<longleftrightarrow> c \<in> set ''0123456789ABCDEF''"

definition hex_tag :: "string \<Rightarrow> bool" where
  "hex_tag e \<longleftrightarrow> length e = 16 \<and> list_all hex_char e"

lemma hex_char_digit: "n < 16 \<Longrightarrow> hex_char (hex_digit n)"
  unfolding hex_char_def hex_digit_def by (rule nth_mem) simp

lemma hex_char_printable: "hex_char c \<Longrightarrow> of_char c < (128::nat) \<and> c \<noteq> CHR 0x00"
  unfolding hex_char_def by auto

text \<open>A byte has two digits, whatever the number of digits the stream writes.\<close>

lemma byte_digits: "unat (b :: 8 word) div 16 < 16"
proof -
  have "unat b < 256" using unsigned_less [of b, where ?'a = nat] by simp
  then show ?thesis by simp
qed

lemma to_hex_digits: "to_hex b = [hex_digit (unat b div 16), hex_digit (unat b mod 16)]"
  using byte_digits [of b]
  by (simp add: to_hex_def Let_def hex_text.simps [of "unat b"] hex_text.simps [of "unat b div 16"] hex_digit_def)

lemma to_hex_chars: "length (to_hex b) = 2" "list_all hex_char (to_hex b)"
  using byte_digits [of b] by (auto simp: to_hex_digits hex_char_digit)

lemma hex_bytes_tag: "length (fst (hex_bytes byte_dist k r)) = 2 * k \<and> list_all hex_char (fst (hex_bytes byte_dist k r))"
  by (induction k arbitrary: r) (simp_all add: case_prod_beta to_hex_chars)

lemma fill_pool_tags: "length (fst (fill_pool byte_dist n r)) = n \<and> list_all hex_tag (fst (fill_pool byte_dist n r))"
  by (induction n arbitrary: r) (simp_all add: case_prod_beta generate_epc_def hex_tag_def hex_bytes_tag)

lemma hex_tag_epc_ok: "hex_tag e \<Longrightarrow> epc_ok e"
  using hex_char_printable hd_in_set [of e] last_in_set [of e] by (auto simp: hex_tag_def epc_ok_def list_all_iff)

definition sim_ok :: "'r rfid_sim \<Rightarrow> bool" where
  "sim_ok sim \<longleftrightarrow> list_all hex_tag (pool sim) \<and> unat (pick_max sim) < length (pool sim)"

lemma rfid_init_ok: "pool_size \<noteq> 0 \<Longrightarrow> sim_ok (rfid_init byte_dist seeded pool_size)"
  using fill_pool_tags [of byte_dist "unat pool_size" seeded] unat_gt_0 [of pool_size]
  by (simp add: sim_ok_def rfid_init_def case_prod_beta unat_minus_one)

text \<open>What a scan may show: a tag of the reader, or one that was injected before it.\<close>

definition seen_ok :: "string set \<Rightarrow> rfid_tag option \<Rightarrow> bool" where
  "seen_ok injected t = (case t of None \<Rightarrow> True
     | Some t \<Rightarrow> location t = ''station-1'' \<and> (hex_tag (epc t) \<or> epc t \<in> injected))"

definition injections :: "rfid_op list \<Rightarrow> string set" where
  "injections ops = {e. Inject e \<in> set ops}"

lemma injections_simps [simp]:
  "injections [] = {}" "injections (Inject e # ops) = insert e (injections ops)" "injections (Scan t # ops) = injections ops"
  by (auto simp: injections_def)

fun scans :: "rfid_op list \<Rightarrow> nat" where
  "scans [] = 0"
| "scans (Scan now # ops) = Suc (scans ops)"
| "scans (Inject e # ops) = scans ops"

lemma seen_ok_mono: "seen_ok A t \<Longrightarrow> A \<subseteq> B \<Longrightarrow> seen_ok B t"
  by (auto simp: seen_ok_def split: option.splits)

lemma scan_ok:
  assumes "\<And>hi r. fst (pick hi r) \<le> hi" and "sim_ok sim"
  shows "\<exists>t sim'. scan trigger pick now sim = Some (t, sim') \<and> sim_ok sim' \<and>
    seen_ok (set_option (pending_tag sim)) t \<and> pending_tag sim' = None"
proof (cases "pending_tag sim")
  case (Some e)
  then show ?thesis using assms(2) by (simp add: scan_def sim_ok_def seen_ok_def)
next
  case None
  obtain seen r where r: "trigger (rng sim) = (seen, r)" by (cases "trigger (rng sim)")
  obtain i r' where i: "pick (pick_max sim) r = (i, r')" by (cases "pick (pick_max sim) r")
  have "i \<le> pick_max sim" using assms(1) [of "pick_max sim" r] by (simp add: i)
  then have bound: "unat i < length (pool sim)"
    using assms(2) by (simp add: sim_ok_def word_le_nat_alt)
  then have "hex_tag (pool sim ! unat i)" using assms(2) by (simp add: sim_ok_def list_all_length)
  then show ?thesis
    using None r i bound assms(2) by (cases seen) (simp_all add: scan_def sim_ok_def seen_ok_def)
qed

lemma rfid_run_typed:
  assumes pick: "\<And>hi r. fst (pick hi r) \<le> hi" and "sim_ok sim"
  shows "\<exists>ts sim'. rfid_run trigger pick ops sim = Some (ts, sim') \<and> length ts = scans ops \<and>
    list_all (seen_ok (set_option (pending_tag sim) \<union> injections ops)) ts"
  using assms(2)
proof (induction ops arbitrary: sim)
  case (Cons a ops)
  show ?case
  proof (cases a)
    case (Inject e)
    have "sim_ok (inject e sim)" using Cons.prems by (simp add: sim_ok_def inject_def)
    then obtain ts sim' where ts: "rfid_run trigger pick ops (inject e sim) = Some (ts, sim')" "length ts = scans ops"
        "list_all (seen_ok ({e} \<union> injections ops)) ts"
      using Cons.IH [of "inject e sim"] by (auto simp: inject_def)
    have "list_all (seen_ok (set_option (pending_tag sim) \<union> injections (a # ops))) ts"
      by (rule list.pred_mono_strong [OF ts(3)]) (auto simp: Inject elim: seen_ok_mono)
    then show ?thesis using ts by (simp add: Inject)
  next
    case (Scan now)
    obtain t sim1 where t: "scan trigger pick now sim = Some (t, sim1)" "sim_ok sim1"
        "seen_ok (set_option (pending_tag sim)) t" "pending_tag sim1 = None"
      using scan_ok [of pick sim trigger now, OF pick Cons.prems] by blast
    obtain ts sim' where ts: "rfid_run trigger pick ops sim1 = Some (ts, sim')" "length ts = scans ops"
        "list_all (seen_ok (injections ops)) ts"
      using Cons.IH [OF t(2)] t(4) by auto
    have "seen_ok (set_option (pending_tag sim) \<union> injections (a # ops)) t"
      using t(3) by (rule seen_ok_mono) blast
    moreover have "list_all (seen_ok (set_option (pending_tag sim) \<union> injections (a # ops))) ts"
      by (rule list.pred_mono_strong [OF ts(3)]) (auto simp: Scan elim: seen_ok_mono)
    ultimately show ?thesis using t ts by (simp add: Scan)
  qed
qed simp

text \<open>
  C35. A reader with a pool never reads outside it, whatever the random numbers: every scan of every run
  gives nothing or a tag of station-1 that is sixteen upper-case hexadecimal digits or was injected, and a generated
  tag has the form that survives the register image. An injected tag is what the next scan gives, once, without
  drawing a random number. With an empty pool the index goes up to the largest \<open>size_t\<close>: every tag seen is an undefined read.
\<close>

theorem rfid_tags_typed:
  assumes "\<And>hi r. fst (pick hi r) \<le> hi" and "pool_size \<noteq> 0"
  shows "(\<exists>ts sim'. rfid_run trigger pick ops (rfid_init byte_dist seeded pool_size) = Some (ts, sim') \<and>
      length ts = scans ops \<and> list_all (seen_ok (injections ops)) ts) \<and>
    (hex_tag e \<longrightarrow> epc_ok e) \<and>
    scan trigger pick now (inject e sim) =
      Some (Some \<lparr>epc = e, location = ''station-1'', ts_us = now\<rparr>, sim\<lparr>pending_tag := None\<rparr>) \<and>
    pick_max (rfid_init byte_dist seeded 0) = - 1 \<and>
    (fst (trigger (rng (rfid_init byte_dist seeded 0))) \<longrightarrow> scan trigger pick now (rfid_init byte_dist seeded 0) = None)"
proof (intro conjI impI)
  show "\<exists>ts sim'. rfid_run trigger pick ops (rfid_init byte_dist seeded pool_size) = Some (ts, sim') \<and>
      length ts = scans ops \<and> list_all (seen_ok (injections ops)) ts"
    using rfid_run_typed [OF assms(1) rfid_init_ok [OF assms(2)]]
    by (simp add: rfid_init_def case_prod_beta)
qed (simp_all add: hex_tag_epc_ok scan_def inject_def rfid_init_def case_prod_beta)

theorem rfid_tags_typed_witness:
  "\<exists>ts sim'. rfid_run (\<lambda>r. (even r, Suc r)) (\<lambda>hi r. (hi, r)) [Scan 1, Inject ''AB'', Scan 2]
      (rfid_init (\<lambda>r. (of_nat r, Suc r)) (42::nat) 8) = Some (ts, sim') \<and> length ts = 2"
  using rfid_tags_typed [of "\<lambda>hi r. (hi, r)" 8 "\<lambda>r. (even r, Suc r)" "[Scan 1, Inject ''AB'', Scan 2]"
      "\<lambda>r. (of_nat r, Suc r)" "42::nat" "[]" 0 "rfid_init (\<lambda>r. (of_nat r, Suc r)) (42::nat) 8"]
  by fastforce

end
