(* ===== verification/Iso_Time.thy ===== *)
theory Iso_Time
  imports Prelude "HOL-Library.Product_Lexorder" "HOL-Library.List_Lexorder" "HOL-Library.Char_ord"
begin

text \<open>
  Python's \<open>datetime\<close> in UTC and the text \<open>isoformat()\<close> gives it. The dashboard stores this text
  and sorts by it, so the order of the texts has to be the order of the times.
\<close>

section \<open>Date and time\<close>

datatype datetime = Datetime
  (year: nat) (month: nat) (day: nat) (hour: nat) (minute: nat) (second: nat) (microsecond: nat)

definition fields :: "datetime \<Rightarrow> nat \<times> nat \<times> nat \<times> nat \<times> nat \<times> nat \<times> nat" where
  "fields t = (year t, month t, day t, hour t, minute t, second t, microsecond t)"

lemma fields_inject [simp]: "fields s = fields t \<longleftrightarrow> s = t"
  by (cases s; cases t) (simp add: fields_def)

text \<open>The chronological order is the lexicographic order of the fields.\<close>

instantiation datetime :: linorder
begin

definition less_eq_datetime :: "datetime \<Rightarrow> datetime \<Rightarrow> bool" where
  "less_eq_datetime s t \<longleftrightarrow> fields s \<le> fields t"

definition less_datetime :: "datetime \<Rightarrow> datetime \<Rightarrow> bool" where
  "less_datetime s t \<longleftrightarrow> fields s < fields t"

instance
proof
  fix r s t :: datetime
  show "(s < t) = (s \<le> t \<and> \<not> t \<le> s)"
    by (simp add: less_eq_datetime_def less_datetime_def less_le_not_le)
  show "s \<le> s"
    by (simp add: less_eq_datetime_def)
  show "r \<le> s \<Longrightarrow> s \<le> t \<Longrightarrow> r \<le> t"
    unfolding less_eq_datetime_def by (rule order_trans)
  show "s \<le> t \<Longrightarrow> t \<le> s \<Longrightarrow> s = t"
    unfolding less_eq_datetime_def using fields_inject [of s t] by (metis order_antisym)
  show "s \<le> t \<or> t \<le> s"
    unfolding less_eq_datetime_def by (rule linear)
qed

end

definition datetime_ok :: "datetime \<Rightarrow> bool" where
  "datetime_ok t \<longleftrightarrow> 1 \<le> year t \<and> year t \<le> 9999 \<and> 1 \<le> month t \<and> month t \<le> 12 \<and>
     1 \<le> day t \<and> day t \<le> 31 \<and> hour t < 24 \<and> minute t < 60 \<and> second t < 60 \<and>
     microsecond t < 1000000"

section \<open>isoformat\<close>

definition digit :: "nat \<Rightarrow> char" where
  "digit d = char_of (48 + d)"

text \<open>\<open>n\<close> in decimal, on exactly \<open>w\<close> digits (\<open>%0wd\<close> of a number that fits).\<close>

fun pad :: "nat \<Rightarrow> nat \<Rightarrow> string" where
  "pad 0 n = []"
| "pad (Suc w) n = pad w (n div 10) @ [digit (n mod 10)]"

text \<open>The fraction is left out when it is zero, as \<open>datetime.isoformat\<close> does.\<close>

definition isoformat :: "datetime \<Rightarrow> string" where
  "isoformat t =
     pad 4 (year t) @ ''-'' @ pad 2 (month t) @ ''-'' @ pad 2 (day t) @ ''T'' @
     pad 2 (hour t) @ '':'' @ pad 2 (minute t) @ '':'' @ pad 2 (second t) @
     (if microsecond t = 0 then [] else ''.'' @ pad 6 (microsecond t)) @ ''+00:00''"

lemma pad_numeral:
  "pad (numeral w) n = pad (pred_numeral w) (n div 10) @ [digit (n mod 10)]"
  by (metis numeral_eq_Suc pad.simps(2))

lemma length_pad [simp]: "length (pad w n) = w"
  by (induction w arbitrary: n) auto

lemma of_char_digit: "d < 10 \<Longrightarrow> of_char (digit d) = (48 + d :: nat)"
  by (simp add: digit_def)

lemma digit_less: "a < 10 \<Longrightarrow> b < 10 \<Longrightarrow> digit a < digit b \<longleftrightarrow> a < b"
  by (simp add: digit_def less_char_def)

lemma append_less_iff:
  fixes xs ys us vs :: "('a::linorder) list"
  assumes "length xs = length us"
  shows "xs @ ys < us @ vs \<longleftrightarrow> xs < us \<or> (xs = us \<and> ys < vs)"
  using assms by (induction xs us rule: list_induct2) auto

lemma div_mod_less:
  fixes m n :: nat
  shows "(m < n) = (m div 10 < n div 10 \<or> m div 10 = n div 10 \<and> m mod 10 < n mod 10)"
proof -
  have lin: "(10 * a + c < 10 * b + d) = (a < b \<or> a = b \<and> c < d)"
    if "c < 10" "d < 10" for a b c d :: nat
    using that by (cases a b rule: linorder_cases) auto
  show ?thesis
    using lin [of "m mod 10" "n mod 10" "m div 10" "n div 10"] by simp
qed

lemma pad_less:
  assumes "m < 10 ^ w" and "n < 10 ^ w"
  shows "(pad w m < pad w n) = (m < n)"
  using assms
proof (induction w arbitrary: m n)
  case 0
  then show ?case by simp
next
  case (Suc w)
  have IH: "(pad w (a div 10) < pad w (b div 10)) = (a div 10 < b div 10)"
    if "a < 10 ^ Suc w" "b < 10 ^ Suc w" for a b
    using Suc.IH [of "a div 10" "b div 10"] that by (simp add: less_mult_imp_div_less)
  have eq: "(pad w (m div 10) = pad w (n div 10)) = (m div 10 = n div 10)"
  proof (cases "m div 10" "n div 10" rule: linorder_cases)
    case less
    then have "pad w (m div 10) < pad w (n div 10)"
      using IH [of m n] Suc.prems by simp
    with less show ?thesis by auto
  next
    case greater
    then have "pad w (n div 10) < pad w (m div 10)"
      using IH [of n m] Suc.prems by simp
    with greater show ?thesis by auto
  qed simp
  have "(m < n) = (m div 10 < n div 10 \<or> m div 10 = n div 10 \<and> m mod 10 < n mod 10)"
    by (rule div_mod_less)
  then show ?case
    using IH [of m n] eq Suc.prems by (simp add: append_less_iff digit_less)
qed

lemma pad_eq: "m < 10 ^ w \<Longrightarrow> n < 10 ^ w \<Longrightarrow> (pad w m = pad w n) = (m = n)"
  using pad_less [of m w n] pad_less [of n w m]
  by (cases m n rule: linorder_cases) auto

lemma pair_less:
  fixes a c :: "'a::linorder" and b d :: "'b::linorder"
  shows "((a, b) < (c, d)) = (a < c \<or> a = c \<and> b < d)"
  by (auto simp: less_le)

lemma fraction_less:
  fixes m n :: nat
  assumes "m < 1000000" and "n < 1000000"
  shows "((if m = 0 then [] else ''.'' @ pad 6 m) @ ''+00:00'' <
          (if n = 0 then [] else ''.'' @ pad 6 n) @ ''+00:00'') = (m < n)"
proof -
  have plus_dot: "CHR ''+'' < CHR ''.''"
    by (simp add: less_char_def)
  show ?thesis
    using pad_less [of m 6 n] assms plus_dot
    by (auto simp: append_less_iff)
qed

text \<open>
  The text order is the time order: for times in range, \<open>isoformat\<close> of one sorts before
  \<open>isoformat\<close> of the other exactly when the time is earlier, although the fraction has a
  variable length.
\<close>

theorem isoformat_strict_mono:
  assumes "datetime_ok s" and "datetime_ok t"
  shows "(isoformat s < isoformat t) = (s < t)"
proof -
  note bounds = assms [unfolded datetime_ok_def]
  have y: "(pad 4 (year s) < pad 4 (year t)) = (year s < year t)"
    "(pad 4 (year s) = pad 4 (year t)) = (year s = year t)"
    using bounds by (auto intro!: pad_less pad_eq)
  have f: "(pad 2 a < pad 2 b) = (a < b)" "(pad 2 a = pad 2 b) = (a = b)"
    if "a < 60" "b < 60" for a b
    using that by (auto intro!: pad_less pad_eq)
  have small: "month s < 60" "month t < 60" "day s < 60" "day t < 60"
    "hour s < 60" "hour t < 60" "minute s < 60" "minute t < 60" "second s < 60" "second t < 60"
    using bounds by simp_all
  show ?thesis
    using fraction_less [of "microsecond s" "microsecond t"] bounds
    by (simp add: isoformat_def less_datetime_def fields_def append_less_iff y f small
        pair_less del: less_prod_simp split del: if_split)
qed

theorem isoformat_strict_mono_witness:
  "isoformat (Datetime 2026 5 19 10 0 0 0) = ''2026-05-19T10:00:00+00:00'' \<and>
   isoformat (Datetime 2026 5 19 10 0 0 500000) = ''2026-05-19T10:00:00.500000+00:00'' \<and>
   isoformat (Datetime 2026 5 19 10 0 0 0) < isoformat (Datetime 2026 5 19 10 0 0 500000)"
proof -
  have "datetime_ok (Datetime 2026 5 19 10 0 0 0)" "datetime_ok (Datetime 2026 5 19 10 0 0 500000)"
    by (simp_all add: datetime_ok_def)
  from isoformat_strict_mono [OF this] show ?thesis
    by (simp add: less_datetime_def fields_def pair_less isoformat_def pad_numeral digit_def char_of_def bit_0 del: less_prod_simp)
qed

end
