(* ===== verification/Dosing_Store.thy ===== *)
theory Dosing_Store
  imports Dosing_Registers Iso_Time
begin

text \<open>
  The telemetry store of the dosing stack: the SQLite tables (\<open>collector/db.py\<close>), the
  collector's writes and polling loop (\<open>collector/modbus_reader.py\<close>) and the dashboard's
  queries (\<open>api/main.py\<close>).
\<close>

section \<open>The tables\<close>

record metric_row =
  m_ts :: string
  m_flow_rate_ml_min :: real
  m_valve_state :: int
  m_dosing_state :: string
  m_rfid_tag :: string

record event_row =
  e_id :: nat
  e_ts :: string
  e_rfid_tag :: string
  e_volume_ml :: real
  e_duration_s :: real
  e_dosing_state :: string

record dosing_db =
  sensor_metrics :: "metric_row list"
  dosing_events :: "event_row list"

text \<open>\<open>CREATE TABLE IF NOT EXISTS\<close>: a database that has the tables is left as it is.\<close>

definition init_db :: "dosing_db option \<Rightarrow> dosing_db" where
  "init_db f = (case f of Some db \<Rightarrow> db | None \<Rightarrow> \<lparr>sensor_metrics = [], dosing_events = []\<rparr>)"

text \<open>
  \<open>INSERT OR REPLACE\<close> on the primary key \<open>ts\<close>: a row with the same key is deleted first.
\<close>

definition insert_or_replace :: "metric_row \<Rightarrow> metric_row list \<Rightarrow> metric_row list" where
  "insert_or_replace r rows = filter (\<lambda>q. m_ts q \<noteq> m_ts r) rows @ [r]"

definition metric_of :: "sensor_snapshot \<Rightarrow> metric_row" where
  "metric_of snap =
     \<lparr>m_ts = snap_ts snap, m_flow_rate_ml_min = flow_rate_ml_min snap,
      m_valve_state = valve_state snap, m_dosing_state = dosing_state_of snap,
      m_rfid_tag = rfid_tag snap\<rparr>"

definition write_metric :: "sensor_snapshot \<Rightarrow> dosing_db \<Rightarrow> dosing_db" where
  "write_metric snap db = db\<lparr>sensor_metrics := insert_or_replace (metric_of snap) (sensor_metrics db)\<rparr>"

section \<open>The collector's loop\<close>

text \<open>
  One poll: a Modbus error, or the registers read, the text of the clock when they are parsed
  and whether SQLite accepts the write (a locked database raises).
\<close>

datatype poll = PollError | Poll (poll_now: string) (poll_regs: "int list") (poll_write_ok: bool)

definition collector_poll :: "poll \<Rightarrow> dosing_db \<Rightarrow> dosing_db" where
  "collector_poll p db =
     (case p of
        PollError \<Rightarrow> db
      | Poll now regs ok \<Rightarrow>
          (case parse_registers now regs of
             Inl _ \<Rightarrow> db
           | Inr snap \<Rightarrow> if ok then write_metric snap db else db))"

definition run_collector :: "dosing_db option \<Rightarrow> poll list \<Rightarrow> dosing_db" where
  "run_collector f polls = fold collector_poll polls (init_db f)"

section \<open>The dashboard's queries\<close>

datatype status_body = NoData | Latest metric_row

text \<open>\<open>order\<close> is the database's \<open>ORDER BY ts DESC\<close>.\<close>

definition status :: "(metric_row list \<Rightarrow> metric_row list) \<Rightarrow> dosing_db \<Rightarrow> status_body" where
  "status order db =
     (case sqlite_limit 1 (order (sensor_metrics db)) of [] \<Rightarrow> NoData | r # _ \<Rightarrow> Latest r)"

definition events :: "(event_row list \<Rightarrow> event_row list) \<Rightarrow> int \<Rightarrow> dosing_db \<Rightarrow> event_row list" where
  "events order limit db = sqlite_limit limit (order (dosing_events db))"

definition metrics :: "(metric_row list \<Rightarrow> metric_row list) \<Rightarrow> int \<Rightarrow> dosing_db \<Rightarrow> metric_row list" where
  "metrics order last_n db = sqlite_limit last_n (order (sensor_metrics db))"

section \<open>The primary key\<close>

definition ts_unique :: "dosing_db \<Rightarrow> bool" where
  "ts_unique db \<longleftrightarrow> distinct (map m_ts (sensor_metrics db))"

lemma set_insert_or_replace:
  "set (insert_or_replace r rows) = insert r {q \<in> set rows. m_ts q \<noteq> m_ts r}"
  by (auto simp: insert_or_replace_def)

lemma distinct_insert_or_replace:
  "distinct (map m_ts rows) \<Longrightarrow> distinct (map m_ts (insert_or_replace r rows))"
  by (auto simp: insert_or_replace_def distinct_map_filter)

lemma collector_poll_cases:
  "collector_poll p db = db \<or>
   (\<exists>now regs snap. p = Poll now regs True \<and> parse_registers now regs = Inr snap \<and>
      collector_poll p db = write_metric snap db)"
  by (cases p) (auto simp: collector_poll_def split: sum.splits)

lemma collector_poll_unique: "ts_unique db \<Longrightarrow> ts_unique (collector_poll p db)"
  using collector_poll_cases [of p db]
  by (auto simp: ts_unique_def write_metric_def distinct_insert_or_replace)

lemma collector_fold_unique: "ts_unique db \<Longrightarrow> ts_unique (fold collector_poll ps db)"
  by (induction ps arbitrary: db) (auto simp: collector_poll_unique)

lemma collector_fold_events: "dosing_events (fold collector_poll ps db) = dosing_events db"
proof (induction ps arbitrary: db)
  case Nil
  then show ?case by simp
next
  case (Cons p ps)
  have "dosing_events (collector_poll p db) = dosing_events db"
    using collector_poll_cases [of p db] by (auto simp: write_metric_def)
  with Cons show ?case by simp
qed

section \<open>What the dashboard shows\<close>

context order_desc
begin

text \<open>A query for the first \<open>n\<close> rows returns \<open>n\<close> rows of the table, newest first.\<close>

lemma newest_rows:
  assumes "r \<in> set (sqlite_limit n (order rows))" and "q \<in> set rows"
    and "q \<notin> set (sqlite_limit n (order rows))"
  shows "r \<in> set rows" and "key q \<le> key r"
proof -
  show "r \<in> set rows"
    using assms(1) set_sqlite_limit [of n "order rows"] by auto
  have n: "\<not> n < 0"
    using assms(2,3) by (auto simp: sqlite_limit_def)
  have "q \<in> set (take (nat n) (order rows) @ drop (nat n) (order rows))"
    using assms(2) by simp
  with n assms(3) have "q \<in> set (drop (nat n) (order rows))"
    by (auto simp: sqlite_limit_def simp del: append_take_drop_id)
  with n assms(1) show "key q \<le> key r"
    by (auto simp: sqlite_limit_def intro: take_order_newest)
qed

lemma sorted_limit: "sorted_wrt (\<lambda>a b. key b \<le> key a) (sqlite_limit n (order rows))"
  using sorted_order [of rows] by (simp add: sqlite_limit_def sorted_wrt_take)

end

text \<open>
  The metrics endpoint: with any \<open>ORDER BY ts DESC\<close>, it returns \<open>last_n\<close> rows of the table
  (all of them when \<open>last_n\<close> is negative or larger than the table), newest first, and no row it
  leaves out is newer than one it returns.
\<close>

theorem metrics_newest:
  assumes "order_desc m_ts order"
  shows "length (metrics order n db) =
           (if n < 0 then length (sensor_metrics db) else min (length (sensor_metrics db)) (nat n)) \<and>
         sorted_wrt (\<lambda>a b. m_ts b \<le> m_ts a) (metrics order n db) \<and>
         set (metrics order n db) \<subseteq> set (sensor_metrics db) \<and>
         (\<forall>r\<in>set (metrics order n db). \<forall>q\<in>set (sensor_metrics db) - set (metrics order n db).
            m_ts q \<le> m_ts r)"
proof -
  note o = order_desc.newest_rows [OF assms] order_desc.sorted_limit [OF assms]
    order_desc.length_order [OF assms] order_desc.set_order [OF assms]
  have "set (metrics order n db) \<subseteq> set (sensor_metrics db)"
    using set_sqlite_limit [of n "order (sensor_metrics db)"] o(5) by (simp add: metrics_def)
  then show ?thesis
    using o by (auto simp: metrics_def length_sqlite_limit)
qed

definition sample_db :: dosing_db where
  "sample_db = run_collector None
     [Poll ''2026-05-19T10:00:00+00:00'' [2000, 1, 0, 500, 0, 0, 0, 0, 0, 0, 0, 0, 1] True,
      PollError,
      Poll ''2026-05-19T10:00:00.500000+00:00'' [1, 2, 3] True,
      Poll ''2026-05-19T10:00:01+00:00'' [1990, 1, 0, 501, 0, 0, 0, 0, 0, 0, 0, 0, 3] True]"

theorem metrics_newest_witness:
  "length (metrics (newest_first m_ts) 1 sample_db) = 1"
  using metrics_newest [OF order_desc_newest_first, of 1 sample_db]
  by (simp add: sample_db_def run_collector_def init_db_def collector_poll_def parse_registers_def
      write_metric_def insert_or_replace_def metric_of_def)

section \<open>What a run of the collector leaves for the dashboard\<close>

text \<open>The snapshot a poll stores, if it stores one.\<close>

definition stored :: "poll \<Rightarrow> sensor_snapshot option" where
  "stored p =
     (case p of
        PollError \<Rightarrow> None
      | Poll now regs ok \<Rightarrow>
          (case parse_registers now regs of
             Inl _ \<Rightarrow> None
           | Inr snap \<Rightarrow> if ok then Some snap else None))"

lemma collector_poll_stored:
  "collector_poll p db = (case stored p of None \<Rightarrow> db | Some snap \<Rightarrow> write_metric snap db)"
  by (auto simp: collector_poll_def stored_def split: poll.split sum.split)

lemma sensor_metrics_fold:
  "sensor_metrics (fold collector_poll ps db) =
     fold insert_or_replace (map metric_of (List.map_filter stored ps)) (sensor_metrics db)"
  by (induction ps arbitrary: db)
     (auto simp: collector_poll_stored map_filter_simps write_metric_def split: option.split)

lemma set_fold_insert_or_replace:
  "set (fold insert_or_replace rs rows) \<subseteq> set rs \<union> set rows"
  by (induction rs arbitrary: rows) (fastforce simp: set_insert_or_replace)+

lemma last_in_fold_insert_or_replace:
  "rs \<noteq> [] \<Longrightarrow> last rs \<in> set (fold insert_or_replace rs rows)"
  by (cases rs rule: rev_cases) (auto simp: set_insert_or_replace)

lemma last_newest:
  fixes rs :: "'r list" and key :: "'r \<Rightarrow> 'k::linorder"
  shows "sorted (map key rs) \<Longrightarrow> q \<in> set rs \<Longrightarrow> key q \<le> key (last rs)"
  by (cases rs rule: rev_cases) (auto simp: sorted_append)

text \<open>
  C26. End to end: after any sequence of polls into a fresh database, Modbus errors, short register
  blocks and failed writes among them, the status endpoint shows the snapshot of the last poll
  that stored one, and "no data yet" exactly when none did. The clock may stand still but not go
  back.
\<close>

theorem status_shows_last_snapshot:
  assumes "order_desc m_ts order"
    and "sorted (map snap_ts (List.map_filter stored polls))"
  shows "status order (run_collector None polls) =
           (if List.map_filter stored polls = [] then NoData
            else Latest (metric_of (last (List.map_filter stored polls))))"
proof (cases "List.map_filter stored polls = []")
  case True
  then show ?thesis
    using order_desc.order_Nil_iff [OF assms(1), of "[]"]
    by (simp add: status_def run_collector_def sensor_metrics_fold init_db_def sqlite_limit_def)
next
  case False
  let ?snaps = "List.map_filter stored polls"
  let ?db = "run_collector None polls"
  let ?rows = "sensor_metrics ?db"
  have rows: "?rows = fold insert_or_replace (map metric_of ?snaps) []"
    by (simp add: run_collector_def sensor_metrics_fold init_db_def)
  have "ts_unique ?db"
    unfolding run_collector_def by (rule collector_fold_unique) (simp add: ts_unique_def init_db_def)
  then have inj: "inj_on m_ts (set ?rows)"
    by (simp add: ts_unique_def distinct_map)
  have last_in: "metric_of (last ?snaps) \<in> set ?rows"
    using last_in_fold_insert_or_replace [of "map metric_of ?snaps" "[]"] False
    by (simp add: rows last_map)
  have newest: "m_ts q \<le> m_ts (metric_of (last ?snaps))" if "q \<in> set ?rows" for q
  proof -
    have "q \<in> set (map metric_of ?snaps)"
      using that set_fold_insert_or_replace [of "map metric_of ?snaps" "[]"] by (auto simp: rows)
    then obtain s where "s \<in> set ?snaps" and "q = metric_of s" by auto
    then show ?thesis
      using last_newest [OF assms(2)] by (simp add: metric_of_def)
  qed
  have "?rows \<noteq> []" using last_in by auto
  then have "hd (order ?rows) = metric_of (last ?snaps)" and "order ?rows \<noteq> []"
    using order_desc.hd_order_unique [OF assms(1) _ last_in inj newest]
      order_desc.order_Nil_iff [OF assms(1)] by auto
  then show ?thesis
    using False by (cases "order ?rows") (simp_all add: status_def sqlite_limit_def)
qed

theorem status_shows_last_snapshot_witness:
  "status (newest_first m_ts) sample_db =
     Latest \<lparr>m_ts = ''2026-05-19T10:00:01+00:00'', m_flow_rate_ml_min = 199, m_valve_state = 1,
             m_dosing_state = ''COMPLETE'', m_rfid_tag = ''''\<rparr>"
  unfolding sample_db_def
  by (subst status_shows_last_snapshot [OF order_desc_newest_first])
     (simp_all add: map_filter_simps stored_def parse_registers_def metric_of_def state_name_def
       DOSING_STATES_def strip_nul_def epc_chars_def upt8 less_char_def char_of_def)

text \<open>
  No code path of the collector writes \<open>dosing_events\<close>: the events endpoint of a stack
  started on a fresh database returns an empty list for every limit, whatever was polled.
\<close>

theorem events_always_empty:
  assumes "order_desc e_ts order"
  shows "events order limit (run_collector None polls) = []"
  using order_desc.order_Nil_iff [OF assms, of "[]"]
  by (simp add: events_def run_collector_def collector_fold_events init_db_def sqlite_limit_def)

theorem events_always_empty_witness: "events (newest_first e_ts) 50 sample_db = []"
  unfolding sample_db_def by (rule events_always_empty [OF order_desc_newest_first])

end
