(* ===== verification/Dosing_Dashboard.thy ===== *)
theory Dosing_Dashboard
  imports Dosing_Store
begin

text \<open>
  The dashboard as it is deployed beside the collector (\<open>api/main.py\<close>, \<open>collector/db.py\<close>): which database file its
  endpoints open, who creates the tables, and what a request gets before that.
\<close>

section \<open>Database files\<close>

text \<open>
  \<open>files\<close> gives the tables of a file, \<open>None\<close> for a file without them; opening a connection does not create tables.
  SQLite opens a private, empty database for the empty name.
\<close>

record site =
  env_db :: "string option"
  files :: "string \<Rightarrow> dosing_db option"

definition DEFAULT_DB :: string where
  "DEFAULT_DB = ''data/dosing.db''"

definition db_name :: "site \<Rightarrow> string" where
  "db_name s = (case env_db s of Some p \<Rightarrow> p | None \<Rightarrow> DEFAULT_DB)"

definition init_file :: "string \<Rightarrow> site \<Rightarrow> site" where
  "init_file p s = (if p = [] then s else s\<lparr>files := (files s)(p \<mapsto> init_db (files s p))\<rparr>)"

section \<open>The endpoints\<close>

datatype dash_error = NoSuchTable

definition open_db :: "site \<Rightarrow> (dash_error, dosing_db) response" where
  "open_db s = (case (if db_name s = [] then None else files s (db_name s)) of
     None \<Rightarrow> Inl (HTTPException 500 NoSuchTable) | Some db \<Rightarrow> Inr db)"

definition api_status :: "(metric_row list \<Rightarrow> metric_row list) \<Rightarrow> site \<Rightarrow> (dash_error, status_body) response" where
  "api_status order s = map_sum id (status order) (open_db s)"

definition api_events :: "(event_row list \<Rightarrow> event_row list) \<Rightarrow> int \<Rightarrow> site \<Rightarrow> (dash_error, event_row list) response" where
  "api_events order limit s = map_sum id (events order limit) (open_db s)"

definition api_metrics :: "(metric_row list \<Rightarrow> metric_row list) \<Rightarrow> int \<Rightarrow> site \<Rightarrow> (dash_error, metric_row list) response" where
  "api_metrics order last_n s = map_sum id (metrics order last_n) (open_db s)"

definition create_app :: "string \<Rightarrow> site \<Rightarrow> site" where
  "create_app db_path s =
     (let s' = (if db_path \<noteq> [] then s\<lparr>env_db := Some db_path\<rparr> else s)
      in init_file (if db_path \<noteq> [] then db_path else db_name s') s')"

section \<open>Collector and dashboard\<close>

text \<open>A collector process starts on a file, or polls and writes to it; a write to a file without tables fails.\<close>

datatype site_event = Started string | Polled string poll

fun site_step :: "site_event \<Rightarrow> site \<Rightarrow> site" where
  "site_step (Started p) s = init_file p s"
| "site_step (Polled p x) s =
     (case files s p of None \<Rightarrow> s | Some db \<Rightarrow> s\<lparr>files := (files s)(p \<mapsto> collector_poll x db)\<rparr>)"

definition run_site :: "site_event list \<Rightarrow> site \<Rightarrow> site" where
  "run_site es s = fold site_step es s"

text \<open>The polls written to a file: those after the first start on it.\<close>

definition polls_on :: "string \<Rightarrow> site_event list \<Rightarrow> poll list" where
  "polls_on p es =
     List.map_filter (\<lambda>e. case e of Polled q x \<Rightarrow> if q = p then Some x else None | Started q \<Rightarrow> None)
       (dropWhile (\<lambda>e. e \<noteq> Started p) es)"

lemma polls_on_simps [simp]:
  "polls_on p [] = []"
  "polls_on p (Started q # es) = (if q = p then
     List.map_filter (\<lambda>e. case e of Polled q x \<Rightarrow> if q = p then Some x else None | Started q \<Rightarrow> None) es else polls_on p es)"
  "polls_on p (Polled q x # es) = polls_on p es"
  by (simp_all add: polls_on_def map_filter_simps)

lemma env_step [simp]: "env_db (site_step e s) = env_db s" "db_name (site_step e s) = db_name s"
  by (cases e; simp add: init_file_def db_name_def split: option.split)+

lemma env_run [simp]: "env_db (run_site es s) = env_db s" "db_name (run_site es s) = db_name s"
  by (induction es arbitrary: s) (simp_all add: run_site_def)

lemma run_initialised:
  "files s p = Some db \<Longrightarrow> files (run_site es s) p = Some (fold collector_poll
     (List.map_filter (\<lambda>e. case e of Polled q x \<Rightarrow> if q = p then Some x else None | Started q \<Rightarrow> None) es) db)"
proof (induction es arbitrary: s db)
  case (Cons e es)
  show ?case
  proof (cases e)
    case (Started q)
    then have "files (site_step e s) p = Some db" using Cons.prems by (auto simp: init_file_def init_db_def)
    from Cons.IH [OF this] show ?thesis by (simp add: run_site_def Started map_filter_simps)
  next
    case (Polled q x)
    then have "files (site_step e s) p = Some (if q = p then collector_poll x db else db)"
      using Cons.prems by (auto split: option.split)
    from Cons.IH [OF this] show ?thesis by (simp add: run_site_def Polled map_filter_simps)
  qed
qed (simp add: run_site_def map_filter_simps)

lemma run_fresh:
  assumes "files s p = None" and "p \<noteq> []"
  shows "files (run_site es s) p = (if Started p \<in> set es then Some (run_collector None (polls_on p es)) else None)"
  using assms(1)
proof (induction es arbitrary: s)
  case (Cons e es)
  show ?case
  proof (cases "e = Started p")
    case True
    then have "files (site_step e s) p = Some (init_db None)" using Cons.prems assms(2) by (simp add: init_file_def)
    from run_initialised [OF this] show ?thesis by (simp add: run_site_def True run_collector_def)
  next
    case False
    then have "files (site_step e s) p = None" using Cons.prems by (cases e) (auto simp: init_file_def split: option.split)
    from Cons.IH [OF this] False show ?thesis by (cases e) (auto simp: run_site_def)
  qed
qed (simp add: run_site_def)

text \<open>
  The dashboard beside the collector: served as the deployment starts it, without its factory, every
  endpoint fails with a missing table until a collector has started on its file, then shows exactly what the polls since
  then have written, whatever other files are used for. After the factory has run, no
  endpoint fails, unless the configured name is empty.
\<close>

theorem dashboard_follows_collector:
  assumes "files s (db_name s) = None" and "db_name s \<noteq> []"
  shows "api_status order (run_site es s) =
      (if Started (db_name s) \<in> set es then Inr (status order (run_collector None (polls_on (db_name s) es)))
       else Inl (HTTPException 500 NoSuchTable)) \<and>
    api_metrics order n (run_site es s) =
      (if Started (db_name s) \<in> set es then Inr (metrics order n (run_collector None (polls_on (db_name s) es)))
       else Inl (HTTPException 500 NoSuchTable)) \<and>
    api_events order' n (run_site es s) =
      (if Started (db_name s) \<in> set es then Inr (events order' n (run_collector None (polls_on (db_name s) es)))
       else Inl (HTTPException 500 NoSuchTable)) \<and>
    (\<exists>db. open_db (run_site es (create_app path s)) = Inr db)"
proof -
  have "open_db (run_site es s) =
      (if Started (db_name s) \<in> set es then Inr (run_collector None (polls_on (db_name s) es))
       else Inl (HTTPException 500 NoSuchTable))"
    by (simp add: open_db_def run_fresh [OF assms] assms(2))
  moreover have "\<exists>db. open_db (run_site es (create_app path s)) = Inr db"
  proof -
    let ?a = "create_app path s"
    have "db_name ?a \<noteq> []" and f: "files ?a (db_name ?a) \<noteq> None"
      using assms(2) by (auto simp: create_app_def Let_def init_file_def db_name_def)
    then show ?thesis using run_initialised [of ?a "db_name ?a" _ es] by (auto simp: open_db_def)
  qed
  ultimately show ?thesis by (simp add: api_status_def api_metrics_def api_events_def)
qed

theorem dashboard_follows_collector_witness:
  "api_status order (run_site [Polled ''data/dosing.db'' PollError] \<lparr>env_db = None, files = Map.empty\<rparr>) =
     Inl (HTTPException 500 NoSuchTable)"
  using dashboard_follows_collector [of "\<lparr>env_db = None, files = Map.empty\<rparr>" order "[Polled ''data/dosing.db'' PollError]"]
  by (simp add: db_name_def DEFAULT_DB_def)

end
