(* ===== verification/Ev_Client.thy ===== *)
theory Ev_Client
  imports Prelude
begin

text \<open>
  The orchestrator's TCP client of the battery simulator
  (\<open>ev_battery_hil/orchestrator/app/client.py\<close>, frames of \<open>app/models.py\<close>) as a state machine. A
  phase is a place where the connect task waits; an event is what ends the wait. JSON decoding is
  a parameter, the field bounds of the frame are not. Connections are numbered.
\<close>

section \<open>Frames and commands\<close>

record telemetry_frame =
  ts_us :: int
  SoC :: real
  V_terminal :: real
  I_load :: real
  T_cell :: real
  V_RC :: real
  state :: string
  fault_code :: string

definition frame_ok :: "telemetry_frame \<Rightarrow> bool" where
  "frame_ok f \<longleftrightarrow> 0 \<le> SoC f \<and> SoC f \<le> 1 \<and> 0 \<le> V_terminal f \<and> V_terminal f \<le> 42 / 10 \<and>
     -40 \<le> T_cell f \<and> T_cell f \<le> 150"

text \<open>
  \<open>TelemetryFrame.model_validate_json\<close>: the line is decoded, then the bounds are checked.
\<close>

definition validate_frame :: "(string \<Rightarrow> telemetry_frame option) \<Rightarrow> string \<Rightarrow> telemetry_frame option" where
  "validate_frame decode line =
     (case decode line of
        None \<Rightarrow> None
      | Some f \<Rightarrow> if frame_ok f then Some f else None)"

datatype cmd_value = VStr string | VNum real

record message =
  command :: string
  cvalue :: "cmd_value option"

section \<open>The state\<close>

datatype phase = Idle | Connecting | Reading | Sleeping nat | Finished | Crashed

record client =
  running :: bool
  writer :: "nat option"
  last_frame :: "telemetry_frame option"
  delay_idx :: nat
  phase :: phase
  closed :: "nat list"
  sent :: "(nat \<times> message) list"
  delays :: "nat list"

text \<open>
  \<open>closed\<close>, \<open>sent\<close> and \<open>delays\<close> record what the client did to the outside world: the connections
  it closed, the messages it wrote and the pauses it made.
\<close>

definition client_init :: client where
  "client_init = \<lparr>running = False, writer = None, last_frame = None, delay_idx = 0, phase = Idle,
     closed = [], sent = [], delays = []\<rparr>"

definition RECONNECT_DELAYS :: "nat list" where
  "RECONNECT_DELAYS = [1, 2, 4, 8, 16, 30]"

text \<open>The test of \<open>while self._running\<close>, after the \<open>finally\<close> clause has cleared the writer.\<close>

definition loop_head :: "client \<Rightarrow> client" where
  "loop_head c = c\<lparr>writer := None, phase := (if running c then Connecting else Finished)\<rparr>"

datatype event =
    Connected nat | Refused | Broken
  | Line string | ReadError | Wake | Cancelled

text \<open>
  What the connect task does between two waits. \<open>Refused\<close> stands for \<open>ConnectionRefusedError\<close>
  and \<open>OSError\<close>, \<open>Broken\<close> for any other exception of \<open>open_connection\<close>, which ends the task.
  Events that do not belong to the current wait change nothing.
\<close>

definition connect_loop :: "(string \<Rightarrow> telemetry_frame option) \<Rightarrow> client \<Rightarrow> event \<Rightarrow> client" where
  "connect_loop decode c e =
     (case (phase c, e) of
        (Connecting, Connected w) \<Rightarrow>
          (let c' = c\<lparr>writer := Some w, delay_idx := 0\<rparr>
           in if running c then c'\<lparr>phase := Reading\<rparr> else loop_head c')
      | (Connecting, Refused) \<Rightarrow>
          (let delay = RECONNECT_DELAYS ! min (delay_idx c) (length RECONNECT_DELAYS - 1);
               c' = c\<lparr>delay_idx := delay_idx c + 1\<rparr>
           in if running c then c'\<lparr>phase := Sleeping delay, delays := delays c @ [delay]\<rparr>
              else loop_head c')
      | (Connecting, Broken) \<Rightarrow> c\<lparr>writer := None, phase := Crashed\<rparr>
      | (Reading, Line l) \<Rightarrow>
          (if l = [] then loop_head c
           else case validate_frame decode l of
                  None \<Rightarrow> loop_head c
                | Some f \<Rightarrow>
                    (let c' = c\<lparr>last_frame := Some f\<rparr>
                     in if running c then c' else loop_head c'))
      | (Reading, ReadError) \<Rightarrow> loop_head c
      | (Sleeping _, Wake) \<Rightarrow> loop_head c
      | (Connecting, Cancelled) \<Rightarrow> c\<lparr>writer := None, phase := Finished\<rparr>
      | (Reading, Cancelled) \<Rightarrow> c\<lparr>writer := None, phase := Finished\<rparr>
      | (Sleeping _, Cancelled) \<Rightarrow> c\<lparr>writer := None, phase := Finished\<rparr>
      | _ \<Rightarrow> c)"

section \<open>The operations\<close>

definition start :: "client \<Rightarrow> client" where
  "start c = loop_head (c\<lparr>running := True\<rparr>)"

definition close_writer :: "client \<Rightarrow> client" where
  "close_writer c = (case writer c of None \<Rightarrow> c | Some w \<Rightarrow> c\<lparr>closed := closed c @ [w]\<rparr>)"

definition disconnect :: "client \<Rightarrow> client" where
  "disconnect c = close_writer c"

text \<open>
  \<open>stop\<close> waits between closing the writer and cancelling the task; the events of that wait are
  \<open>es\<close>.
\<close>

definition stop :: "(string \<Rightarrow> telemetry_frame option) \<Rightarrow> event list \<Rightarrow> client \<Rightarrow> client" where
  "stop decode es c =
     connect_loop decode (foldl (connect_loop decode) (close_writer (c\<lparr>running := False\<rparr>)) es) Cancelled"

text \<open>
  A command without a connection is dropped with a warning; on a closed connection, or when the
  transport fails (\<open>ok\<close> false), the error is logged and nothing is delivered.
\<close>

definition send_command :: "bool \<Rightarrow> message \<Rightarrow> client \<Rightarrow> client" where
  "send_command ok msg c =
     (case writer c of
        None \<Rightarrow> c
      | Some w \<Rightarrow> if ok \<and> w \<notin> set (closed c) then c\<lparr>sent := sent c @ [(w, msg)]\<rparr> else c)"

section \<open>Reachable states\<close>

inductive client_step :: "(string \<Rightarrow> telemetry_frame option) \<Rightarrow> client \<Rightarrow> client \<Rightarrow> bool" for decode where
  Event: "e \<noteq> Cancelled \<Longrightarrow> client_step decode c (connect_loop decode c e)"
| Start: "phase c = Idle \<Longrightarrow> client_step decode c (start c)"
| Disconnect: "client_step decode c (disconnect c)"
| Send: "client_step decode c (send_command ok msg c)"
| Stop: "client_step decode c (stop decode es c)"

definition client_inv :: "client \<Rightarrow> bool" where
  "client_inv c \<longleftrightarrow>
     (writer c \<noteq> None \<longleftrightarrow> phase c = Reading) \<and>
     (\<forall>f. last_frame c = Some f \<longrightarrow> frame_ok f) \<and>
     (\<forall>d. phase c = Sleeping d \<longrightarrow> d \<in> set RECONNECT_DELAYS \<and> delays c \<noteq> [] \<and> d = last (delays c)) \<and>
     set (delays c) \<subseteq> set RECONNECT_DELAYS"

lemma validate_frame_ok: "validate_frame decode l = Some f \<Longrightarrow> frame_ok f"
  by (auto simp: validate_frame_def split: option.splits if_splits)

lemma delay_in: "RECONNECT_DELAYS ! min i (length RECONNECT_DELAYS - 1) \<in> set RECONNECT_DELAYS"
  by (rule nth_mem) (simp add: RECONNECT_DELAYS_def)

lemma inv_loop_head [intro]: "client_inv c \<Longrightarrow> client_inv (loop_head c)"
  by (auto simp: client_inv_def loop_head_def)

lemma inv_connect_loop: "client_inv c \<Longrightarrow> client_inv (connect_loop decode c e)"
  using delay_in [of "delay_idx c"]
  by (cases "phase c"; cases e)
     (auto simp: connect_loop_def client_inv_def loop_head_def Let_def dest: validate_frame_ok
       split: option.splits)

lemma inv_events: "client_inv c \<Longrightarrow> client_inv (foldl (connect_loop decode) c es)"
  by (induction es arbitrary: c) (auto intro: inv_connect_loop)

lemma inv_close [intro]: "client_inv c \<Longrightarrow> client_inv (close_writer c)"
  by (auto simp: client_inv_def close_writer_def split: option.splits)

lemma inv_step: "client_step decode c c' \<Longrightarrow> client_inv c \<Longrightarrow> client_inv c'"
proof (induction rule: client_step.induct)
  case (Start c)
  then show ?case by (auto simp: client_inv_def start_def loop_head_def)
next
  case (Send c ok msg)
  then show ?case by (auto simp: client_inv_def send_command_def split: option.splits)
next
  case (Stop c es)
  have "client_inv (close_writer (c\<lparr>running := False\<rparr>))"
    using Stop by (intro inv_close) (auto simp: client_inv_def)
  then show ?case by (auto simp: stop_def intro: inv_connect_loop inv_events)
qed (auto simp: disconnect_def intro: inv_connect_loop)

text \<open>
  In every state the client can reach it holds a writer exactly while it is reading from a
  connection, its last frame (if any) is within the physical bounds of the schema, and it has
  paused only for the delays of the reconnect table.
\<close>

theorem client_reachable_inv:
  assumes "(client_step decode)\<^sup>*\<^sup>* client_init c"
  shows "(writer c \<noteq> None \<longleftrightarrow> phase c = Reading) \<and>
    (case last_frame c of None \<Rightarrow> True | Some f \<Rightarrow> frame_ok f) \<and>
    set (delays c) \<subseteq> set RECONNECT_DELAYS"
proof -
  from assms have "client_inv c"
  proof (induction rule: rtranclp_induct)
    case base
    show ?case by (simp add: client_inv_def client_init_def)
  qed (rule inv_step)
  then show ?thesis by (auto simp: client_inv_def split: option.split)
qed

definition sample_frame :: telemetry_frame where
  "sample_frame = \<lparr>ts_us = 1000, SoC = 8 / 10, V_terminal = 384 / 100, I_load = 50, T_cell = 30,
     V_RC = 25 / 1000, state = ''DISCHARGING'', fault_code = ''NONE''\<rparr>"

definition sample_decode :: "string \<Rightarrow> telemetry_frame option" where
  "sample_decode l = (if l = ''frame'' then Some sample_frame else None)"

lemma client_reachable_events:
  "\<forall>e\<in>set es. e \<noteq> Cancelled \<Longrightarrow> (client_step decode)\<^sup>*\<^sup>* c (foldl (connect_loop decode) c es)"
proof (induction es arbitrary: c)
  case (Cons e es)
  then have "client_step decode c (connect_loop decode c e)" by (auto intro: client_step.Event)
  with Cons show ?case by (simp add: converse_rtranclp_into_rtranclp)
qed simp

theorem client_reachable_inv_witness:
  "let c = foldl (connect_loop sample_decode) (start client_init) [Refused, Wake, Connected 7, Line ''frame'']
   in writer c = Some 7 \<and> last_frame c = Some sample_frame \<and> phase c = Reading \<and> frame_ok sample_frame"
proof -
  let ?es = "[Refused, Wake, Connected 7, Line ''frame'']"
  let ?c = "foldl (connect_loop sample_decode) (start client_init) ?es"
  have "client_step sample_decode client_init (start client_init)"
    by (rule client_step.Start) (simp add: client_init_def)
  moreover have "(client_step sample_decode)\<^sup>*\<^sup>* (start client_init) ?c"
    by (rule client_reachable_events) simp
  ultimately have "(client_step sample_decode)\<^sup>*\<^sup>* client_init ?c"
    by (rule converse_rtranclp_into_rtranclp)
  from client_reachable_inv [OF this] show ?thesis
    by (simp add: start_def loop_head_def client_init_def connect_loop_def validate_frame_def
        sample_decode_def frame_ok_def sample_frame_def Let_def)
qed

section \<open>Back-off\<close>

text \<open>Refused connection attempts, each followed by the end of its pause.\<close>

fun refusals :: "nat \<Rightarrow> event list" where
  "refusals 0 = []"
| "refusals (Suc n) = refusals n @ [Refused, Wake]"

lemma refusals_state:
  assumes "running c" and "phase c = Connecting"
  shows "foldl (connect_loop decode) c (refusals n) =
    c\<lparr>writer := if n = 0 then writer c else None, delay_idx := delay_idx c + n,
      delays := delays c @ map (\<lambda>i. RECONNECT_DELAYS ! min i (length RECONNECT_DELAYS - 1))
        [delay_idx c..<delay_idx c + n]\<rparr>"
proof (induction n)
  case (Suc n)
  then show ?case using assms by (simp add: connect_loop_def loop_head_def Let_def)
qed simp

text \<open>
  Reconnection backs off: \<open>n\<close> refused attempts in a row after a connection (or a start) pause for
  1, 2, 4, 8, 16 and then always 30 seconds, and the next connection resets the sequence.
\<close>

theorem client_backoff:
  assumes "running c" and "phase c = Connecting" and "delay_idx c = 0"
  shows "delays (foldl (connect_loop decode) c (refusals n)) =
      delays c @ take n ([1, 2, 4, 8, 16] @ replicate n 30) \<and>
    phase (foldl (connect_loop decode) c (refusals n)) = Connecting \<and>
    connect_loop decode (foldl (connect_loop decode) c (refusals n)) (Connected w) =
      c\<lparr>writer := Some w, delay_idx := 0, phase := Reading,
        delays := delays c @ take n ([1, 2, 4, 8, 16] @ replicate n 30)\<rparr>"
proof -
  have "map (\<lambda>i. RECONNECT_DELAYS ! min i (length RECONNECT_DELAYS - 1)) [0..<n] =
      take n ([1, 2, 4, 8, 16] @ replicate n 30)"
  proof (rule nth_equalityI)
    fix i assume "i < length (map (\<lambda>i. RECONNECT_DELAYS ! min i (length RECONNECT_DELAYS - 1)) [0..<n])"
    then have "i < n" by simp
    then show "map (\<lambda>i. RECONNECT_DELAYS ! min i (length RECONNECT_DELAYS - 1)) [0..<n] ! i =
        take n ([1, 2, 4, 8, 16] @ replicate n 30) ! i"
      by (cases "i < 5") (auto simp: RECONNECT_DELAYS_def nth_append less_Suc_eq numeral_eq_Suc)
  qed simp
  then show ?thesis
    using refusals_state [OF assms(1,2), of decode n] assms
    by (simp add: connect_loop_def Let_def)
qed

theorem client_backoff_witness:
  "delays (foldl (connect_loop sample_decode) (start client_init) (refusals 7)) = [1, 2, 4, 8, 16, 30, 30]"
  using client_backoff [of "start client_init" sample_decode 7 1]
  by (simp add: start_def loop_head_def client_init_def numeral_2_eq_2)

section \<open>Stopping and dropping the connection\<close>

lemma not_idle: "phase c \<noteq> Idle \<Longrightarrow> phase (connect_loop decode c e) \<noteq> Idle"
  by (cases "phase c"; cases e) (auto simp: connect_loop_def loop_head_def Let_def split: option.splits)

lemma not_idle_events: "phase c \<noteq> Idle \<Longrightarrow> phase (foldl (connect_loop decode) c es) \<noteq> Idle"
  by (induction es arbitrary: c) (auto simp: not_idle)

lemma phase_close [simp]: "phase (close_writer c) = phase c"
  by (simp add: close_writer_def split: option.split)

lemma closed_connect_loop [simp]: "closed (connect_loop decode c e) = closed c"
  by (cases "phase c"; cases e) (auto simp: connect_loop_def loop_head_def Let_def split: option.splits)

lemma closed_events [simp]: "closed (foldl (connect_loop decode) c es) = closed c"
  by (induction es arbitrary: c) auto

text \<open>
  \<open>stop\<close> ends the connect task whatever happens while it waits: a started client is then
  finished (or had crashed), holds no writer, has closed the connection it had, and no later event
  changes it.
\<close>

theorem client_stop:
  assumes "client_inv c" and "phase c \<noteq> Idle"
  shows "phase (stop decode es c) \<in> {Finished, Crashed} \<and> writer (stop decode es c) = None \<and>
    connect_loop decode (stop decode es c) e = stop decode es c \<and>
    (case writer c of None \<Rightarrow> True | Some w \<Rightarrow> w \<in> set (closed (stop decode es c)))"
proof -
  let ?c0 = "close_writer (c\<lparr>running := False\<rparr>)"
  let ?c1 = "foldl (connect_loop decode) ?c0 es"
  have "client_inv ?c0" using assms(1) by (intro inv_close) (auto simp: client_inv_def)
  then have inv: "client_inv (stop decode es c)"
    unfolding stop_def by (intro inv_connect_loop inv_events)
  have "phase ?c1 \<noteq> Idle" using assms(2) by (intro not_idle_events) simp
  then have ph: "phase (stop decode es c) \<in> {Finished, Crashed}"
    unfolding stop_def by (cases "phase ?c1") (auto simp: connect_loop_def)
  then have idle: "connect_loop decode (stop decode es c) e = stop decode es c"
    by (auto simp: connect_loop_def)
  have "case writer c of None \<Rightarrow> True | Some w \<Rightarrow> w \<in> set (closed (stop decode es c))"
    by (simp add: stop_def close_writer_def split: option.split)
  with ph idle inv show ?thesis by (auto simp: client_inv_def)
qed

theorem client_stop_witness:
  "phase (stop sample_decode [Line ''''] (connect_loop sample_decode (start client_init) (Connected 3))) = Finished
   \<and> closed (stop sample_decode [Line ''''] (connect_loop sample_decode (start client_init) (Connected 3))) = [3]"
  using client_stop [of "connect_loop sample_decode (start client_init) (Connected 3)" sample_decode
      "[Line '''']" Wake]
  by (simp add: client_inv_def start_def loop_head_def client_init_def connect_loop_def stop_def
      close_writer_def Let_def)

text \<open>
  A dropped connection is not held down: after \<open>disconnect\<close> the reader sees the end of the stream
  and the very next thing the running client does is connect again, without any pause, so that it reads
  telemetry while the fault injector still waits for the end of the dropout.
\<close>

theorem client_dropout_reconnects:
  assumes "running c" and "phase c = Reading" and "writer c = Some w"
  shows "let d = foldl (connect_loop decode) (disconnect c) [Line [], Connected w'] in
    phase d = Reading \<and> writer d = Some w' \<and> delays d = delays c \<and> closed d = closed c @ [w]"
  using assms by (simp add: disconnect_def close_writer_def connect_loop_def loop_head_def Let_def)

theorem client_dropout_reconnects_witness:
  "let c = connect_loop sample_decode (start client_init) (Connected 3);
       d = foldl (connect_loop sample_decode) (disconnect c) [Line [], Connected 4]
   in phase d = Reading \<and> delays d = []"
  using client_dropout_reconnects [of "connect_loop sample_decode (start client_init) (Connected 3)" 3
      sample_decode 4]
  by (simp add: start_def loop_head_def client_init_def connect_loop_def Let_def)

text \<open>A command reaches the simulator exactly when the client holds an open connection.\<close>

lemma send_command_sent:
  "sent (send_command ok msg c) =
     sent c @ (case writer c of Some w \<Rightarrow> if ok \<and> w \<notin> set (closed c) then [(w, msg)] else [] | None \<Rightarrow> [])"
  by (simp add: send_command_def split: option.split)

lemma send_command_keeps [simp]:
  "writer (send_command ok msg c) = writer c" "last_frame (send_command ok msg c) = last_frame c"
  "phase (send_command ok msg c) = phase c" "running (send_command ok msg c) = running c"
  "closed (send_command ok msg c) = closed c"
  by (simp_all add: send_command_def split: option.split)

end
