(* ===== verification/Ev_Sequences.thy ===== *)
theory Ev_Sequences
  imports Ev_Client
begin

text \<open>
  The sequence engine of the orchestrator (\<open>ev_battery_hil/orchestrator/app/sequences.py\<close>): where a
  sequence is loaded from, how a run is started, executed and recorded. The file system is a
  function from absolute paths (without symbolic links) to parsed files; what happens to the
  client while a run sleeps is an argument.
\<close>

section \<open>Paths\<close>

fun split_slash :: "string \<Rightarrow> string list" where
  "split_slash [] = [[]]"
| "split_slash (c # s) =
     (if c = CHR ''/'' then [] # split_slash s
      else case split_slash s of p # ps \<Rightarrow> (c # p) # ps | [] \<Rightarrow> [[c]])"

text \<open>\<open>Path.resolve\<close> of an absolute path given by its components.\<close>

definition resolve_step :: "string list \<Rightarrow> string \<Rightarrow> string list" where
  "resolve_step acc p =
     (if p = [] \<or> p = ''.'' then acc else if p = ''..'' then butlast acc else acc @ [p])"

definition resolve :: "string list \<Rightarrow> string list" where
  "resolve ps = foldl resolve_step [] ps"

definition path_str :: "string list \<Rightarrow> string" where
  "path_str ps = (if ps = [] then ''/'' else concat (map (\<lambda>p. CHR ''/'' # p) ps))"

text \<open>\<open>base / s\<close>: an absolute \<open>s\<close> replaces the base.\<close>

definition join_path :: "string list \<Rightarrow> string \<Rightarrow> string list" where
  "join_path base s = (if s \<noteq> [] \<and> hd s = CHR ''/'' then split_slash s else base @ split_slash s)"

section \<open>Sequence files\<close>

text \<open>An optional field of a YAML mapping: absent, of the expected type, or of another type.\<close>

datatype 'a field = Absent | Val 'a | Bad

record seq_step =
  st_command :: "string option"
  st_value :: "cmd_value option"
  st_duration :: "real field"

record seq_spec =
  sp_repeat :: "int field"
  sp_steps :: "seq_step list option"

datatype yaml = Mapping seq_spec | NotMapping

datatype seq_file = Unparsable | Doc yaml

datatype seq_error = InvalidId | UnknownSequence | AlreadyRunning | YamlError

definition load_sequence :: "string list \<Rightarrow> (string list \<Rightarrow> seq_file option) \<Rightarrow> string \<Rightarrow> seq_error + yaml" where
  "load_sequence dir files seq_id =
     (let path = resolve (join_path dir (lower seq_id @ ''.yaml''))
      in if take (length (path_str (resolve dir))) (path_str path) \<noteq> path_str (resolve dir) then Inl InvalidId
         else case files path of
                None \<Rightarrow> Inl UnknownSequence
              | Some Unparsable \<Rightarrow> Inl YamlError
              | Some (Doc y) \<Rightarrow> Inr y)"

lemma split_slash_ne: "split_slash s \<noteq> []"
  by (induction s) (auto split: list.splits)

lemma split_slash_plain: "CHR ''/'' \<notin> set s \<Longrightarrow> split_slash s = [s]"
  by (induction s) auto

lemma lower_char_slash: "lower_char c = CHR ''/'' \<longleftrightarrow> c = CHR ''/''"
proof
  assume *: "lower_char c = CHR ''/''"
  show "c = CHR ''/''"
  proof (rule ccontr)
    assume "c \<noteq> CHR ''/''"
    with * have n: "65 \<le> (of_char c :: nat) \<and> (of_char c :: nat) \<le> 222"
      and "char_of ((of_char c :: nat) + 32) = CHR ''/''"
      by (auto simp: lower_char_def Let_def split: if_splits)
    then have "(of_char (char_of ((of_char c :: nat) + 32)) :: nat) = 47" by simp
    with n show False by simp
  qed
qed (simp add: lower_char_def)

lemma lower_slash: "CHR ''/'' \<in> set (lower s) \<longleftrightarrow> CHR ''/'' \<in> set s"
  unfolding lower_def list.set_map image_iff by (metis lower_char_slash)

lemma split_slash_dir: "CHR ''/'' \<notin> set s \<Longrightarrow> split_slash (s @ CHR ''/'' # t) = s # split_slash t"
  by (induction s) auto

lemma resolve_append_name:
  assumes "p \<noteq> []" and "p \<noteq> ''.''" and "p \<noteq> ''..''"
  shows "resolve (ps @ [p]) = resolve ps @ [p]"
  using assms by (simp add: resolve_def resolve_step_def)

lemma path_str_append: "ps \<noteq> [] \<Longrightarrow> path_str (ps @ qs) = path_str ps @ concat (map (\<lambda>p. CHR ''/'' # p) qs)"
  by (simp add: path_str_def)

text \<open>
  A sequence id without a slash names exactly the file \<open><id in lower case>.yaml\<close> of the sequence
  directory: the guard lets it through, and nothing else is read.
\<close>

theorem load_sequence_plain:
  assumes "CHR ''/'' \<notin> set seq_id" and "resolve dir \<noteq> []"
  shows "load_sequence dir files seq_id =
    (case files (resolve dir @ [lower seq_id @ ''.yaml'']) of
       None \<Rightarrow> Inl UnknownSequence | Some Unparsable \<Rightarrow> Inl YamlError | Some (Doc y) \<Rightarrow> Inr y)"
proof -
  let ?p = "lower seq_id @ ''.yaml''"
  have ns: "CHR ''/'' \<notin> set ?p" using assms(1) lower_slash [of seq_id] by simp
  then have hd: "hd ?p \<noteq> CHR ''/''" by (metis append_is_Nil_conv hd_in_set list.distinct(1))
  have "length ?p \<ge> 5" by simp
  then have "?p \<noteq> []" "?p \<noteq> ''.''" "?p \<noteq> ''..''" by (auto simp del: length_append)
  then have "resolve (join_path dir ?p) = resolve dir @ [?p]"
    using ns hd split_slash_plain by (simp add: join_path_def resolve_append_name del: append_assoc)
  then show ?thesis
    using assms(2) by (simp add: load_sequence_def path_str_append Let_def)
qed

theorem load_sequence_plain_witness:
  "load_sequence [''app'', ''sequences''] [[''app'', ''sequences'', ''regen.yaml''] \<mapsto> Doc NotMapping] ''REGEN'' =
     Inr NotMapping"
  using load_sequence_plain [of "''REGEN''" "[''app'', ''sequences'']"
      "[[''app'', ''sequences'', ''regen.yaml''] \<mapsto> Doc NotMapping]"]
  by (simp add: resolve_def resolve_step_def lower_def lower_char_def char_of_def bit_0)

text \<open>
  The guard compares strings, not path components: it lets an id with a slash reach any
  directory beside the sequence directory whose name merely begins with the same characters.
\<close>

theorem load_sequence_escapes:
  assumes "resolve dir = up @ [name]" and "dir \<noteq> []"
    and "extra \<noteq> []" and "CHR ''/'' \<notin> set (name @ extra @ seq)" and "lower (name @ extra @ seq) = name @ extra @ seq"
    and "name \<noteq> []" and "name @ extra \<noteq> ''..''" and "name @ extra \<noteq> ''.''"
    and "files (up @ [name @ extra, seq @ ''.yaml'']) = Some (Doc y)"
  shows "load_sequence dir files (''../'' @ name @ extra @ ''/'' @ seq) = Inr y"
proof -
  have "lower name = name" "lower extra = extra" "lower seq = seq"
    using assms(5) by simp_all
  moreover have "lower ''../'' = ''../''" "lower ''/'' = ''/''" by (simp_all add: lower_def lower_char_def)
  ultimately have low: "lower (''../'' @ name @ extra @ ''/'' @ seq) = ''../'' @ name @ extra @ ''/'' @ seq"
    unfolding lower_append by metis
  have "split_slash (''../'' @ name @ extra @ ''/'' @ seq @ ''.yaml'') = [''..'', name @ extra, seq @ ''.yaml'']"
    using assms(4) split_slash_dir [of "''..''" "name @ extra @ ''/'' @ seq @ ''.yaml''"]
      split_slash_dir [of "name @ extra" "seq @ ''.yaml''"] split_slash_plain [of "seq @ ''.yaml''"]
    by simp
  then have "resolve (join_path dir (''../'' @ name @ extra @ ''/'' @ seq @ ''.yaml'')) =
      up @ [name @ extra, seq @ ''.yaml'']"
    using assms(1,6,7,8) by (cases seq) (auto simp: join_path_def resolve_def resolve_step_def)
  then show ?thesis
    using assms(1,9) low by (simp add: load_sequence_def path_str_def Let_def)
qed

theorem load_sequence_escapes_witness:
  "load_sequence [''app'', ''seq''] [[''app'', ''seq_old'', ''x.yaml''] \<mapsto> Doc NotMapping] ''../seq_old/x'' =
     Inr NotMapping"
  using load_sequence_escapes [of "[''app'', ''seq'']" "[''app'']" "''seq''" "''_old''" "''x''"
      "[[''app'', ''seq_old'', ''x.yaml''] \<mapsto> Doc NotMapping]" NotMapping]
  by (simp add: resolve_def resolve_step_def lower_def lower_char_def)

section \<open>Executing a run\<close>

record snapshot =
  sn_run :: nat
  sn_seq :: string
  sn_ts :: int
  sn_soc :: real
  sn_v :: real
  sn_i :: real
  sn_t :: real
  sn_state :: string

record seq_run =
  seq_id :: string
  is_running :: bool
  elapsed_s :: real
  last_telemetry :: "telemetry_frame option"
  passed :: bool
  run_id :: nat

text \<open>
  The surroundings of a run, by step number: whether the transport takes the command, what
  happens to the client during the sleep (it ends with the connect loop's events of that time),
  whether the database takes the snapshot; and the clock when the run begins and ends.
\<close>

record run_env =
  v_send :: "nat \<Rightarrow> bool"
  v_during :: "nat \<Rightarrow> client \<Rightarrow> client"
  v_db :: "nat \<Rightarrow> bool"
  v_ensure :: bool
  v_t0 :: real
  v_t1 :: real

text \<open>
  The state of an execution: the client, the run, the snapshot table, and the calls of
  \<open>send_command\<close> and \<open>sleep\<close> made.
\<close>

record exec =
  x_client :: client
  x_run :: seq_run
  x_rows :: "snapshot list"
  x_calls :: "message list"
  x_slept :: "real list"

definition log_snapshot :: "bool \<Rightarrow> nat \<Rightarrow> string \<Rightarrow> telemetry_frame option \<Rightarrow> snapshot list \<Rightarrow> snapshot list option" where
  "log_snapshot db_ok rid sid frame rows =
     (case frame of
        None \<Rightarrow> Some rows
      | Some f \<Rightarrow>
          if db_ok
          then Some (rows @ [\<lparr>sn_run = rid, sn_seq = sid, sn_ts = ts_us f, sn_soc = SoC f, sn_v = V_terminal f,
                             sn_i = I_load f, sn_t = T_cell f, sn_state = state f\<rparr>])
          else None)"

definition exec_send :: "run_env \<Rightarrow> nat \<Rightarrow> message \<Rightarrow> exec \<Rightarrow> exec" where
  "exec_send env n m x = x\<lparr>x_client := send_command (v_send env n) m (x_client x), x_calls := x_calls x @ [m]\<rparr>"

text \<open>
  One step of the sequence; the boolean is false when an exception was raised: a missing command,
  a duration that is not a number, a failing database.
\<close>

definition exec_step :: "run_env \<Rightarrow> nat \<Rightarrow> seq_step \<Rightarrow> exec \<Rightarrow> bool \<times> exec" where
  "exec_step env n st x =
     (case st_command st of
        None \<Rightarrow> (False, x)
      | Some cmd \<Rightarrow>
          (let x1 = exec_send env n \<lparr>command = cmd, cvalue = st_value st\<rparr> x
           in case (case st_duration st of Absent \<Rightarrow> Some 0 | Val d \<Rightarrow> Some d | Bad \<Rightarrow> None) of
                None \<Rightarrow> (False, x1)
              | Some d \<Rightarrow>
                  (let x2 = x1\<lparr>x_client := v_during env n (x_client x1), x_slept := x_slept x1 @ [d]\<rparr>;
                       x3 = x2\<lparr>x_run := (x_run x2)\<lparr>last_telemetry := last_frame (x_client x2)\<rparr>\<rparr>
                   in case log_snapshot (v_db env n) (run_id (x_run x3)) (seq_id (x_run x3))
                             (last_telemetry (x_run x3)) (x_rows x3) of
                        None \<Rightarrow> (False, x3)
                      | Some rows \<Rightarrow> (True, x3\<lparr>x_rows := rows\<rparr>))))"

fun exec_steps :: "run_env \<Rightarrow> nat \<Rightarrow> seq_step list \<Rightarrow> exec \<Rightarrow> bool \<times> exec" where
  "exec_steps env n [] x = (True, x)"
| "exec_steps env n (st # sts) x =
     (let (ok, x') = exec_step env n st x in if ok then exec_steps env (n + 1) sts x' else (False, x'))"

text \<open>\<open>for _ in range(repeat): for step in spec["steps"]\<close>\<close>

fun exec_rounds :: "run_env \<Rightarrow> nat \<Rightarrow> nat \<Rightarrow> seq_step list option \<Rightarrow> exec \<Rightarrow> bool \<times> exec" where
  "exec_rounds env n 0 steps x = (True, x)"
| "exec_rounds env n (Suc r) steps x =
     (case steps of
        None \<Rightarrow> (False, x)
      | Some sts \<Rightarrow>
          (let (ok, x') = exec_steps env n sts x
           in if ok then exec_rounds env (n + length sts) r steps x' else (False, x')))"

definition exec_body :: "run_env \<Rightarrow> seq_spec \<Rightarrow> exec \<Rightarrow> bool \<times> exec" where
  "exec_body env sp x =
     (if \<not> v_ensure env then (False, x)
      else case (case sp_repeat sp of Absent \<Rightarrow> Some 1 | Val r \<Rightarrow> Some r | Bad \<Rightarrow> None) of
             None \<Rightarrow> (False, x)
           | Some r \<Rightarrow> exec_rounds env 0 (nat r) (sp_steps sp) x)"

definition zero_current :: message where
  "zero_current = \<lparr>command = ''SET_CURRENT'', cvalue = Some (VNum 0)\<rparr>"

text \<open>The \<open>finally\<close> clause: the run is over, and \<open>SET_CURRENT 0\<close> is the last call.\<close>

definition exec_finally :: "run_env \<Rightarrow> exec \<Rightarrow> exec" where
  "exec_finally env x =
     (let run = (x_run x)\<lparr>elapsed_s := v_t1 env - v_t0 env, is_running := False\<rparr>
      in exec_send env (length (x_calls x)) zero_current (x\<lparr>x_run := run\<rparr>))"

text \<open>
  The task of a run. \<open>spec.get\<close> stands before the \<open>try\<close>: a document that is not a mapping ends
  the task with the run untouched. Otherwise the \<open>finally\<close> clause always runs.
\<close>

definition exec_run :: "run_env \<Rightarrow> yaml \<Rightarrow> exec \<Rightarrow> exec" where
  "exec_run env spec x =
     (case spec of
        NotMapping \<Rightarrow> x
      | Mapping sp \<Rightarrow>
          (let (ok, x1) = exec_body env sp x
           in exec_finally env (if ok then x1\<lparr>x_run := (x_run x1)\<lparr>passed := True\<rparr>\<rparr> else x1)))"

section \<open>The engine\<close>

record engine =
  e_runs :: "string \<rightharpoonup> seq_run"
  e_client :: client
  e_rows :: "snapshot list"
  e_next :: nat

definition start_sequence ::
  "string list \<Rightarrow> (string list \<Rightarrow> seq_file option) \<Rightarrow> string \<Rightarrow> engine \<Rightarrow> seq_error + (engine \<times> yaml)" where
  "start_sequence dir files sid eng =
     (if (case e_runs eng sid of None \<Rightarrow> False | Some r \<Rightarrow> is_running r) then Inl AlreadyRunning
      else case load_sequence dir files sid of
             Inl e \<Rightarrow> Inl e
           | Inr spec \<Rightarrow>
               (let run = \<lparr>seq_id = sid, is_running = True, elapsed_s = 0, last_telemetry = None,
                          passed = False, run_id = e_next eng\<rparr>
                in Inr (eng\<lparr>e_runs := (e_runs eng)(sid \<mapsto> run), e_next := e_next eng + 1\<rparr>, spec)))"

text \<open>The task of a started sequence, run to its end.\<close>

definition finish_sequence :: "run_env \<Rightarrow> string \<Rightarrow> yaml \<Rightarrow> engine \<Rightarrow> engine" where
  "finish_sequence env sid spec eng =
     (case e_runs eng sid of
        None \<Rightarrow> eng
      | Some run \<Rightarrow>
          (let x = exec_run env spec \<lparr>x_client = e_client eng, x_run = run, x_rows = e_rows eng,
                                    x_calls = [], x_slept = []\<rparr>
           in eng\<lparr>e_runs := (e_runs eng)(sid \<mapsto> x_run x), e_client := x_client x, e_rows := x_rows x\<rparr>))"

definition status :: "engine \<Rightarrow> string \<Rightarrow> seq_run option" where
  "status eng sid = e_runs eng sid"

section \<open>Every run ends safely\<close>

definition run_kept :: "exec \<Rightarrow> exec \<Rightarrow> bool" where
  "run_kept x x' \<longleftrightarrow>
     seq_id (x_run x') = seq_id (x_run x) \<and> run_id (x_run x') = run_id (x_run x) \<and>
     passed (x_run x') = passed (x_run x) \<and>
     (\<exists>rs. x_rows x' = x_rows x @ rs \<and>
        (\<forall>r\<in>set rs. sn_run r = run_id (x_run x) \<and> sn_seq r = seq_id (x_run x)))"

lemma run_kept_refl [simp]: "run_kept x x"
  by (simp add: run_kept_def)

lemma run_kept_trans: "run_kept x y \<Longrightarrow> run_kept y z \<Longrightarrow> run_kept x z"
  unfolding run_kept_def by (elim conjE exE) auto

lemma exec_step_keeps:
  assumes "exec_step env n st x = (ok, x')"
  shows "run_kept x x'"
  using assms
  by (auto simp: run_kept_def exec_step_def exec_send_def log_snapshot_def Let_def
      split: option.splits if_splits field.splits)

lemma exec_steps_keeps:
  assumes "exec_steps env n sts x = (ok, x')"
  shows "run_kept x x'"
  using assms
proof (induction sts arbitrary: n x)
  case (Cons st sts)
  obtain ok1 x1 where st: "exec_step env n st x = (ok1, x1)" by (cases "exec_step env n st x")
  show ?case
  proof (cases ok1)
    case True
    with Cons.IH [of "n + 1" x1] Cons.prems exec_step_keeps [OF st] st run_kept_trans
    show ?thesis by auto
  next
    case False
    with Cons.prems st exec_step_keeps [OF st] show ?thesis by simp
  qed
qed simp

lemma exec_rounds_keeps:
  assumes "exec_rounds env n r steps x = (ok, x')"
  shows "run_kept x x'"
  using assms
proof (induction r arbitrary: n x)
  case (Suc r)
  show ?case
  proof (cases steps)
    case None
    with Suc.prems show ?thesis by simp
  next
    case (Some sts)
    obtain ok1 x1 where st: "exec_steps env n sts x = (ok1, x1)" by (cases "exec_steps env n sts x")
    show ?thesis
    proof (cases ok1)
      case True
      with Suc.IH [of "n + length sts" x1] Suc.prems exec_steps_keeps [OF st] st Some run_kept_trans
      show ?thesis by auto
    next
      case False
      with Suc.prems st Some exec_steps_keeps [OF st] show ?thesis by simp
    qed
  qed
qed simp

lemma exec_body_keeps:
  assumes "exec_body env sp x = (ok, x')"
  shows "run_kept x x'"
proof (cases "v_ensure env \<and> sp_repeat sp \<noteq> Bad")
  case True
  then have "\<exists>r. exec_rounds env 0 r (sp_steps sp) x = (ok, x')"
    using assms by (cases "sp_repeat sp") (auto simp: exec_body_def simp del: exec_rounds.simps)
  then show ?thesis using exec_rounds_keeps by blast
qed (use assms in \<open>auto simp: exec_body_def split: if_splits\<close>)

lemma last_sent_command:
  "writer c = Some w \<Longrightarrow> ok \<Longrightarrow> w \<notin> set (closed c) \<Longrightarrow> last (sent (send_command ok m c)) = (w, m)"
  by (simp add: send_command_def)


definition idle_env :: run_env where
  "idle_env = \<lparr>v_send = (\<lambda>_. True), v_during = (\<lambda>_ c. c), v_db = (\<lambda>_. True), v_ensure = True,
     v_t0 = 0, v_t1 = 2\<rparr>"

definition sample_exec :: exec where
  "sample_exec = \<lparr>x_client = connect_loop sample_decode (start client_init) (Connected 3),
     x_run = \<lparr>seq_id = ''s'', is_running = True, elapsed_s = 0, last_telemetry = None, passed = False, run_id = 1\<rparr>,
     x_rows = [], x_calls = [], x_slept = []\<rparr>"

definition sample_step :: seq_step where
  "sample_step = \<lparr>st_command = Some ''SET_CURRENT'', st_value = Some (VNum 200), st_duration = Val 5\<rparr>"


section \<open>What a run sends\<close>

definition step_ok :: "seq_step \<Rightarrow> bool" where
  "step_ok st \<longleftrightarrow> st_command st \<noteq> None \<and> st_duration st \<noteq> Bad"

definition msg_of :: "seq_step \<Rightarrow> message" where
  "msg_of st = \<lparr>command = the (st_command st), cvalue = st_value st\<rparr>"

definition duration_of :: "seq_step \<Rightarrow> real" where
  "duration_of st = (case st_duration st of Val d \<Rightarrow> d | _ \<Rightarrow> 0)"

lemma exec_step_ok:
  assumes "step_ok st" and "v_db env n"
  shows "\<exists>x'. exec_step env n st x = (True, x') \<and> x_calls x' = x_calls x @ [msg_of st] \<and>
    x_slept x' = x_slept x @ [duration_of st]"
  using assms
  by (auto simp: exec_step_def exec_send_def log_snapshot_def step_ok_def msg_of_def duration_of_def Let_def
      split: option.split field.split)

lemma exec_steps_ok:
  assumes "list_all step_ok sts" and "\<forall>n. v_db env n"
  shows "\<exists>x'. exec_steps env n sts x = (True, x') \<and> x_calls x' = x_calls x @ map msg_of sts \<and>
    x_slept x' = x_slept x @ map duration_of sts"
  using assms(1)
proof (induction sts arbitrary: n x)
  case (Cons st sts)
  then obtain x1 where "exec_step env n st x = (True, x1)" "x_calls x1 = x_calls x @ [msg_of st]"
    "x_slept x1 = x_slept x @ [duration_of st]"
    using exec_step_ok assms(2) by fastforce
  with Cons.IH [of "n + 1" x1] Cons.prems show ?case by auto
qed simp

lemma exec_rounds_ok:
  assumes "list_all step_ok sts" and "\<forall>n. v_db env n"
  shows "\<exists>x'. exec_rounds env n r (Some sts) x = (True, x') \<and>
    x_calls x' = x_calls x @ concat (replicate r (map msg_of sts)) \<and>
    x_slept x' = x_slept x @ concat (replicate r (map duration_of sts))"
proof (induction r arbitrary: n x)
  case (Suc r)
  obtain x1 where "exec_steps env n sts x = (True, x1)" "x_calls x1 = x_calls x @ map msg_of sts"
    "x_slept x1 = x_slept x @ map duration_of sts"
    using exec_steps_ok [OF assms] by blast
  with Suc.IH [of "n + length sts" x1] show ?case by auto
qed simp

text \<open>
  A well-formed sequence on a working database passes, sends its commands in order, \<open>repeat\<close>
  times over, then \<open>SET_CURRENT 0\<close>, and sleeps the prescribed durations in between.
\<close>

theorem exec_run_sends:
  assumes "sp_steps sp = Some sts" and "list_all step_ok sts" and "sp_repeat sp \<noteq> Bad"
    and "\<forall>n. v_db env n" and "v_ensure env"
  defines "r \<equiv> (case sp_repeat sp of Val r \<Rightarrow> nat r | _ \<Rightarrow> 1)"
  shows "x_calls (exec_run env (Mapping sp) x) =
      x_calls x @ concat (replicate r (map msg_of sts)) @ [zero_current] \<and>
    x_slept (exec_run env (Mapping sp) x) = x_slept x @ concat (replicate r (map duration_of sts)) \<and>
    passed (x_run (exec_run env (Mapping sp) x))"
proof -
  obtain x1 where x1: "exec_rounds env 0 r (Some sts) x = (True, x1)"
    "x_calls x1 = x_calls x @ concat (replicate r (map msg_of sts))"
    "x_slept x1 = x_slept x @ concat (replicate r (map duration_of sts))"
    using exec_rounds_ok [OF assms(2,4)] by blast
  have "exec_body env sp x = (True, x1)"
    using assms(1,3,5) x1(1) by (cases "sp_repeat sp") (auto simp: exec_body_def r_def)
  then show ?thesis using x1 by (simp add: exec_run_def exec_finally_def exec_send_def Let_def)
qed

theorem exec_run_sends_witness:
  "x_calls (exec_run idle_env (Mapping \<lparr>sp_repeat = Val 2, sp_steps = Some [sample_step]\<rparr>) sample_exec) =
     [msg_of sample_step, msg_of sample_step, zero_current]"
  using exec_run_sends [of "\<lparr>sp_repeat = Val 2, sp_steps = Some [sample_step]\<rparr>" "[sample_step]" idle_env sample_exec]
  by (simp add: sample_exec_def idle_env_def sample_step_def step_ok_def numeral_2_eq_2)

section \<open>Starting\<close>

text \<open>
  Starting a sequence: refused without any change while it is running or when it cannot be
  loaded; otherwise a new run with a fresh run id takes the place of the previous one, the runs of
  other sequences are untouched, and once its task has ended the sequence can be started again,
  unless its document is not a mapping: then the run stays marked as running for ever and every
  later start is refused.
\<close>

theorem start_sequence_spec:
  assumes "start_sequence dir files sid eng = Inr (eng', spec)"
  shows "\<not> (\<exists>r. e_runs eng sid = Some r \<and> is_running r) \<and>
    load_sequence dir files sid = Inr spec \<and>
    status eng' sid = Some \<lparr>seq_id = sid, is_running = True, elapsed_s = 0, last_telemetry = None,
                           passed = False, run_id = e_next eng\<rparr> \<and>
    (\<forall>other. other \<noteq> sid \<longrightarrow> status eng' other = status eng other) \<and>
    (start_sequence dir files' sid (finish_sequence env sid spec eng') = Inl AlreadyRunning \<longleftrightarrow> spec = NotMapping)"
proof -
  let ?run = "\<lparr>seq_id = sid, is_running = True, elapsed_s = 0, last_telemetry = None,
              passed = False, run_id = e_next eng\<rparr>"
  from assms have eng': "eng' = eng\<lparr>e_runs := (e_runs eng)(sid \<mapsto> ?run), e_next := e_next eng + 1\<rparr>"
    and load: "load_sequence dir files sid = Inr spec"
    and idle: "\<not> (\<exists>r. e_runs eng sid = Some r \<and> is_running r)"
    by (auto simp: start_sequence_def Let_def split: option.splits sum.splits if_splits)
  have no_ar: "load_sequence dir files' sid \<noteq> Inl AlreadyRunning"
    by (auto simp: load_sequence_def Let_def split: option.split seq_file.split)
  have "start_sequence dir files' sid (finish_sequence env sid spec eng') = Inl AlreadyRunning \<longleftrightarrow> spec = NotMapping"
  proof (cases spec)
    case (Mapping sp)
    let ?x = "\<lparr>x_client = e_client eng', x_run = ?run, x_rows = e_rows eng', x_calls = [], x_slept = []\<rparr>"
    have "\<not> is_running (x_run (exec_run env (Mapping sp) ?x))"
      by (simp add: exec_run_def exec_finally_def exec_send_def Let_def split: prod.split)
    then have "start_sequence dir files' sid (finish_sequence env sid spec eng') \<noteq> Inl AlreadyRunning"
      using no_ar by (auto simp: finish_sequence_def start_sequence_def eng' Mapping Let_def split: sum.split)
    with Mapping show ?thesis by simp
  next
    case NotMapping
    then show ?thesis by (simp add: finish_sequence_def start_sequence_def eng' exec_run_def exec_finally_def Let_def)
  qed
  with eng' load idle show ?thesis by (simp add: status_def)
qed

theorem start_sequence_spec_witness:
  "let eng = \<lparr>e_runs = Map.empty, e_client = client_init, e_rows = [], e_next = 1\<rparr>;
       files = [[''app'', ''seq'', ''x.yaml''] \<mapsto> Doc NotMapping]
   in \<exists>eng'. start_sequence [''app'', ''seq''] files ''X'' eng = Inr (eng', NotMapping) \<and>
        start_sequence [''app'', ''seq''] files ''X'' (finish_sequence idle_env ''X'' NotMapping eng') = Inl AlreadyRunning"
proof -
  let ?eng = "\<lparr>e_runs = Map.empty, e_client = client_init, e_rows = [], e_next = 1\<rparr>"
  let ?files = "[[''app'', ''seq'', ''x.yaml''] \<mapsto> Doc NotMapping]"
  have "resolve [''app'', ''seq''] = [''app'', ''seq'']" "resolve (join_path [''app'', ''seq''] ''x.yaml'') = [''app'', ''seq'', ''x.yaml'']"
    "lower ''X'' = ''x''"
    by (simp_all add: resolve_def resolve_step_def join_path_def lower_def lower_char_def char_of_def bit_0)
  then have "load_sequence [''app'', ''seq''] ?files ''X'' = Inr NotMapping"
    by (simp add: load_sequence_def path_str_def Let_def)
  then obtain eng' where "start_sequence [''app'', ''seq''] ?files ''X'' ?eng = Inr (eng', NotMapping)"
    by (simp add: start_sequence_def Let_def)
  from start_sequence_spec [OF this] this show ?thesis by auto
qed

end
