(* ===== verification/Grid_Readings.thy ===== *)
theory Grid_Readings
  imports Prelude
begin

text \<open>
  Readings of the grid load service: the request schema
  (\<open>grid_load_forecasting/app/models/reading.py\<close>). Times are microseconds of a UTC clock.
\<close>

section \<open>The request schema\<close>

datatype meter = Residential | Industrial | Commercial

text \<open>
  \<open>raw_meter\<close> is \<open>None\<close> when the field is absent and \<open>Some None\<close> when it is null.
\<close>

record raw_reading =
  raw_node :: string
  raw_ts :: pytime
  raw_kwh :: real
  raw_meter :: "string option option"

record load_reading =
  r_node :: string
  r_ts :: int
  r_kwh :: real
  r_meter :: "meter option"

datatype schema_error =
    StringTooShort | StringTooLong | StringPatternMismatch
  | FutureTimestamp | NotGreaterThan | NotLessThanEqual | LiteralError
  | KwhExceedsCap real real | ListTooLong

definition is_space :: "char \<Rightarrow> bool" where
  "is_space c \<longleftrightarrow> (let n = (of_char c :: nat) in 9 \<le> n \<and> n \<le> 13 \<or> n = 32 \<or> n = 133 \<or> n = 160)"

definition strip_ws :: "string \<Rightarrow> string" where
  "strip_ws s = rev (dropWhile is_space (rev (dropWhile is_space s)))"

text \<open>The pattern \<open>^[A-Z0-9_-]+$\<close>.\<close>

definition node_char :: "char \<Rightarrow> bool" where
  "node_char c \<longleftrightarrow> (let n = (of_char c :: nat)
     in 65 \<le> n \<and> n \<le> 90 \<or> 48 \<le> n \<and> n \<le> 57 \<or> c = CHR ''_'' \<or> c = CHR ''-'')"

definition check_node :: "string \<Rightarrow> schema_error + string" where
  "check_node s =
     (let t = strip_ws s
      in if length t < 3 then Inl StringTooShort
         else if 32 < length t then Inl StringTooLong
         else if t \<noteq> [] \<and> list_all node_char t then Inr t
         else Inl StringPatternMismatch)"

definition no_future_timestamp :: "int \<Rightarrow> pytime \<Rightarrow> schema_error + int" where
  "no_future_timestamp now v =
     (let ts = (case v of Aware t \<Rightarrow> t | Naive t \<Rightarrow> t)
      in if 60 * 1000000 < ts - now then Inl FutureTimestamp else Inr ts)"

definition check_kwh :: "real \<Rightarrow> schema_error + real" where
  "check_kwh x = (if \<not> 0 < x then Inl NotGreaterThan
     else if \<not> x \<le> 10000 then Inl NotLessThanEqual else Inr x)"

definition check_meter :: "string option option \<Rightarrow> schema_error + meter option" where
  "check_meter m =
     (case m of
        None \<Rightarrow> Inr (Some Residential)
      | Some None \<Rightarrow> Inr None
      | Some (Some s) \<Rightarrow>
          if s = ''residential'' then Inr (Some Residential)
          else if s = ''industrial'' then Inr (Some Industrial)
          else if s = ''commercial'' then Inr (Some Commercial)
          else Inl LiteralError)"

fun caps :: "meter \<Rightarrow> real" where
  "caps Residential = 50"
| "caps Commercial = 500"
| "caps Industrial = 10000"

definition meter_or_default :: "meter option \<Rightarrow> meter" where
  "meter_or_default m = (case m of Some x \<Rightarrow> x | None \<Rightarrow> Residential)"

definition validate_kwh_for_meter_type :: "load_reading \<Rightarrow> schema_error list + load_reading" where
  "validate_kwh_for_meter_type r =
     (let cap = caps (meter_or_default (r_meter r))
      in if cap < r_kwh r then Inl [KwhExceedsCap (r_kwh r) cap] else Inr r)"

definition errors_of :: "'e + 'a \<Rightarrow> 'e list" where
  "errors_of x = (case x of Inl e \<Rightarrow> [e] | Inr _ \<Rightarrow> [])"

text \<open>
  Validation of a request body: all field errors are reported together, and the model validator
  runs only when every field is valid.
\<close>

definition validate_reading :: "int \<Rightarrow> raw_reading \<Rightarrow> schema_error list + load_reading" where
  "validate_reading now raw =
     (case (check_node (raw_node raw), no_future_timestamp now (raw_ts raw),
            check_kwh (raw_kwh raw), check_meter (raw_meter raw)) of
        (Inr node, Inr ts, Inr kwh, Inr m) \<Rightarrow>
          validate_kwh_for_meter_type \<lparr>r_node = node, r_ts = ts, r_kwh = kwh, r_meter = m\<rparr>
      | (n, t, k, m) \<Rightarrow> Inl (errors_of n @ errors_of t @ errors_of k @ errors_of m))"

definition max_batch :: nat where
  "max_batch = 1000"

definition validate_batch :: "int \<Rightarrow> raw_reading list \<Rightarrow> schema_error list + load_reading list" where
  "validate_batch now raws =
     (if max_batch < length raws then Inl [ListTooLong]
      else let rs = map (validate_reading now) raws
           in if list_all (\<lambda>r. \<not> isl r) rs then Inr (map projr rs)
              else Inl (concat (map (\<lambda>r. case r of Inl es \<Rightarrow> es | Inr _ \<Rightarrow> []) rs)))"

definition reading_ok :: "int \<Rightarrow> load_reading \<Rightarrow> bool" where
  "reading_ok now r \<longleftrightarrow>
     3 \<le> length (r_node r) \<and> length (r_node r) \<le> 32 \<and> list_all node_char (r_node r) \<and>
     r_ts r \<le> now + 60 * 1000000 \<and>
     0 < r_kwh r \<and> r_kwh r \<le> caps (meter_or_default (r_meter r))"

lemma caps_le: "caps m \<le> 10000"
  by (cases m) auto

lemma check_node_Inr: "check_node s = Inr t \<longleftrightarrow>
    t = strip_ws s \<and> 3 \<le> length t \<and> length t \<le> 32 \<and> list_all node_char t"
  by (auto simp: check_node_def Let_def)

lemma no_future_timestamp_Inr: "no_future_timestamp now v = Inr t \<longleftrightarrow>
    t = (case v of Aware t \<Rightarrow> t | Naive t \<Rightarrow> t) \<and> t \<le> now + 60 * 1000000"
  by (auto simp: no_future_timestamp_def Let_def split: pytime.splits)

lemma check_kwh_Inr: "check_kwh x = Inr y \<longleftrightarrow> y = x \<and> 0 < x \<and> x \<le> 10000"
  by (auto simp: check_kwh_def)

lemma validate_kwh_Inr: "validate_kwh_for_meter_type r = Inr q \<longleftrightarrow>
    q = r \<and> r_kwh r \<le> caps (meter_or_default (r_meter r))"
  by (auto simp: validate_kwh_for_meter_type_def Let_def)

lemmas field_Inr = check_node_Inr no_future_timestamp_Inr check_kwh_Inr validate_kwh_Inr

lemma validate_reading_Inr:
  "validate_reading now raw = Inr r \<longleftrightarrow>
     (\<exists>node ts kwh m. check_node (raw_node raw) = Inr node \<and>
        no_future_timestamp now (raw_ts raw) = Inr ts \<and> check_kwh (raw_kwh raw) = Inr kwh \<and>
        check_meter (raw_meter raw) = Inr m \<and>
        validate_kwh_for_meter_type \<lparr>r_node = node, r_ts = ts, r_kwh = kwh, r_meter = m\<rparr> = Inr r)"
  unfolding validate_reading_def
  by (cases "check_node (raw_node raw)"; cases "no_future_timestamp now (raw_ts raw)";
      cases "check_kwh (raw_kwh raw)"; cases "check_meter (raw_meter raw)") simp_all

text \<open>
  The schema, on every branch: a body is accepted exactly when its meter type is known or
  absent and the reading it stands for (node id stripped of white space, a naive time read as UTC)
  has a node id of 3 to 32 permitted characters, a time at most a minute ahead, and a load above
  zero and within the cap of its meter type; and what is returned is that reading.
\<close>

theorem validate_reading_iff:
  "validate_reading now raw = Inr r \<longleftrightarrow>
     (\<exists>m. check_meter (raw_meter raw) = Inr m \<and>
        r = \<lparr>r_node = strip_ws (raw_node raw),
             r_ts = (case raw_ts raw of Aware t \<Rightarrow> t | Naive t \<Rightarrow> t),
             r_kwh = raw_kwh raw, r_meter = m\<rparr>) \<and> reading_ok now r"
proof
  assume "validate_reading now raw = Inr r"
  then show "(\<exists>m. check_meter (raw_meter raw) = Inr m \<and>
        r = \<lparr>r_node = strip_ws (raw_node raw),
             r_ts = (case raw_ts raw of Aware t \<Rightarrow> t | Naive t \<Rightarrow> t),
             r_kwh = raw_kwh raw, r_meter = m\<rparr>) \<and> reading_ok now r"
    unfolding validate_reading_Inr field_Inr reading_ok_def by (elim exE conjE) simp
next
  assume "(\<exists>m. check_meter (raw_meter raw) = Inr m \<and>
        r = \<lparr>r_node = strip_ws (raw_node raw),
             r_ts = (case raw_ts raw of Aware t \<Rightarrow> t | Naive t \<Rightarrow> t),
             r_kwh = raw_kwh raw, r_meter = m\<rparr>) \<and> reading_ok now r"
  then obtain m where m: "check_meter (raw_meter raw) = Inr m"
    and r: "r = \<lparr>r_node = strip_ws (raw_node raw),
             r_ts = (case raw_ts raw of Aware t \<Rightarrow> t | Naive t \<Rightarrow> t),
             r_kwh = raw_kwh raw, r_meter = m\<rparr>" and ok: "reading_ok now r" by blast
  from ok caps_le [of "meter_or_default m"] have "raw_kwh raw \<le> 10000"
    by (simp add: reading_ok_def r)
  with m ok show "validate_reading now raw = Inr r"
    unfolding validate_reading_Inr field_Inr reading_ok_def r by simp
qed

text \<open>
  A batch is accepted exactly when it has at most a thousand readings, each of them accepted.
\<close>

lemma all_Inr_iff: "list_all (\<lambda>r. \<not> isl r) xs \<and> map projr xs = rs \<longleftrightarrow> xs = map Inr rs"
proof (induction xs arbitrary: rs)
  case (Cons x xs)
  show ?case
  proof (cases rs)
    case (Cons r rs')
    with Cons.IH [of rs'] show ?thesis by (cases x) auto
  qed auto
qed auto

lemma validate_batch_iff:
  "validate_batch now raws = Inr rs \<longleftrightarrow>
     length raws \<le> max_batch \<and> map (validate_reading now) raws = map Inr rs"
  unfolding validate_batch_def Let_def by (simp add: all_Inr_iff [symmetric] not_less)

lemma validate_reading_ok: "validate_reading now raw = Inr r \<Longrightarrow> reading_ok now r"
  unfolding validate_reading_Inr field_Inr reading_ok_def
  by (elim exE conjE; intro conjI) simp_all

lemma validate_batch_ok:
  "validate_batch now raws = Inr rs \<Longrightarrow> \<forall>r\<in>set rs. reading_ok now r"
  unfolding validate_batch_iff
  by (metis imageE image_eqI list.set_map validate_reading_ok)

end
