(* ===== verification/Http_Routes.thy ===== *)
theory Http_Routes
  imports Ev_Sequences Grid_Readings
begin

text \<open>
  The applications of the seven services as the routes they register, in their order: \<open>api/main.py\<close>,
  \<open>app/main.py\<close> of each service and the routers it includes. A path template is matched by Starlette: the matching is a
  parameter \<open>matcher\<close>, and \<open>documented\<close> says what its documentation promises. The pages FastAPI adds by itself
  (\<open>/docs\<close>, \<open>/openapi.json\<close>) are left out.
\<close>

section \<open>Applications\<close>

datatype http_method = GET | POST | PATCH

text \<open>A route: method, path template, endpoint. A mounted application takes every path under its prefix.\<close>

datatype http_route = Route http_method string string | Mount string string

definition router :: "string \<Rightarrow> http_route list \<Rightarrow> http_route list" where
  "router prefix rs = map (\<lambda>r. case r of Route m t h \<Rightarrow> Route m (prefix @ t) h | Mount t h \<Rightarrow> Mount (prefix @ t) h) rs"

subsection \<open>Dosing dashboard\<close>

text \<open>The static files are mounted last, and only if their directory exists.\<close>

definition dosing_app :: "bool \<Rightarrow> http_route list" where
  "dosing_app static_exists =
     [Route GET ''/health'' ''health'', Route GET ''/api/status'' ''status'', Route GET ''/api/events'' ''events'',
      Route GET ''/api/metrics'' ''metrics''] @ (if static_exists then [Mount [] ''static''] else [])"

subsection \<open>Grid load forecasting\<close>

definition grid_router :: "http_route list" where
  "grid_router = router ''/api/v1''
     [Route GET ''/health'' ''health'', Route POST ''/readings'' ''ingest_reading'',
      Route POST ''/readings/batch'' ''ingest_batch'', Route GET ''/readings/{node_id}'' ''get_readings'',
      Route GET ''/nodes'' ''list_nodes'', Route GET ''/forecast/{node_id}'' ''get_forecast'']"

definition grid_app :: "http_route list" where
  "grid_app = grid_router @ [Mount ''/api/v1/metrics'' ''metrics_app'']"

subsection \<open>HIL orchestrator\<close>

definition hil_app :: "http_route list" where
  "hil_app =
     [Route GET ''/api/status'' ''get_status'', Route POST ''/api/command'' ''post_command'',
      Route POST ''/api/sequences/{seq_id}/start'' ''start_sequence'',
      Route GET ''/api/sequences/{seq_id}/status'' ''sequence_status'',
      Route POST ''/api/faults/inject'' ''inject_fault'', Route GET ''/api/logs'' ''get_logs'']"

subsection \<open>Fleet routing\<close>

definition auth_router :: "http_route list" where
  "auth_router = router ''/api/v1/auth'' [Route POST ''/token'' ''login'']"

definition deliveries_router :: "http_route list" where
  "deliveries_router = router ''/api/v1/deliveries''
     [Route POST [] ''create_delivery'', Route GET ''/{delivery_id}'' ''get_delivery'']"

definition routes_router :: "http_route list" where
  "routes_router = router ''/api/v1/routes'' [Route POST [] ''optimise_route'']"

definition fleet_app :: "http_route list" where
  "fleet_app = auth_router @ deliveries_router @ routes_router"

subsection \<open>AWS sensor events\<close>

definition aws_routes :: "http_route list" where
  "aws_routes =
     [Mount ''/metrics'' ''make_asgi_app'', Route GET ''/health'' ''health'', Route POST ''/api/v1/events'' ''create_event'',
      Route GET ''/api/v1/events'' ''list_events'', Route GET ''/api/v1/events/{event_id}'' ''get_event'']"

subsection \<open>Machine analytics\<close>

definition slm_router :: "http_route list" where
  "slm_router = router ''/api/v1''
     [Route POST ''/ingest'' ''ingest_measurements'', Route POST ''/train'' ''train_model'', Route POST ''/predict'' ''predict_anomaly'',
      Route GET ''/alerts'' ''get_alerts'']"

definition slm_app :: "http_route list" where
  "slm_app = slm_router @ [Route GET ''/health'' ''health_check'', Mount ''/api/v1/metrics'' ''metrics_app'']"

subsection \<open>Portfolio dispatch\<close>

definition telemetry_router :: "http_route list" where
  "telemetry_router = router ''/api''
     [Route POST ''/assets'' ''create_asset'', Route GET ''/assets/{asset_id}'' ''get_asset'',
      Route POST ''/telemetry'' ''ingest_telemetry'', Route GET ''/telemetry/chunks'' ''get_chunk_count'']"

definition forecast_router :: "http_route list" where
  "forecast_router = router ''/api/forecast''
     [Route POST ''/{asset_id}'' ''trigger_forecast'', Route GET ''/{asset_id}/latest'' ''get_latest_forecast'']"

definition optimizer_router :: "http_route list" where
  "optimizer_router = router ''/api/schedule'' [Route POST ''/optimise'' ''optimise_schedule'']"

definition fahrplan_router :: "http_route list" where
  "fahrplan_router = router ''/api/fahrplan''
     [Route POST [] ''create_fahrplan'', Route GET ''/{schedule_id}'' ''get_fahrplan'',
      Route PATCH ''/{schedule_id}'' ''patch_fahrplan'']"

definition portfolio_app :: "http_route list" where
  "portfolio_app = telemetry_router @ forecast_router @ optimizer_router @ fahrplan_router @ [Route GET ''/health'' ''health'']"

definition applications :: "http_route list list" where
  "applications =
     [dosing_app True, dosing_app False, grid_app, hil_app, fleet_app, aws_routes, slm_app, portfolio_app]"

section \<open>Dispatching\<close>

type_synonym params = "(string \<times> string) list"

datatype dispatched = Handled string params | MethodNotAllowed | Unrouted

text \<open>What a route makes of a request: the first of these in the order of the routes is the answer.\<close>

definition full_match :: "(http_route \<Rightarrow> string \<Rightarrow> params option) \<Rightarrow> http_method \<Rightarrow> string \<Rightarrow> http_route \<Rightarrow> (string \<times> params) option" where
  "full_match matcher m p r =
     (case r of
        Route m' t h \<Rightarrow> if m = m' then map_option (Pair h) (matcher r p) else None
      | Mount t h \<Rightarrow> map_option (Pair h) (matcher r p))"

fun first_match :: "('a \<Rightarrow> 'b option) \<Rightarrow> 'a list \<Rightarrow> 'b option" where
  "first_match f [] = None"
| "first_match f (x # xs) = (case f x of Some y \<Rightarrow> Some y | None \<Rightarrow> first_match f xs)"

definition dispatch :: "(http_route \<Rightarrow> string \<Rightarrow> params option) \<Rightarrow> http_route list \<Rightarrow> http_method \<Rightarrow> string \<Rightarrow> dispatched" where
  "dispatch matcher rs m p =
     (case first_match (full_match matcher m p) rs of
        Some (h, ps) \<Rightarrow> Handled h ps
      | None \<Rightarrow> if list_ex (\<lambda>r. matcher r p \<noteq> None) rs then MethodNotAllowed else Unrouted)"

text \<open>The documented matching: a template's \<open>{x}\<close> stands for one segment that is not empty.\<close>

datatype segment = Lit string | Param string

definition segment_of :: "string \<Rightarrow> segment" where
  "segment_of s = (if s \<noteq> [] \<and> hd s = CHR ''{'' then Param (butlast (tl s)) else Lit s)"

fun match_segments :: "segment list \<Rightarrow> string list \<Rightarrow> params option" where
  "match_segments [] [] = Some []"
| "match_segments (Lit a # ts) (s # ss) = (if s = a then match_segments ts ss else None)"
| "match_segments (Param x # ts) (s # ss) = (if s = [] then None else map_option ((#) (x, s)) (match_segments ts ss))"
| "match_segments _ _ = None"

definition route_path_match :: "http_route \<Rightarrow> string \<Rightarrow> params option" where
  "route_path_match r p =
     (case r of
        Route m t h \<Rightarrow> match_segments (map segment_of (split_slash t)) (split_slash p)
      | Mount t h \<Rightarrow>
          (let ts = split_slash t; ss = split_slash p
           in if length ts < length ss \<and> take (length ts) ss = ts then Some [] else None))"

definition documented :: "(http_route \<Rightarrow> string \<Rightarrow> params option) \<Rightarrow> bool" where
  "documented matcher \<longleftrightarrow> (\<forall>r p. matcher r p = route_path_match r p)"

text \<open>A request for a route: its template with a value in place of each parameter, and the values it carries.\<close>

fun fill :: "string \<Rightarrow> segment \<Rightarrow> string" where
  "fill v (Lit s) = s"
| "fill v (Param x) = v"

definition join_segments :: "string list \<Rightarrow> string" where
  "join_segments ss = concat (map (\<lambda>s. CHR ''/'' # s) ss)"

definition request_path :: "string \<Rightarrow> string \<Rightarrow> string" where
  "request_path v t = join_segments (map (fill v \<circ> segment_of) (tl (split_slash t)))"

definition values_of :: "string \<Rightarrow> string \<Rightarrow> params" where
  "values_of v t = concat (map (\<lambda>s. case s of Lit _ \<Rightarrow> [] | Param x \<Rightarrow> [(x, v)]) (map segment_of (split_slash t)))"

section \<open>Every route is reached\<close>

lemma split_join: "ss \<noteq> [] \<Longrightarrow> \<forall>s\<in>set ss. CHR ''/'' \<notin> set s \<Longrightarrow> split_slash (join_segments ss) = [] # ss"
proof (induction ss)
  case (Cons s ss)
  then show ?case
    by (cases "ss = []") (auto simp: join_segments_def split_slash_plain split_slash_dir neq_Nil_conv)
qed simp

lemma segments_no_slash: "s \<in> set (split_slash p) \<Longrightarrow> CHR ''/'' \<notin> set s"
  by (induction p arbitrary: s) (auto split: if_splits list.splits)

lemma fills_no_slash:
  assumes "CHR ''/'' \<notin> set v" and "s \<in> set (split_slash t)"
  shows "CHR ''/'' \<notin> set (fill v (segment_of s))"
  using assms segments_no_slash [OF assms(2)] by (simp add: segment_of_def)

lemma split_request:
  assumes "CHR ''/'' \<notin> set v" and "split_slash t = [] # ts" and "ts \<noteq> []"
  shows "split_slash (request_path v t) = [] # map (fill v \<circ> segment_of) ts"
proof -
  have "\<forall>s\<in>set (map (fill v \<circ> segment_of) ts). CHR ''/'' \<notin> set s"
    using fills_no_slash [OF assms(1), of _ t] assms(2) by (auto simp del: fill.simps)
  with assms(2,3) show ?thesis by (simp add: request_path_def split_join)
qed

lemmas app_defs = applications_def dosing_app_def grid_app_def grid_router_def hil_app_def fleet_app_def auth_router_def
  deliveries_router_def routes_router_def aws_routes_def slm_app_def slm_router_def portfolio_app_def telemetry_router_def
  forecast_router_def optimizer_router_def fahrplan_router_def router_def

definition reaches :: "(http_route \<Rightarrow> string \<Rightarrow> params option) \<Rightarrow> string \<Rightarrow> http_route list \<Rightarrow> http_route \<Rightarrow> bool" where
  "reaches matcher v app r =
     (case r of Route m t h \<Rightarrow> dispatch matcher app m (request_path v t) = Handled h (values_of v t) | Mount t h \<Rightarrow> True)"

lemma request_segments:
  assumes "CHR ''/'' \<notin> set v"
  shows "split_slash (request_path v (CHR ''/'' # t)) = [] # map (fill v \<circ> segment_of) (split_slash t)"
  by (rule split_request [OF assms]) (simp_all add: split_slash_ne)

lemmas dispatch_defs = reaches_def dispatch_def full_match_def documented_def route_path_match_def segment_of_def values_of_def Let_def

lemma reaches_app:
  assumes "documented matcher" and "v \<noteq> []" and "CHR ''/'' \<notin> set v"
  shows "list_all (reaches matcher v (dosing_app b)) (dosing_app b)"
    and "list_all (reaches matcher v grid_app) grid_app"
    and "list_all (reaches matcher v hil_app) hil_app"
    and "list_all (reaches matcher v fleet_app) fleet_app"
    and "list_all (reaches matcher v aws_routes) aws_routes"
    and "list_all (reaches matcher v slm_app) slm_app"
    and "list_all (reaches matcher v portfolio_app) portfolio_app"
  using assms by (simp_all add: app_defs dispatch_defs request_segments)

lemma node_no_slash: "check_node s = Inr n \<Longrightarrow> n \<noteq> [] \<and> CHR ''/'' \<notin> set n"
  by (auto simp: check_node_def Let_def list_all_iff node_char_def split: if_splits)

lemma join_split: "split_slash p = s # ss \<Longrightarrow> p = s @ join_segments ss"
proof (induction p arbitrary: s ss)
  case (Cons c p)
  obtain q qs where q: "split_slash p = q # qs" using split_slash_ne by (meson neq_Nil_conv)
  then have p: "p = q @ join_segments qs" by (rule Cons.IH)
  have "s # ss = (if c = CHR ''/'' then [] # q # qs else (c # q) # qs)" using Cons.prems q by (simp split: if_splits)
  then show ?case unfolding p by (auto simp: join_segments_def split: if_splits)
qed (simp add: join_segments_def)

lemma first_match_in: "first_match f xs = Some y \<Longrightarrow> \<exists>x\<in>set xs. f x = Some y"
  by (induction xs) (auto split: option.splits)

lemma handled_by: "dispatch matcher rs m p = Handled h ps \<Longrightarrow> \<exists>r\<in>set rs. full_match matcher m p r = Some (h, ps)"
  by (auto simp: dispatch_def split: option.splits if_splits dest: first_match_in)

text \<open>
  C34. No application shadows a route of its own: a request for a path of the template, with its method
  and any segment for the parameter, reaches the endpoint of the route and no other. This includes the batch
  beside the readings of a node, the listing beside a single event, and the endpoints of the dashboard beside its static
  files, which take every other path. Every node id that a reading can carry is such a segment.
\<close>

theorem routes_reached:
  assumes "documented matcher" and "v \<noteq> []" and "CHR ''/'' \<notin> set v"
  shows "list_all (\<lambda>app. list_all (\<lambda>r. case r of
      Route m t h \<Rightarrow> dispatch matcher app m (request_path v t) = Handled h (values_of v t) | Mount t h \<Rightarrow> True) app)
      applications \<and>
    dispatch matcher (dosing_app True) GET (CHR ''/'' # v) =
      (if v = ''health'' then Handled ''health'' [] else Handled ''static'' []) \<and>
    (check_node s = Inr n \<longrightarrow>
      dispatch matcher grid_app GET (''/api/v1/forecast/'' @ n) = Handled ''get_forecast'' [(''node_id'', n)])"
proof (intro conjI impI)
  have "list_all (\<lambda>app. list_all (reaches matcher v app) app) applications"
    using reaches_app [OF assms] by (simp add: applications_def)
  then show "list_all (\<lambda>app. list_all (\<lambda>r. case r of
      Route m t h \<Rightarrow> dispatch matcher app m (request_path v t) = Handled h (values_of v t) | Mount t h \<Rightarrow> True) app)
      applications"
    unfolding reaches_def .
  show "dispatch matcher (dosing_app True) GET (CHR ''/'' # v) =
      (if v = ''health'' then Handled ''health'' [] else Handled ''static'' [])"
    using assms by (simp add: dosing_app_def dispatch_defs split_slash_plain)
  show "dispatch matcher grid_app GET (''/api/v1/forecast/'' @ n) = Handled ''get_forecast'' [(''node_id'', n)]"
    if "check_node s = Inr n"
    using assms(1) node_no_slash [OF that]
    by (simp add: grid_app_def grid_router_def router_def dispatch_defs split_slash_plain)
qed

theorem routes_reached_witness:
  "dispatch route_path_match grid_app GET ''/api/v1/forecast/NODE-1'' = Handled ''get_forecast'' [(''node_id'', ''NODE-1'')]"
proof -
  have "check_node ''NODE-1'' = Inr ''NODE-1''"
    by (simp add: check_node_def strip_ws_def is_space_def node_char_def)
  then show ?thesis
    using routes_reached [of route_path_match "''x''" "''NODE-1''" "''NODE-1''"] by (simp add: documented_def)
qed

lemma match_segments_Some:
  "match_segments [] ss = Some ps \<longleftrightarrow> ss = [] \<and> ps = []"
  "match_segments (Lit a # ts) ss = Some ps \<longleftrightarrow> (\<exists>rest. ss = a # rest \<and> match_segments ts rest = Some ps)"
  "match_segments (Param x # ts) ss = Some ps \<longleftrightarrow>
     (\<exists>v rest qs. v \<noteq> [] \<and> ss = v # rest \<and> match_segments ts rest = Some qs \<and> ps = (x, v) # qs)"
  by (cases ss; auto)+

text \<open>
  C29. Over HTTP no sequence id leaves the directory of the sequences: whatever path reaches the endpoint
  that starts a sequence, its id is one segment, and loading it reads the one file of that name.
\<close>

theorem http_sequences_contained:
  assumes "documented matcher" and "dispatch matcher hil_app POST p = Handled ''start_sequence'' ps" and "resolve dir \<noteq> []"
  shows "\<exists>v. ps = [(''seq_id'', v)] \<and> p = ''/api/sequences/'' @ v @ ''/start'' \<and>
    load_sequence dir files v =
      (case files (resolve dir @ [lower v @ ''.yaml'']) of
         None \<Rightarrow> Inl UnknownSequence | Some Unparsable \<Rightarrow> Inl YamlError | Some (Doc y) \<Rightarrow> Inr y)"
proof -
  have "match_segments [Lit [], Lit ''api'', Lit ''sequences'', Param ''seq_id'', Lit ''start''] (split_slash p) = Some ps"
    using handled_by [OF assms(2)] assms(1)
    by (auto simp: hil_app_def full_match_def documented_def route_path_match_def segment_of_def split: if_splits)
  then obtain v where v: "split_slash p = [[], ''api'', ''sequences'', v, ''start'']" "ps = [(''seq_id'', v)]"
    by (auto simp: match_segments_Some)
  have "CHR ''/'' \<notin> set v" using segments_no_slash [of v p] v(1) by simp
  moreover have "p = ''/api/sequences/'' @ v @ ''/start''"
    using join_split [OF v(1)] by (simp add: join_segments_def)
  ultimately show ?thesis using v(2) load_sequence_plain [OF _ assms(3), of v files] by simp
qed

theorem http_sequences_contained_witness:
  "load_sequence [''app'', ''sequences''] [[''app'', ''sequences'', ''regen.yaml''] \<mapsto> Doc NotMapping] ''REGEN'' =
     Inr NotMapping"
proof -
  have "dispatch route_path_match hil_app POST ''/api/sequences/REGEN/start'' = Handled ''start_sequence'' [(''seq_id'', ''REGEN'')]"
    by (simp add: hil_app_def dispatch_def full_match_def route_path_match_def segment_of_def)
  from http_sequences_contained [OF _ this, of "[''app'', ''sequences'']" "[[''app'', ''sequences'', ''regen.yaml''] \<mapsto> Doc NotMapping]"]
  show ?thesis
    by (simp add: documented_def resolve_def resolve_step_def lower_def lower_char_def char_of_def bit_0)
qed

end
