(* ===== verification/Db_Schema.thy ===== *)
theory Db_Schema
  imports Prelude
begin

text \<open>
  Relational schemas: the vocabulary of the Alembic migrations (\<open>op.create_table\<close>, \<open>op.create_index\<close> and
  their opposites) and of the SQLAlchemy classes, what executing a migration does to a schema,
  and which contents a schema admits. The migrations themselves are in \<open>Migrations\<close>.
\<close>

section \<open>Columns and tables\<close>

datatype sql_type =
    SInteger | SBigInteger | SFloat | SString "nat option" | SDateTime | SJSON | SEnum string "string list"

datatype col_arg =
    PrimaryKey | Nullable bool | Unique | ForeignKey string string "string option" | ServerDefault string | Index

text \<open>The arguments of a table. The only check the programs declare is that a column is above zero.\<close>

datatype item =
    Column string sql_type "col_arg list" | UniqueConstraint "string list" | CheckPositive string string

text \<open>A foreign key: column, referenced table and column, and what a deletion does.\<close>

type_synonym fkey = "string \<times> string \<times> string \<times> string option"

record column =
  c_name :: string
  c_type :: sql_type
  c_null :: bool
  c_default :: "string option"

record table =
  t_name :: string
  t_cols :: "column list"
  t_pk :: "string list"
  t_uniques :: "string list list"
  t_fks :: "fkey list"
  t_checks :: "(string \<times> string) list"

record index =
  i_name :: string
  i_table :: string
  i_cols :: "(string \<times> bool) list" \<comment> \<open>with True for descending\<close>

text \<open>\<open>nullable\<close> defaults to the opposite of \<open>primary_key\<close>.\<close>

definition nullable :: "col_arg list \<Rightarrow> bool" where
  "nullable args =
     (case List.map_filter (\<lambda>a. case a of Nullable b \<Rightarrow> Some b | _ \<Rightarrow> None) args of
        b # _ \<Rightarrow> b
      | [] \<Rightarrow> \<not> List.member args PrimaryKey)"

definition server_default :: "col_arg list \<Rightarrow> string option" where
  "server_default args =
     (case List.map_filter (\<lambda>a. case a of ServerDefault d \<Rightarrow> Some d | _ \<Rightarrow> None) args of
        d # _ \<Rightarrow> Some d
      | [] \<Rightarrow> None)"

definition cols_of :: "item list \<Rightarrow> (string \<times> sql_type \<times> col_arg list) list" where
  "cols_of items = List.map_filter (\<lambda>i. case i of Column n ty args \<Rightarrow> Some (n, ty, args) | _ \<Rightarrow> None) items"

definition fks_of :: "string \<times> sql_type \<times> col_arg list \<Rightarrow> fkey list" where
  "fks_of c = (case c of (n, ty, args) \<Rightarrow>
     List.map_filter (\<lambda>a. case a of ForeignKey t rc d \<Rightarrow> Some (n, t, rc, d) | _ \<Rightarrow> None) args)"

definition table_of :: "string \<Rightarrow> item list \<Rightarrow> table" where
  "table_of name items =
     \<lparr>t_name = name,
      t_cols = map (\<lambda>(n, ty, args). \<lparr>c_name = n, c_type = ty, c_null = nullable args, c_default = server_default args\<rparr>)
        (cols_of items),
      t_pk = map fst (filter (\<lambda>(n, ty, args). List.member args PrimaryKey) (cols_of items)),
      t_uniques = map (\<lambda>c. [fst c]) (filter (\<lambda>(n, ty, args). List.member args Unique) (cols_of items)) @
        List.map_filter (\<lambda>i. case i of UniqueConstraint ns \<Rightarrow> Some ns | _ \<Rightarrow> None) items,
      t_fks = concat (map fks_of (cols_of items)),
      t_checks = List.map_filter (\<lambda>i. case i of CheckPositive c n \<Rightarrow> Some (c, n) | _ \<Rightarrow> None) items\<rparr>"

text \<open>\<open>index=True\<close> on a column of a class makes an index named after table and column.\<close>

definition column_indexes :: "string \<Rightarrow> item list \<Rightarrow> index list" where
  "column_indexes name items =
     map (\<lambda>(n, ty, args). \<lparr>i_name = ''ix_'' @ name @ ''_'' @ n, i_table = name, i_cols = [(n, False)]\<rparr>)
       (filter (\<lambda>(n, ty, args). List.member args Index) (cols_of items))"

text \<open>\<open>mapped_column\<close>: without an explicit \<open>nullable\<close>, the column is nullable when its annotation is optional.\<close>

definition mapped :: "string \<Rightarrow> bool \<Rightarrow> sql_type \<Rightarrow> col_arg list \<Rightarrow> item" where
  "mapped name opt ty args = Column name ty (args @ [Nullable opt])"

section \<open>Executing a migration\<close>

record schema =
  s_tables :: "table list"
  s_indexes :: "index list"
  s_types :: "string list" \<comment> \<open>the enumerated types, by name\<close>

definition schema_empty :: schema where
  "schema_empty = \<lparr>s_tables = [], s_indexes = [], s_types = []\<rparr>"

datatype ddl =
    CreateTable string "item list" | DropTable string | CreateIndex index | DropIndex string | Hypertable string string

definition col_names :: "table \<Rightarrow> string list" where
  "col_names t = map c_name (t_cols t)"

definition keys :: "table \<Rightarrow> string list list" where
  "keys t = t_pk t # t_uniques t"

text \<open>A foreign key needs its column and, in its own or another table, a referenced column that is a key.\<close>

definition fk_ok :: "table list \<Rightarrow> table \<Rightarrow> fkey \<Rightarrow> bool" where
  "fk_ok ts t fk = (case fk of (c, rt, rc, d) \<Rightarrow>
     List.member (col_names t) c \<and>
     list_ex (\<lambda>t'. t_name t' = rt \<and> List.member (col_names t') rc \<and> List.member (keys t') [rc]) ts)"

definition table_ok :: "table \<Rightarrow> bool" where
  "table_ok t \<longleftrightarrow> distinct (col_names t) \<and> list_all (\<lambda>k. list_all (List.member (col_names t)) k) (keys t) \<and>
     list_all (\<lambda>(c, n). List.member (col_names t) c) (t_checks t)"

definition relations :: "schema \<Rightarrow> string list" where
  "relations s = map t_name (s_tables s) @ map i_name (s_indexes s)"

definition enums_of :: "table \<Rightarrow> string list" where
  "enums_of t = List.map_filter (\<lambda>c. case c_type c of SEnum n ls \<Rightarrow> Some n | _ \<Rightarrow> None) (t_cols t)"

text \<open>
  One operation; \<open>None\<close> is an error of the database. Tables and indexes share one name space. A table
  cannot be dropped while another one refers to it; its indexes go with it. \<open>hyper\<close> is the
  TimescaleDB extension, when it is installed: whether \<open>create_hypertable\<close> accepts a table and a column.
\<close>

definition exec_ddl :: "(table \<Rightarrow> string \<Rightarrow> bool) option \<Rightarrow> ddl \<Rightarrow> schema \<Rightarrow> schema option" where
  "exec_ddl hyper op s =
     (case op of
        CreateTable n items \<Rightarrow>
          (let t = table_of n items
           in if n \<in> set (relations s) \<or> \<not> table_ok t \<or> \<not> list_all (fk_ok (t # s_tables s) t) (t_fks t) then None
              else Some (s\<lparr>s_tables := s_tables s @ [t], s_types := s_types s @ filter (\<lambda>e. e \<notin> set (s_types s)) (enums_of t)\<rparr>))
      | DropTable n \<Rightarrow>
          if n \<notin> t_name ` set (s_tables s) \<or>
             list_ex (\<lambda>t. t_name t \<noteq> n \<and> list_ex (\<lambda>fk. fst (snd fk) = n) (t_fks t)) (s_tables s) then None
          else Some (s\<lparr>s_tables := filter (\<lambda>t. t_name t \<noteq> n) (s_tables s), s_indexes := filter (\<lambda>i. i_table i \<noteq> n) (s_indexes s)\<rparr>)
      | CreateIndex i \<Rightarrow>
          if i_name i \<in> set (relations s) \<or>
             \<not> list_ex (\<lambda>t. t_name t = i_table i \<and> list_all (\<lambda>(c, b). List.member (col_names t) c) (i_cols i)) (s_tables s) then None
          else Some (s\<lparr>s_indexes := s_indexes s @ [i]\<rparr>)
      | DropIndex n \<Rightarrow>
          if n \<notin> i_name ` set (s_indexes s) then None
          else Some (s\<lparr>s_indexes := filter (\<lambda>i. i_name i \<noteq> n) (s_indexes s)\<rparr>)
      | Hypertable n c \<Rightarrow>
          (case hyper of
             None \<Rightarrow> Some s
           | Some accepts \<Rightarrow>
               (case find (\<lambda>t. t_name t = n) (s_tables s) of
                  None \<Rightarrow> None
                | Some t \<Rightarrow> if accepts t c then Some s else None)))"

text \<open>A migration runs in one transaction: the first error undoes it.\<close>

fun run_ddl :: "(table \<Rightarrow> string \<Rightarrow> bool) option \<Rightarrow> ddl list \<Rightarrow> schema \<Rightarrow> schema option" where
  "run_ddl hyper [] s = Some s"
| "run_ddl hyper (op # ops) s = (case exec_ddl hyper op s of None \<Rightarrow> None | Some s' \<Rightarrow> run_ddl hyper ops s')"

section \<open>Well-formed schemas\<close>

definition schema_wf :: "schema \<Rightarrow> bool" where
  "schema_wf s \<longleftrightarrow> distinct (relations s) \<and>
     (\<forall>t\<in>set (s_tables s). table_ok t \<and> (\<forall>fk\<in>set (t_fks t). fk_ok (s_tables s) t fk)) \<and>
     (\<forall>i\<in>set (s_indexes s). i_table i \<in> t_name ` set (s_tables s))"

lemma schema_wf_empty: "schema_wf schema_empty"
  by (simp add: schema_wf_def schema_empty_def relations_def)

lemma table_of_name [simp]: "t_name (table_of n items) = n"
  by (simp add: table_of_def)

lemma fk_ok_mono: "fk_ok ts t fk \<Longrightarrow> set ts \<subseteq> set ts' \<Longrightarrow> fk_ok ts' t fk"
  by (auto simp: fk_ok_def list_ex_iff split: prod.splits)

text \<open>A table that is dropped is referred to by no other, so the remaining references still hold.\<close>

lemma fk_ok_drop:
  assumes "fk_ok ts t fk" and "fst (snd fk) \<noteq> n"
  shows "fk_ok (filter (\<lambda>t. t_name t \<noteq> n) ts) t fk"
  using assms by (auto simp: fk_ok_def list_ex_iff split: prod.splits)

lemma exec_create_wf:
  assumes "schema_wf s" and "exec_ddl hyper (CreateTable n items) s = Some s'"
  shows "schema_wf s'"
proof -
  let ?t = "table_of n items"
  from assms(2) have n: "n \<notin> set (relations s)" and t: "table_ok ?t" "list_all (fk_ok (?t # s_tables s) ?t) (t_fks ?t)"
    and s': "s_tables s' = s_tables s @ [?t]" "s_indexes s' = s_indexes s"
    by (auto simp: exec_ddl_def Let_def split: if_splits)
  have "distinct (relations s')" using assms(1) n s' by (auto simp: schema_wf_def relations_def)
  moreover have "\<forall>t\<in>set (s_tables s'). table_ok t \<and> (\<forall>fk\<in>set (t_fks t). fk_ok (s_tables s') t fk)"
    using assms(1) t s' by (auto simp: schema_wf_def list_all_iff intro: fk_ok_mono [where ts = "s_tables s"]
        fk_ok_mono [where ts = "?t # s_tables s"])
  ultimately show ?thesis using assms(1) s' by (auto simp: schema_wf_def)
qed

lemma exec_drop_wf:
  assumes "schema_wf s" and "exec_ddl hyper (DropTable n) s = Some s'"
  shows "schema_wf s'"
proof -
  from assms(2) have free: "\<forall>t\<in>set (s_tables s). t_name t \<noteq> n \<longrightarrow> (\<forall>fk\<in>set (t_fks t). fst (snd fk) \<noteq> n)"
    and s': "s_tables s' = filter (\<lambda>t. t_name t \<noteq> n) (s_tables s)" "s_indexes s' = filter (\<lambda>i. i_table i \<noteq> n) (s_indexes s)"
    by (auto simp: exec_ddl_def list_ex_iff split: if_splits)
  have "distinct (relations s')"
    using assms(1) s' by (auto simp: schema_wf_def relations_def distinct_map_filter)
  moreover have "\<forall>t\<in>set (s_tables s'). table_ok t \<and> (\<forall>fk\<in>set (t_fks t). fk_ok (s_tables s') t fk)"
    using assms(1) free s'(1) by (auto simp: schema_wf_def intro!: fk_ok_drop)
  ultimately show ?thesis using assms(1) s' by (auto simp: schema_wf_def)
qed

lemma exec_index_wf:
  assumes "schema_wf s" and "exec_ddl hyper (CreateIndex i) s = Some s'"
  shows "schema_wf s'"
proof -
  from assms(2) have s': "s' = s\<lparr>s_indexes := s_indexes s @ [i]\<rparr>" "i_name i \<notin> set (relations s)"
    and "\<exists>t\<in>set (s_tables s). t_name t = i_table i"
    by (auto simp: exec_ddl_def list_ex_iff split: if_splits)
  moreover from this have "i_table i \<in> t_name ` set (s_tables s)" by (metis imageI)
  moreover from s' have "distinct (relations s')" using assms(1) by (auto simp: schema_wf_def relations_def)
  ultimately show ?thesis using assms(1) by (auto simp: schema_wf_def)
qed

lemma exec_drop_index_wf:
  assumes "schema_wf s" and "exec_ddl hyper (DropIndex n) s = Some s'"
  shows "schema_wf s'"
proof -
  from assms(2) have s': "s' = s\<lparr>s_indexes := filter (\<lambda>i. i_name i \<noteq> n) (s_indexes s)\<rparr>"
    by (auto simp: exec_ddl_def split: if_splits)
  then have "distinct (relations s')"
    using assms(1) by (auto simp: schema_wf_def relations_def distinct_map_filter)
  then show ?thesis using assms(1) s' by (auto simp: schema_wf_def)
qed

lemma exec_wf: "schema_wf s \<Longrightarrow> exec_ddl hyper op s = Some s' \<Longrightarrow> schema_wf s'"
proof (cases op)
  case (Hypertable n c)
  then show "schema_wf s \<Longrightarrow> exec_ddl hyper op s = Some s' \<Longrightarrow> schema_wf s'"
    by (auto simp: exec_ddl_def split: option.splits if_splits)
qed (metis exec_create_wf exec_drop_wf exec_index_wf exec_drop_index_wf)+

lemma run_wf: "schema_wf s \<Longrightarrow> run_ddl hyper ops s = Some s' \<Longrightarrow> schema_wf s'"
  by (induction ops arbitrary: s) (auto intro: exec_wf split: option.splits)

section \<open>Migrations beside other tables\<close>

text \<open>The schema \<open>s\<close> in a database that also holds \<open>s0\<close>.\<close>

definition beside :: "schema \<Rightarrow> schema \<Rightarrow> schema" where
  "beside s0 s = \<lparr>s_tables = s_tables s0 @ s_tables s, s_indexes = s_indexes s0 @ s_indexes s, s_types = s_types s0 @ s_types s\<rparr>"

lemma beside_empty [simp]: "beside s0 schema_empty = s0"
  by (simp add: beside_def schema_empty_def)

fun touched :: "ddl \<Rightarrow> string" where
  "touched (CreateTable n items) = n"
| "touched (DropTable n) = n"
| "touched (CreateIndex i) = i_name i"
| "touched (DropIndex n) = n"
| "touched (Hypertable n c) = n"

fun new_types :: "ddl \<Rightarrow> string list" where
  "new_types (CreateTable n items) = enums_of (table_of n items)"
| "new_types _ = []"

text \<open>An operation is apart from \<open>s0\<close> when \<open>s0\<close> knows none of its names.\<close>

definition apart :: "schema \<Rightarrow> ddl \<Rightarrow> bool" where
  "apart s0 op \<longleftrightarrow> touched op \<notin> set (relations s0) \<and> (\<forall>e\<in>set (new_types op). e \<notin> set (s_types s0))"

lemma apart_refs:
  assumes "schema_wf s0" and "n \<notin> set (relations s0)"
  shows "t \<in> set (s_tables s0) \<Longrightarrow> t_name t \<noteq> n \<and> (\<forall>fk\<in>set (t_fks t). fst (snd fk) \<noteq> n)"
    and "i \<in> set (s_indexes s0) \<Longrightarrow> i_name i \<noteq> n \<and> i_table i \<noteq> n"
  using assms by (fastforce simp: schema_wf_def relations_def fk_ok_def list_ex_iff)+

lemma find_skip: "\<forall>x\<in>set xs. \<not> P x \<Longrightarrow> find P (xs @ ys) = find P ys"
  by (induction xs) auto

lemma filter_none: "\<forall>x\<in>set xs. P x \<Longrightarrow> filter P xs = xs"
  by simp

lemma exec_beside:
  assumes "schema_wf s0" and "apart s0 op" and "exec_ddl hyper op s = Some s'"
  shows "exec_ddl hyper op (beside s0 s) = Some (beside s0 s')"
proof (cases op)
  case (CreateTable n items)
  let ?t = "table_of n items"
  from assms(3) CreateTable have ok: "n \<notin> set (relations s)" "table_ok ?t" "list_all (fk_ok (?t # s_tables s) ?t) (t_fks ?t)"
    and s': "s' = s\<lparr>s_tables := s_tables s @ [?t], s_types := s_types s @ filter (\<lambda>e. e \<notin> set (s_types s)) (enums_of ?t)\<rparr>"
    by (auto simp: exec_ddl_def Let_def split: if_splits)
  have "n \<notin> set (relations (beside s0 s))"
    using ok(1) assms(2) CreateTable by (auto simp: apart_def relations_def beside_def)
  moreover have "list_all (fk_ok (?t # s_tables (beside s0 s)) ?t) (t_fks ?t)"
    using ok(3) by (auto simp: list_all_iff beside_def intro: fk_ok_mono [where ts = "?t # s_tables s"])
  moreover have "filter (\<lambda>e. e \<notin> set (s_types (beside s0 s))) (enums_of ?t) = filter (\<lambda>e. e \<notin> set (s_types s)) (enums_of ?t)"
    using assms(2) CreateTable by (auto simp: apart_def beside_def intro!: filter_cong)
  ultimately show ?thesis using ok(2) CreateTable s' by (simp add: exec_ddl_def Let_def) (simp add: beside_def)
next
  case (DropTable n)
  then have n: "n \<notin> set (relations s0)" using assms(2) by (simp add: apart_def)
  show ?thesis
    using assms(3) DropTable apart_refs [OF assms(1) n]
    by (auto simp: exec_ddl_def beside_def list_ex_iff filter_none split: if_splits)
next
  case (CreateIndex i)
  then show ?thesis
    using assms(2,3) by (auto simp: exec_ddl_def beside_def apart_def relations_def list_ex_iff split: if_splits)
next
  case (DropIndex n)
  then have n: "n \<notin> set (relations s0)" using assms(2) by (simp add: apart_def)
  show ?thesis
    using assms(3) DropIndex apart_refs(2) [OF assms(1) n] by (auto simp: exec_ddl_def beside_def filter_none split: if_splits)
next
  case (Hypertable n c)
  then have "n \<notin> t_name ` set (s_tables s0)" using assms(2) by (auto simp: apart_def relations_def)
  then have "find (\<lambda>t. t_name t = n) (s_tables (beside s0 s)) = find (\<lambda>t. t_name t = n) (s_tables s)"
    by (auto simp: beside_def intro!: find_skip)
  then show ?thesis using assms(3) Hypertable by (auto simp: exec_ddl_def split: option.splits if_splits)
qed

lemma run_beside:
  assumes "schema_wf s0" and "\<forall>op\<in>set ops. apart s0 op" and "run_ddl hyper ops s = Some s'"
  shows "run_ddl hyper ops (beside s0 s) = Some (beside s0 s')"
  using assms(2,3)
proof (induction ops arbitrary: s)
  case (Cons op ops)
  then obtain s1 where "exec_ddl hyper op s = Some s1" "run_ddl hyper ops s1 = Some s'" by (auto split: option.splits)
  then show ?case using Cons exec_beside [OF assms(1)] by simp
qed simp

lemma run_append:
  "run_ddl hyper (ops @ ops') s = (case run_ddl hyper ops s of None \<Rightarrow> None | Some s' \<Rightarrow> run_ddl hyper ops' s')"
  by (induction ops arbitrary: s) (auto split: option.split)

section \<open>Contents\<close>

datatype sql_value = VInt int | VFloat real | VString string | VTime int | VJson string

type_synonym row = "string \<rightharpoonup> sql_value"

fun has_type :: "sql_type \<Rightarrow> sql_value \<Rightarrow> bool" where
  "has_type SInteger (VInt i) \<longleftrightarrow> - (2 ^ 31) \<le> i \<and> i < 2 ^ 31"
| "has_type SBigInteger (VInt i) \<longleftrightarrow> - (2 ^ 63) \<le> i \<and> i < 2 ^ 63"
| "has_type SFloat (VFloat x) \<longleftrightarrow> True"
| "has_type (SString n) (VString s) \<longleftrightarrow> (case n of None \<Rightarrow> True | Some k \<Rightarrow> length s \<le> k)"
| "has_type SDateTime (VTime t) \<longleftrightarrow> True"
| "has_type SJSON (VJson j) \<longleftrightarrow> True"
| "has_type (SEnum n ls) (VString s) \<longleftrightarrow> s \<in> set ls"
| "has_type _ _ \<longleftrightarrow> False"

text \<open>A value of a column: one of its type, or none where the column is nullable.\<close>

definition cell_ok :: "column \<Rightarrow> sql_value option \<Rightarrow> bool" where
  "cell_ok c v \<longleftrightarrow> (case v of None \<Rightarrow> c_null c | Some x \<Rightarrow> has_type (c_type c) x)"

definition positive :: "sql_value option \<Rightarrow> bool" where
  "positive v \<longleftrightarrow> (case v of Some (VInt i) \<Rightarrow> 0 < i | Some (VFloat x) \<Rightarrow> 0 < x | _ \<Rightarrow> True)"

definition row_ok :: "table \<Rightarrow> row \<Rightarrow> bool" where
  "row_ok t r \<longleftrightarrow> (\<forall>c\<in>set (t_cols t). cell_ok c (r (c_name c))) \<and> dom r \<subseteq> set (col_names t) \<and>
     (\<forall>(c, n)\<in>set (t_checks t). positive (r c))"

text \<open>Keys are unique among the rows that have a value in all their columns.\<close>

definition key_ok :: "string list \<Rightarrow> row list \<Rightarrow> bool" where
  "key_ok k rows \<longleftrightarrow> distinct (map (\<lambda>r. map r k) (filter (\<lambda>r. \<forall>c\<in>set k. r c \<noteq> None) rows))"

text \<open>What the tables of a schema may hold: \<open>db\<close> gives the rows of each table.\<close>

definition holds :: "schema \<Rightarrow> (string \<Rightarrow> row list) \<Rightarrow> bool" where
  "holds s db \<longleftrightarrow> (\<forall>t\<in>set (s_tables s).
     (\<forall>r\<in>set (db (t_name t)). row_ok t r) \<and> (\<forall>k\<in>set (keys t). key_ok k (db (t_name t))) \<and>
     (\<forall>(c, rt, rc, d)\<in>set (t_fks t). \<forall>r\<in>set (db (t_name t)). r c \<noteq> None \<longrightarrow> (\<exists>q\<in>set (db rt). q rc = r c)))"

section \<open>When one schema admits all that another one does\<close>

fun subtype :: "sql_type \<Rightarrow> sql_type \<Rightarrow> bool" where
  "subtype SInteger SBigInteger \<longleftrightarrow> True"
| "subtype (SString (Some n)) (SString None) \<longleftrightarrow> True"
| "subtype (SEnum n ls) (SString None) \<longleftrightarrow> True"
| "subtype a b \<longleftrightarrow> a = b"

definition admits_table :: "table \<Rightarrow> table \<Rightarrow> bool" where
  "admits_table t' t \<longleftrightarrow> t_name t' = t_name t \<and> set (col_names t) \<subseteq> set (col_names t') \<and>
     list_all (\<lambda>c'. list_ex (\<lambda>c. c_name c = c_name c' \<and> subtype (c_type c) (c_type c') \<and> (c_null c \<longrightarrow> c_null c')) (t_cols t)) (t_cols t') \<and>
     list_all (\<lambda>(c', n'). list_ex (\<lambda>(c, n). c = c') (t_checks t)) (t_checks t') \<and>
     list_all (List.member (keys t)) (keys t') \<and>
     list_all (\<lambda>(c', rt', rc', d'). list_ex (\<lambda>(c, rt, rc, d). c = c' \<and> rt = rt' \<and> rc = rc') (t_fks t)) (t_fks t')"

definition admits :: "schema \<Rightarrow> schema \<Rightarrow> bool" where
  "admits s' s \<longleftrightarrow> list_all (\<lambda>t'. list_ex (admits_table t') (s_tables s)) (s_tables s')"

lemma subtype_sound: "subtype a b \<Longrightarrow> has_type a v \<Longrightarrow> has_type b v"
  by (cases "(a, b)" rule: subtype.cases; cases v) auto

lemma admits_row:
  assumes "admits_table t' t" and "row_ok t r"
  shows "row_ok t' r"
proof -
  have "cell_ok c' (r (c_name c'))" if c': "c' \<in> set (t_cols t')" for c'
  proof -
    obtain c where "c \<in> set (t_cols t)" "c_name c = c_name c'" "subtype (c_type c) (c_type c')" "c_null c \<longrightarrow> c_null c'"
      using assms(1) c' by (auto simp: admits_table_def list_all_iff list_ex_iff)
    then show ?thesis using assms(2) subtype_sound by (fastforce simp: row_ok_def cell_ok_def split: option.splits)
  qed
  moreover have "positive (r c')" if "(c', n') \<in> set (t_checks t')" for c' n'
    using assms that by (fastforce simp: admits_table_def row_ok_def list_all_iff list_ex_iff)
  ultimately show ?thesis using assms by (auto simp: admits_table_def row_ok_def)
qed

lemma admits_sound:
  assumes "admits s' s" and "holds s db"
  shows "holds s' db"
  unfolding holds_def
proof (intro ballI)
  fix t' assume "t' \<in> set (s_tables s')"
  then obtain t where t: "t \<in> set (s_tables s)" and a: "admits_table t' t"
    using assms(1) by (auto simp: admits_def list_all_iff list_ex_iff)
  have n: "t_name t' = t_name t" using a by (simp add: admits_table_def)
  have h: "\<forall>r\<in>set (db (t_name t)). row_ok t r" "\<forall>k\<in>set (keys t). key_ok k (db (t_name t))"
    "\<forall>(c, rt, rc, d)\<in>set (t_fks t). \<forall>r\<in>set (db (t_name t)). r c \<noteq> None \<longrightarrow> (\<exists>q\<in>set (db rt). q rc = r c)"
    using assms(2) t by (auto simp: holds_def)
  have "\<forall>r\<in>set (db (t_name t')). row_ok t' r" using h(1) admits_row [OF a] n by simp
  moreover have "\<forall>k\<in>set (keys t'). key_ok k (db (t_name t'))"
    using h(2) a n by (auto simp: admits_table_def list_all_iff)
  moreover have "\<forall>(c, rt, rc, d)\<in>set (t_fks t'). \<forall>r\<in>set (db (t_name t')). r c \<noteq> None \<longrightarrow> (\<exists>q\<in>set (db rt). q rc = r c)"
    using h(3) a n unfolding admits_table_def list_all_iff list_ex_iff by fastforce
  ultimately show "(\<forall>r\<in>set (db (t_name t')). row_ok t' r) \<and> (\<forall>k\<in>set (keys t'). key_ok k (db (t_name t'))) \<and>
      (\<forall>(c, rt, rc, d)\<in>set (t_fks t'). \<forall>r\<in>set (db (t_name t')). r c \<noteq> None \<longrightarrow> (\<exists>q\<in>set (db rt). q rc = r c))"
    by blast
qed

end
