(* ===== verification/Migrations.thy ===== *)
theory Migrations
  imports Db_Schema
begin

text \<open>
  The Alembic migrations of the three services that have one (\<open>migrations/versions/001_initial_schema.py\<close> of
  \<open>grid_load_forecasting\<close>, \<open>slm_sensor_analytics\<close> and \<open>renewables_portfolio_dispatch\<close>) and the
  tables their SQLAlchemy classes declare (\<open>app/db/models.py\<close>, \<open>app/models/orm.py\<close>), which
  \<open>Base.metadata.create_all\<close> makes.
\<close>

section \<open>Grid load forecasting\<close>

definition grid_upgrade :: "ddl list" where
  "grid_upgrade =
     [CreateTable ''nodes''
        [Column ''node_id'' (SString (Some 32)) [PrimaryKey],
         Column ''region'' (SString (Some 64)) [Nullable True],
         Column ''meter_type'' (SString (Some 16)) [Nullable False, ServerDefault ''residential''],
         Column ''commissioned_at'' SDateTime [Nullable True]],
      CreateTable ''load_readings''
        [Column ''id'' SBigInteger [PrimaryKey],
         Column ''node_id'' (SString (Some 32)) [ForeignKey ''nodes'' ''node_id'' (Some ''CASCADE''), Nullable False],
         Column ''ts'' SDateTime [Nullable False],
         Column ''kwh'' SFloat [Nullable False],
         Column ''meter_type'' (SString (Some 16)) [Nullable False, ServerDefault ''residential''],
         Column ''accepted_at'' SDateTime [Nullable False, ServerDefault ''now()''],
         CheckPositive ''kwh'' ''ck_readings_kwh_positive''],
      CreateIndex \<lparr>i_name = ''idx_readings_node_ts'', i_table = ''load_readings'', i_cols = [(''node_id'', False), (''ts'', True)]\<rparr>,
      CreateIndex \<lparr>i_name = ''idx_readings_ts'', i_table = ''load_readings'', i_cols = [(''ts'', True)]\<rparr>,
      CreateTable ''node_forecasts''
        [Column ''node_id'' (SString (Some 32)) [ForeignKey ''nodes'' ''node_id'' (Some ''CASCADE''), PrimaryKey],
         Column ''forecast_kwh'' SFloat [Nullable True],
         Column ''computed_at'' SDateTime [Nullable True],
         Column ''window_size'' SInteger [Nullable False, ServerDefault ''12'']]]"

definition grid_downgrade :: "ddl list" where
  "grid_downgrade =
     [DropTable ''node_forecasts'', DropIndex ''idx_readings_ts'', DropIndex ''idx_readings_node_ts'',
      DropTable ''load_readings'', DropTable ''nodes'']"

text \<open>A class: table name, columns and constraints, and the indexes of its table arguments.\<close>

type_synonym orm_class = "string \<times> item list \<times> index list"

definition Node_class :: orm_class where
  "Node_class = (''nodes'',
     [mapped ''node_id'' False (SString (Some 32)) [PrimaryKey],
      mapped ''region'' True (SString (Some 64)) [],
      mapped ''meter_type'' False (SString (Some 16)) [],
      mapped ''commissioned_at'' True SDateTime []], [])"

definition LoadReading_class :: orm_class where
  "LoadReading_class = (''load_readings'',
     [mapped ''id'' False SInteger [PrimaryKey],
      mapped ''node_id'' False (SString (Some 32)) [ForeignKey ''nodes'' ''node_id'' (Some ''CASCADE''), Nullable False],
      mapped ''ts'' False SDateTime [Nullable False],
      mapped ''kwh'' False SFloat [Nullable False],
      mapped ''meter_type'' False (SString (Some 16)) [Nullable False],
      mapped ''accepted_at'' False SDateTime [Nullable False, ServerDefault ''now()''],
      CheckPositive ''kwh'' ''ck_readings_kwh_positive''],
     [\<lparr>i_name = ''idx_readings_node_ts'', i_table = ''load_readings'', i_cols = [(''node_id'', False), (''ts'', True)]\<rparr>,
      \<lparr>i_name = ''idx_readings_ts'', i_table = ''load_readings'', i_cols = [(''ts'', True)]\<rparr>])"

definition NodeForecast_class :: orm_class where
  "NodeForecast_class = (''node_forecasts'',
     [mapped ''node_id'' False (SString (Some 32)) [ForeignKey ''nodes'' ''node_id'' (Some ''CASCADE''), PrimaryKey],
      mapped ''forecast_kwh'' True SFloat [],
      mapped ''computed_at'' True SDateTime [],
      mapped ''window_size'' False SInteger []], [])"

section \<open>Machine analytics\<close>

definition slm_upgrade :: "ddl list" where
  "slm_upgrade =
     [CreateTable ''measurements''
        [Column ''id'' SInteger [PrimaryKey],
         Column ''device_id'' (SString (Some 64)) [Nullable False],
         Column ''sensor_type'' (SString (Some 64)) [Nullable False],
         Column ''value'' SFloat [Nullable False],
         Column ''unit'' (SString (Some 16)) [Nullable False],
         Column ''recorded_at'' SDateTime [Nullable False, ServerDefault ''now()'']],
      CreateIndex \<lparr>i_name = ''idx_measurements_device_recorded'', i_table = ''measurements'',
                   i_cols = [(''device_id'', False), (''recorded_at'', True)]\<rparr>,
      CreateIndex \<lparr>i_name = ''idx_measurements_recorded_at'', i_table = ''measurements'', i_cols = [(''recorded_at'', False)]\<rparr>,
      CreateIndex \<lparr>i_name = ''ix_measurements_device_id'', i_table = ''measurements'', i_cols = [(''device_id'', False)]\<rparr>,
      CreateTable ''alerts''
        [Column ''id'' SInteger [PrimaryKey],
         Column ''device_id'' (SString (Some 64)) [Nullable False],
         Column ''sensor_type'' (SString (Some 64)) [Nullable False],
         Column ''anomaly_score'' SFloat [Nullable False],
         Column ''threshold'' SFloat [Nullable False],
         Column ''triggered_at'' SDateTime [Nullable False],
         Column ''feature_snapshot'' SJSON [Nullable False]],
      CreateIndex \<lparr>i_name = ''idx_alerts_device_triggered'', i_table = ''alerts'',
                   i_cols = [(''device_id'', False), (''triggered_at'', True)]\<rparr>,
      CreateIndex \<lparr>i_name = ''idx_alerts_triggered_at'', i_table = ''alerts'', i_cols = [(''triggered_at'', False)]\<rparr>,
      CreateIndex \<lparr>i_name = ''ix_alerts_device_id'', i_table = ''alerts'', i_cols = [(''device_id'', False)]\<rparr>]"

definition slm_downgrade :: "ddl list" where
  "slm_downgrade =
     [DropIndex ''ix_alerts_device_id'', DropIndex ''idx_alerts_triggered_at'', DropIndex ''idx_alerts_device_triggered'',
      DropTable ''alerts'',
      DropIndex ''ix_measurements_device_id'', DropIndex ''idx_measurements_recorded_at'',
      DropIndex ''idx_measurements_device_recorded'', DropTable ''measurements'']"

definition Measurement_class :: orm_class where
  "Measurement_class = (''measurements'',
     [mapped ''id'' False SInteger [PrimaryKey],
      mapped ''device_id'' False (SString (Some 64)) [Index, Nullable False],
      mapped ''sensor_type'' False (SString (Some 64)) [Nullable False],
      mapped ''value'' False SFloat [Nullable False],
      mapped ''unit'' False (SString (Some 16)) [Nullable False],
      mapped ''recorded_at'' False SDateTime [Index, Nullable False, ServerDefault ''now()'']],
     [\<lparr>i_name = ''idx_measurements_device_recorded'', i_table = ''measurements'',
       i_cols = [(''device_id'', False), (''recorded_at'', True)]\<rparr>])"

definition Alert_class :: orm_class where
  "Alert_class = (''alerts'',
     [mapped ''id'' False SInteger [PrimaryKey],
      mapped ''device_id'' False (SString (Some 64)) [Index, Nullable False],
      mapped ''sensor_type'' False (SString (Some 64)) [Nullable False],
      mapped ''anomaly_score'' False SFloat [Nullable False],
      mapped ''threshold'' False SFloat [Nullable False],
      mapped ''triggered_at'' False SDateTime [Index, Nullable False],
      mapped ''feature_snapshot'' False SJSON [Nullable False]],
     [\<lparr>i_name = ''idx_alerts_device_triggered'', i_table = ''alerts'',
       i_cols = [(''device_id'', False), (''triggered_at'', True)]\<rparr>])"

section \<open>Portfolio dispatch\<close>

definition portfolio_upgrade :: "ddl list" where
  "portfolio_upgrade =
     [CreateTable ''assets''
        [Column ''id'' SInteger [PrimaryKey],
         Column ''name'' (SString None) [Nullable False, Unique],
         Column ''type'' (SString None) [Nullable False],
         Column ''capacity_mw'' SFloat [Nullable False],
         Column ''ramp_rate_mw_per_min'' SFloat [ServerDefault ''999'']],
      CreateTable ''telemetry''
        [Column ''id'' SInteger [PrimaryKey],
         Column ''asset_id'' SInteger [ForeignKey ''assets'' ''id'' None, Nullable False],
         Column ''measured_at'' SDateTime [Nullable False],
         Column ''power_mw'' SFloat [Nullable False],
         UniqueConstraint [''asset_id'', ''measured_at'']],
      Hypertable ''telemetry'' ''measured_at'',
      CreateTable ''forecast_runs''
        [Column ''id'' SInteger [PrimaryKey],
         Column ''asset_id'' SInteger [ForeignKey ''assets'' ''id'' None, Nullable False],
         Column ''created_at'' SDateTime [],
         Column ''horizon_h'' SInteger [],
         Column ''mape'' SFloat [],
         Column ''model_params_json'' (SString None) [ServerDefault ''{}'']],
      CreateTable ''forecast_intervals''
        [Column ''id'' SInteger [PrimaryKey],
         Column ''run_id'' SInteger [ForeignKey ''forecast_runs'' ''id'' None, Nullable False],
         Column ''interval_start'' SDateTime [],
         Column ''interval_end'' SDateTime [],
         Column ''mean_mw'' SFloat [],
         Column ''std_mw'' SFloat []],
      CreateTable ''schedules''
        [Column ''id'' (SString None) [PrimaryKey],
         Column ''portfolio_id'' SInteger [],
         Column ''date'' (SString None) [],
         Column ''created_at'' SDateTime []],
      CreateTable ''schedule_intervals''
        [Column ''id'' SInteger [PrimaryKey],
         Column ''schedule_id'' (SString None) [ForeignKey ''schedules'' ''id'' None, Nullable False],
         Column ''asset_id'' SInteger [],
         Column ''interval_start'' SDateTime [],
         Column ''interval_end'' SDateTime [],
         Column ''scheduled_mw'' SFloat [],
         Column ''status'' (SString None) [ServerDefault ''DRAFT'']]]"

definition portfolio_downgrade :: "ddl list" where
  "portfolio_downgrade =
     [DropTable ''schedule_intervals'', DropTable ''schedules'', DropTable ''forecast_intervals'',
      DropTable ''forecast_runs'', DropTable ''telemetry'', DropTable ''assets'']"

text \<open>\<open>Enum(AssetType)\<close> is an enumerated type named after the class whose labels are the member names.\<close>

definition Asset_class :: orm_class where
  "Asset_class = (''assets'',
     [mapped ''id'' False SInteger [PrimaryKey],
      mapped ''name'' False (SString None) [Nullable False, Unique],
      mapped ''type'' False (SEnum ''assettype'' [''WIND'', ''SOLAR'']) [],
      mapped ''capacity_mw'' False SFloat [],
      mapped ''ramp_rate_mw_per_min'' False SFloat []], [])"

definition Telemetry_class :: orm_class where
  "Telemetry_class = (''telemetry'',
     [UniqueConstraint [''asset_id'', ''measured_at''],
      mapped ''id'' False SInteger [PrimaryKey],
      mapped ''asset_id'' False SInteger [ForeignKey ''assets'' ''id'' None, Nullable False],
      mapped ''measured_at'' False SDateTime [Nullable False],
      mapped ''power_mw'' False SFloat []], [])"

definition ForecastRun_class :: orm_class where
  "ForecastRun_class = (''forecast_runs'',
     [mapped ''id'' False SInteger [PrimaryKey],
      mapped ''asset_id'' False SInteger [ForeignKey ''assets'' ''id'' None, Nullable False],
      mapped ''created_at'' False SDateTime [],
      mapped ''horizon_h'' False SInteger [],
      mapped ''mape'' False SFloat [],
      mapped ''model_params_json'' False (SString None) []], [])"

definition ForecastInterval_class :: orm_class where
  "ForecastInterval_class = (''forecast_intervals'',
     [mapped ''id'' False SInteger [PrimaryKey],
      mapped ''run_id'' False SInteger [ForeignKey ''forecast_runs'' ''id'' None, Nullable False],
      mapped ''interval_start'' False SDateTime [],
      mapped ''interval_end'' False SDateTime [],
      mapped ''mean_mw'' False SFloat [],
      mapped ''std_mw'' False SFloat []], [])"

definition Schedule_class :: orm_class where
  "Schedule_class = (''schedules'',
     [mapped ''id'' False (SString None) [PrimaryKey],
      mapped ''portfolio_id'' False SInteger [],
      mapped ''date'' False (SString None) [],
      mapped ''created_at'' False SDateTime []], [])"

definition ScheduleIntervalDB_class :: orm_class where
  "ScheduleIntervalDB_class = (''schedule_intervals'',
     [mapped ''id'' False SInteger [PrimaryKey],
      mapped ''schedule_id'' False (SString None) [ForeignKey ''schedules'' ''id'' None, Nullable False],
      mapped ''asset_id'' False SInteger [],
      mapped ''interval_start'' False SDateTime [],
      mapped ''interval_end'' False SDateTime [],
      mapped ''scheduled_mw'' False SFloat [],
      mapped ''status'' False (SString None) []], [])"

section \<open>All three\<close>

definition create_all :: "orm_class list \<Rightarrow> ddl list" where
  "create_all cs = concat (map (\<lambda>(n, items, idx). CreateTable n items # map CreateIndex (idx @ column_indexes n items)) cs)"

definition grid_classes :: "orm_class list" where
  "grid_classes = [Node_class, LoadReading_class, NodeForecast_class]"

definition slm_classes :: "orm_class list" where
  "slm_classes = [Measurement_class, Alert_class]"

definition portfolio_classes :: "orm_class list" where
  "portfolio_classes = [Asset_class, Telemetry_class, ForecastRun_class, ForecastInterval_class, Schedule_class, ScheduleIntervalDB_class]"

definition migrations :: "(ddl list \<times> ddl list) list" where
  "migrations = [(grid_upgrade, grid_downgrade), (slm_upgrade, slm_downgrade), (portfolio_upgrade, portfolio_downgrade)]"

definition result :: "ddl list \<Rightarrow> schema" where
  "result ops = (case run_ddl None ops schema_empty of Some s \<Rightarrow> s | None \<Rightarrow> schema_empty)"

section \<open>A downgrade undoes its upgrade\<close>

lemma migrations_run:
  "list_all (\<lambda>(up, down). run_ddl None up schema_empty = Some (result up) \<and>
     run_ddl None down (result up) = Some schema_empty \<and>
     list_all (\<lambda>op. new_types op = []) (up @ down)) migrations"
  by code_simp

lemma migration_cases:
  assumes "(up, down) \<in> set migrations"
  shows "run_ddl None up schema_empty = Some (result up)" and "run_ddl None down (result up) = Some schema_empty"
    and "op \<in> set up \<union> set down \<Longrightarrow> new_types op = []"
  using migrations_run assms by (auto simp: list_all_iff)


definition version_table :: schema where
  "version_table = \<lparr>s_tables = [table_of ''alembic_version'' [Column ''version_num'' (SString (Some 32)) [PrimaryKey]]],
     s_indexes = [], s_types = []\<rparr>"

lemma version_table_wf: "schema_wf version_table"
  by (simp add: schema_wf_def version_table_def relations_def) (simp add: table_of_def cols_of_def table_ok_def keys_def col_names_def List.map_filter_def fks_of_def)


section \<open>The classes and the migrated tables\<close>

lemma classes_fit:
  "list_all (\<lambda>(up, cs). run_ddl None (create_all cs) schema_empty = Some (result (create_all cs)) \<and>
      admits (result up) (result (create_all cs)))
     [(grid_upgrade, grid_classes), (slm_upgrade, slm_classes), (portfolio_upgrade, portfolio_classes)]"
  by code_simp

lemma slm_fits_back: "admits (result (create_all slm_classes)) (result slm_upgrade)"
  by code_simp

lemma asset_type_missing:
  "s_types (result (create_all portfolio_classes)) = [''assettype''] \<and> s_types (result portfolio_upgrade) = []"
  by code_simp

text \<open>A run without an error measure, which only the migrated table takes.\<close>

definition null_mape :: "string \<Rightarrow> row list" where
  "null_mape n =
     (if n = ''assets'' then
        [[''id'' \<mapsto> VInt 1, ''name'' \<mapsto> VString ''w'', ''type'' \<mapsto> VString ''WIND'', ''capacity_mw'' \<mapsto> VFloat 10,
          ''ramp_rate_mw_per_min'' \<mapsto> VFloat 1]]
      else if n = ''forecast_runs'' then [[''id'' \<mapsto> VInt 1, ''asset_id'' \<mapsto> VInt 1]] else [])"

text \<open>The tables that a list of operations creates, in order.\<close>

definition created :: "ddl list \<Rightarrow> (string \<times> item list) list" where
  "created ops = List.map_filter (\<lambda>op. case op of CreateTable n items \<Rightarrow> Some (n, items) | _ \<Rightarrow> None) ops"

lemma portfolio_tables:
  "s_tables (result portfolio_upgrade) = map (\<lambda>(n, items). table_of n items) (created portfolio_upgrade)"
  "s_tables (result (create_all portfolio_classes)) = map (\<lambda>(n, items, idx). table_of n items) portfolio_classes"
  by code_simp+

lemmas table_simps = table_of_def cols_of_def List.map_filter_def fks_of_def nullable_def server_default_def
  row_ok_def cell_ok_def col_names_def keys_def key_ok_def

lemma null_mape_migrated: "holds (result portfolio_upgrade) null_mape"
  unfolding holds_def portfolio_tables created_def
  by (simp add: portfolio_upgrade_def List.map_filter_def null_mape_def) (simp add: table_simps)

lemma null_mape_refused: "\<not> holds (result (create_all portfolio_classes)) null_mape"
proof -
  let ?t = "table_of (fst ForecastRun_class) (fst (snd ForecastRun_class))"
  have "?t \<in> set (s_tables (result (create_all portfolio_classes)))"
    unfolding portfolio_tables by (simp add: portfolio_classes_def case_prod_beta)
  moreover have "\<not> (\<forall>r\<in>set (null_mape (t_name ?t)). row_ok ?t r)"
    by (simp add: ForecastRun_class_def null_mape_def mapped_def table_simps ex_bool_eq)
  ultimately show ?thesis unfolding holds_def by blast
qed

text \<open>
  C32. Whatever contents the SQLAlchemy classes of a service admit (types, lengths, nulls, keys, foreign keys and checks),
  the migrated tables admit as well, so that no write of the programs is refused for its values.
\<close>

theorem orm_contents_fit:
  assumes "(up, cs) \<in> set [(grid_upgrade, grid_classes), (slm_upgrade, slm_classes), (portfolio_upgrade, portfolio_classes)]"
    and "holds (result (create_all cs)) db"
  shows "run_ddl None (create_all cs) schema_empty = Some (result (create_all cs)) \<and>
    run_ddl None up schema_empty = Some (result up) \<and> holds (result up) db"
proof -
  have "run_ddl None (create_all cs) schema_empty = Some (result (create_all cs))" "admits (result up) (result (create_all cs))"
    using classes_fit assms(1) by (auto simp: list_all_iff)
  moreover have "run_ddl None up schema_empty = Some (result up)"
    using assms(1) migration_cases(1) by (auto simp: migrations_def)
  ultimately show ?thesis using admits_sound assms(2) by blast
qed

definition one_node :: "string \<Rightarrow> row list" where
  "one_node n =
     (if n = ''nodes'' then [[''node_id'' \<mapsto> VString ''NODE-001'', ''meter_type'' \<mapsto> VString ''residential'']]
      else if n = ''load_readings'' then
        [[''id'' \<mapsto> VInt 1, ''node_id'' \<mapsto> VString ''NODE-001'', ''ts'' \<mapsto> VTime 0, ''kwh'' \<mapsto> VFloat 5,
          ''meter_type'' \<mapsto> VString ''residential'', ''accepted_at'' \<mapsto> VTime 1]]
      else [])"

lemma grid_tables:
  "s_tables (result (create_all grid_classes)) = map (\<lambda>(n, items, idx). table_of n items) grid_classes"
  by code_simp

lemma one_node_orm: "holds (result (create_all grid_classes)) one_node"
  unfolding holds_def grid_tables
  by (simp add: grid_classes_def Node_class_def LoadReading_class_def NodeForecast_class_def one_node_def)
    (simp add: mapped_def table_simps positive_def)

theorem orm_contents_fit_witness: "holds (result grid_upgrade) one_node"
  using orm_contents_fit [of grid_upgrade grid_classes one_node] one_node_orm by simp

text \<open>
  Where they differ: the classes of the analytics service and its migration admit the same
  contents; the migrated portfolio tables also admit rows that the classes do not (a run without
  an error measure); and the enumerated type of \<open>assets.type\<close>, which the classes write, is made by no migration, whose column is a plain string.
\<close>

theorem schemas_diverge:
  "holds (result slm_upgrade) db = holds (result (create_all slm_classes)) db \<and>
   (holds (result portfolio_upgrade) null_mape \<and> \<not> holds (result (create_all portfolio_classes)) null_mape) \<and>
   s_types (result (create_all portfolio_classes)) = [''assettype''] \<and> s_types (result portfolio_upgrade) = []"
proof -
  have "admits (result slm_upgrade) (result (create_all slm_classes))" using classes_fit by simp
  then show ?thesis
    using slm_fits_back admits_sound asset_type_missing null_mape_migrated null_mape_refused by metis
qed

section \<open>TimescaleDB\<close>

text \<open>
  TimescaleDB accepts a table as a hypertable only if its partitioning column is part of every unique
  key, primary key included. Then, wherever the extension is installed, the migration of the portfolio
  service fails and is undone as a whole, because the primary key of \<open>telemetry\<close> is its \<open>id\<close> alone.
\<close>

theorem hypertable_refused:
  assumes "\<And>t c. accepts t c \<Longrightarrow> \<forall>k\<in>set (keys t). c \<in> set k"
  shows "run_ddl (Some accepts) portfolio_upgrade s0 = None"
proof -
  define telemetry where "telemetry = snd (created portfolio_upgrade ! 1)"
  have up: "portfolio_upgrade = hd portfolio_upgrade # CreateTable ''telemetry'' telemetry #
      Hypertable ''telemetry'' ''measured_at'' # drop 3 portfolio_upgrade"
    by (simp add: telemetry_def created_def portfolio_upgrade_def List.map_filter_def)
  have "keys (table_of ''telemetry'' telemetry) = [[''id''], [''asset_id'', ''measured_at'']]"
    unfolding telemetry_def by code_simp
  then have refused: "\<not> accepts (table_of ''telemetry'' telemetry) ''measured_at''"
    using assms [of "table_of ''telemetry'' telemetry" "''measured_at''"] by auto
  have "exec_ddl (Some accepts) (Hypertable ''telemetry'' ''measured_at'') s2 = None"
    if "exec_ddl (Some accepts) (CreateTable ''telemetry'' telemetry) s1 = Some s2" for s1 s2
  proof -
    from that have "s_tables s2 = s_tables s1 @ [table_of ''telemetry'' telemetry]"
      and "\<forall>t\<in>set (s_tables s1). t_name t \<noteq> ''telemetry''"
      by (auto simp: exec_ddl_def Let_def relations_def image_iff split: if_splits)
    then have "find (\<lambda>t. t_name t = ''telemetry'') (s_tables s2) = Some (table_of ''telemetry'' telemetry)"
      by (simp add: find_skip)
    then show ?thesis using refused by (simp add: exec_ddl_def)
  qed
  then show ?thesis by (subst up) (auto split: option.split)
qed

definition timescale :: "table \<Rightarrow> string \<Rightarrow> bool" where
  "timescale t c \<longleftrightarrow> list_all (\<lambda>k. List.member k c) (keys t)"

theorem hypertable_refused_witness: "run_ddl (Some timescale) portfolio_upgrade schema_empty = None"
  by (rule hypertable_refused) (simp add: timescale_def list_all_iff)

end
