(* ===== verification/Grid_Service.thy ===== *)
theory Grid_Service
  imports Grid_Readings
begin

text \<open>
  Tables and service of the grid load forecaster: \<open>app/db/models.py\<close>,
  \<open>app/services/reading_service.py\<close>. A session is the database state its transaction sees; a
  constraint violated at \<open>flush\<close> is an \<open>IntegrityError\<close>. \<open>region\<close> and \<open>commissioned_at\<close> of a node
  are never written by the service and are left out.
\<close>

section \<open>The tables\<close>

record reading_row =
  lr_id :: nat
  lr_node :: string
  lr_ts :: int
  lr_kwh :: real
  lr_meter :: meter
  lr_accepted :: int

record forecast_row =
  f_kwh :: real
  f_at :: int
  f_window :: nat

record grid_db =
  g_nodes :: "string \<rightharpoonup> meter"
  g_rows :: "reading_row list"
  g_forecasts :: "string \<rightharpoonup> forecast_row"
  g_next :: nat

datatype db_error = IntegrityError | SessionBusy | ConnectionLost

text \<open>
  An \<open>INSERT\<close> checks the primary key, the foreign key to \<open>nodes\<close> and \<open>CHECK (kwh > 0)\<close>.
\<close>

definition insert_node :: "grid_db \<Rightarrow> string \<Rightarrow> meter \<Rightarrow> db_error + grid_db" where
  "insert_node db nid m =
     (case g_nodes db nid of
        Some _ \<Rightarrow> Inl IntegrityError
      | None \<Rightarrow> Inr (db\<lparr>g_nodes := (g_nodes db)(nid \<mapsto> m)\<rparr>))"

definition insert_reading :: "int \<Rightarrow> grid_db \<Rightarrow> load_reading \<Rightarrow> db_error + (grid_db \<times> reading_row)" where
  "insert_reading now db r =
     (if g_nodes db (r_node r) = None \<or> \<not> 0 < r_kwh r then Inl IntegrityError
      else let row = \<lparr>lr_id = g_next db, lr_node = r_node r, lr_ts = r_ts r, lr_kwh = r_kwh r,
                      lr_meter = meter_or_default (r_meter r), lr_accepted = now\<rparr>
           in Inr (db\<lparr>g_rows := g_rows db @ [row], g_next := g_next db + 1\<rparr>, row))"

definition db_wf :: "grid_db \<Rightarrow> bool" where
  "db_wf db \<longleftrightarrow>
     (\<forall>row\<in>set (g_rows db). g_nodes db (lr_node row) \<noteq> None \<and> 0 < lr_kwh row \<and> lr_id row < g_next db) \<and>
     distinct (map lr_id (g_rows db)) \<and>
     dom (g_forecasts db) \<subseteq> dom (g_nodes db)"

definition empty_db :: grid_db where
  "empty_db = \<lparr>g_nodes = Map.empty, g_rows = [], g_forecasts = Map.empty, g_next = 1\<rparr>"

lemma db_wf_empty [simp]: "db_wf empty_db"
  by (simp add: db_wf_def empty_db_def)

lemma db_wf_insert_node: "db_wf db \<Longrightarrow> insert_node db nid m = Inr db' \<Longrightarrow> db_wf db'"
  by (auto simp: db_wf_def insert_node_def subset_iff domIff split: option.splits)

lemma db_wf_insert_reading: "db_wf db \<Longrightarrow> insert_reading now db r = Inr (db', row) \<Longrightarrow> db_wf db'"
  by (auto 4 4 simp: db_wf_def insert_reading_def Let_def less_Suc_eq subset_iff domIff
      split: if_splits)

lemma insert_node_Inr_iff:
  "insert_node db nid m = Inr db' \<longleftrightarrow>
     g_nodes db nid = None \<and> db' = db\<lparr>g_nodes := (g_nodes db)(nid \<mapsto> m)\<rparr>"
  by (auto simp: insert_node_def split: option.splits)

section \<open>Ingestion\<close>

definition ensure_node :: "grid_db \<Rightarrow> string \<Rightarrow> meter \<Rightarrow> db_error + grid_db" where
  "ensure_node db nid m =
     (case g_nodes db nid of
        None \<Rightarrow> insert_node db nid m
      | Some _ \<Rightarrow> Inr db)"

definition ingest :: "int \<Rightarrow> grid_db \<Rightarrow> load_reading \<Rightarrow> db_error + (grid_db \<times> reading_row)" where
  "ingest now db r =
     (case ensure_node db (r_node r) (meter_or_default (r_meter r)) of
        Inl e \<Rightarrow> Inl e
      | Inr db1 \<Rightarrow> insert_reading now db1 r)"

text \<open>The stored row and the tables after one reading has been ingested.\<close>

definition row_of :: "int \<Rightarrow> nat \<Rightarrow> load_reading \<Rightarrow> reading_row" where
  "row_of now i r = \<lparr>lr_id = i, lr_node = r_node r, lr_ts = r_ts r, lr_kwh = r_kwh r,
     lr_meter = meter_or_default (r_meter r), lr_accepted = now\<rparr>"

definition add_node :: "(string \<rightharpoonup> meter) \<Rightarrow> load_reading \<Rightarrow> string \<rightharpoonup> meter" where
  "add_node nodes r = (if nodes (r_node r) = None
     then nodes(r_node r \<mapsto> meter_or_default (r_meter r)) else nodes)"

lemma ingest_eq:
  assumes "0 < r_kwh r"
  shows "ingest now db r = Inr (db\<lparr>g_nodes := add_node (g_nodes db) r,
           g_rows := g_rows db @ [row_of now (g_next db) r], g_next := g_next db + 1\<rparr>,
         row_of now (g_next db) r)"
  using assms
  by (auto simp: ingest_def ensure_node_def insert_node_def insert_reading_def row_of_def
      add_node_def Let_def split: option.splits)

lemma db_wf_ingest: "db_wf db \<Longrightarrow> ingest now db r = Inr (db', row) \<Longrightarrow> db_wf db'"
  by (auto simp: ingest_def ensure_node_def split: sum.splits option.splits
      intro: db_wf_insert_node db_wf_insert_reading)

text \<open>
  The whole of \<open>POST /readings\<close>: the body is validated (422 on an error), ingested, and the
  transaction is committed; an exception of the service leaves the database as it was and is
  answered with 500.
\<close>

definition ingest_reading ::
  "int \<Rightarrow> grid_db \<Rightarrow> raw_reading \<Rightarrow> grid_db \<times> (schema_error list, reading_row) response" where
  "ingest_reading now db raw =
     (case validate_reading now raw of
        Inl es \<Rightarrow> (db, Inl (HTTPException 422 es))
      | Inr r \<Rightarrow>
          (case ingest now db r of
             Inl _ \<Rightarrow> (db, Inl (HTTPException 500 []))
           | Inr (db', row) \<Rightarrow> (db', Inr row)))"

definition ok_db :: grid_db where
  "ok_db = \<lparr>g_nodes = [''NODE-001'' \<mapsto> Residential], g_rows =
     [\<lparr>lr_id = 1, lr_node = ''NODE-001'', lr_ts = 100, lr_kwh = 12, lr_meter = Residential, lr_accepted = 110\<rparr>],
     g_forecasts = Map.empty, g_next = 2\<rparr>"

text \<open>
  \<open>POST /readings\<close> on every branch: a valid body is always stored (no constraint can fail),
  as one new row with a fresh id and the reading's own data, and its node is created when it is
  new and left alone when it is known; an invalid body gets 422 and changes nothing; and the
  tables stay well formed (every row and forecast has its node, ids are distinct, loads are
  positive).
\<close>

theorem ingest_reading_spec:
  assumes "db_wf db"
  shows "db_wf (fst (ingest_reading now db raw)) \<and>
    (case validate_reading now raw of
       Inl es \<Rightarrow> ingest_reading now db raw = (db, Inl (HTTPException 422 es))
     | Inr r \<Rightarrow> ingest_reading now db raw =
         (db\<lparr>g_nodes := add_node (g_nodes db) r,
             g_rows := g_rows db @ [row_of now (g_next db) r], g_next := g_next db + 1\<rparr>,
          Inr (row_of now (g_next db) r)) \<and> g_next db \<notin> lr_id ` set (g_rows db))"
proof (cases "validate_reading now raw")
  case (Inl es)
  with assms show ?thesis by (simp add: ingest_reading_def)
next
  case (Inr r)
  then have pos: "0 < r_kwh r" using validate_reading_ok by (auto simp: reading_ok_def)
  have "g_next db \<notin> lr_id ` set (g_rows db)" using assms by (auto simp: db_wf_def)
  with Inr pos assms db_wf_ingest [OF assms ingest_eq [OF pos]] show ?thesis
    by (simp add: ingest_reading_def ingest_eq)
qed

theorem ingest_reading_spec_witness:
  "db_wf (fst (ingest_reading 200 ok_db
     \<lparr>raw_node = '' NODE-002 '', raw_ts = Naive 150, raw_kwh = 3, raw_meter = None\<rparr>))"
  using ingest_reading_spec [of ok_db 200
     "\<lparr>raw_node = '' NODE-002 '', raw_ts = Naive 150, raw_kwh = 3, raw_meter = None\<rparr>"]
  by (simp add: ok_db_def db_wf_def)

section \<open>Queries\<close>

definition in_range :: "int option \<Rightarrow> int option \<Rightarrow> int \<Rightarrow> bool" where
  "in_range from_ts to_ts t \<longleftrightarrow>
     (case from_ts of None \<Rightarrow> True | Some a \<Rightarrow> a \<le> t) \<and>
     (case to_ts of None \<Rightarrow> True | Some b \<Rightarrow> t \<le> b)"

definition get_recent ::
  "(reading_row list \<Rightarrow> reading_row list) \<Rightarrow> grid_db \<Rightarrow> string \<Rightarrow> nat \<Rightarrow> int option \<Rightarrow> int option \<Rightarrow> nat
   \<Rightarrow> reading_row list" where
  "get_recent order db nid limit from_ts to_ts offset =
     page limit offset (order (filter (\<lambda>r. lr_node r = nid \<and> in_range from_ts to_ts (lr_ts r)) (g_rows db)))"

record node_summary =
  s_node :: string
  s_count :: nat
  s_latest :: int
  s_current :: real

definition rows_of :: "grid_db \<Rightarrow> string \<Rightarrow> reading_row list" where
  "rows_of db nid = filter (\<lambda>r. lr_node r = nid) (g_rows db)"

definition summary_of :: "grid_db \<Rightarrow> string \<Rightarrow> node_summary" where
  "summary_of db nid = (let rs = rows_of db nid
     in \<lparr>s_node = nid, s_count = length rs, s_latest = Max (set (map lr_ts rs)),
         s_current = sum_list (map lr_kwh rs) / real (length rs)\<rparr>)"

text \<open>
  \<open>GROUP BY\<close> returns one row per key, in an order SQL leaves open: the argument \<open>groups\<close>.
\<close>

definition get_node_summaries :: "(string list \<Rightarrow> string list) \<Rightarrow> grid_db \<Rightarrow> node_summary list" where
  "get_node_summaries groups db = map (summary_of db) (groups (map lr_node (g_rows db)))"

definition get_forecast_row :: "grid_db \<Rightarrow> string \<Rightarrow> forecast_row option" where
  "get_forecast_row db nid = g_forecasts db nid"

text \<open>
  The upsert changes the three columns of an existing forecast, or inserts a row, whose foreign
  key is checked.
\<close>

definition upsert_forecast :: "int \<Rightarrow> grid_db \<Rightarrow> string \<Rightarrow> real \<Rightarrow> nat \<Rightarrow> db_error + grid_db" where
  "upsert_forecast now db nid kwh window =
     (case g_forecasts db nid of
        Some f \<Rightarrow> Inr (db\<lparr>g_forecasts := (g_forecasts db)
                            (nid \<mapsto> f\<lparr>f_kwh := kwh, f_at := now, f_window := window\<rparr>)\<rparr>)
      | None \<Rightarrow>
          if g_nodes db nid = None then Inl IntegrityError
          else Inr (db\<lparr>g_forecasts := (g_forecasts db)
                         (nid \<mapsto> \<lparr>f_kwh = kwh, f_at = now, f_window = window\<rparr>)\<rparr>))"

lemma upsert_forecast_eq:
  assumes "db_wf db" and "g_nodes db nid \<noteq> None"
  shows "upsert_forecast now db nid kwh w = Inr (db\<lparr>g_forecasts := (g_forecasts db)
           (nid \<mapsto> \<lparr>f_kwh = kwh, f_at = now, f_window = w\<rparr>)\<rparr>)"
proof (cases "g_forecasts db nid")
  case (Some f)
  then show ?thesis by (cases f) (simp add: upsert_forecast_def)
qed (use assms in \<open>simp add: upsert_forecast_def\<close>)

lemma db_wf_upsert:
  "db_wf db \<Longrightarrow> upsert_forecast now db nid kwh w = Inr db' \<Longrightarrow> db_wf db'"
  by (auto simp: upsert_forecast_def db_wf_def subset_iff domIff split: option.splits if_splits)

locale group_by =
  fixes groups :: "'k list \<Rightarrow> 'k list"
  assumes set_groups: "set (groups ks) = set ks"
    and distinct_groups: "distinct (groups ks)"
begin

lemma sum_counts: "(\<Sum>k\<leftarrow>groups (map f xs). length (filter (\<lambda>x. f x = k) xs)) = length xs"
proof -
  have "(\<Sum>k\<leftarrow>groups (map f xs). length (filter (\<lambda>x. f x = k) xs)) =
        (\<Sum>k\<in>set (map f xs). length (filter (\<lambda>x. f x = k) xs))"
    by (simp add: sum_list_distinct_conv_sum_set distinct_groups set_groups)
  also have "\<dots> = length xs"
  proof -
    have "(\<Sum>k\<in>S. length (filter (\<lambda>x. f x = k) ys)) = length ys"
      if "finite S" and "set (map f ys) \<subseteq> S" for S ys
      using that(2)
    proof (induction ys)
      case (Cons y ys)
      have "(\<Sum>k\<in>S. length (filter (\<lambda>x. f x = k) (y # ys))) =
            (\<Sum>k\<in>S. (if k = f y then 1 else 0) + length (filter (\<lambda>x. f x = k) ys))"
        by (rule sum.cong) auto
      with Cons that(1) show ?case by (simp add: sum.distrib)
    qed simp
    then show ?thesis by simp
  qed
  finally show ?thesis .
qed

end

interpretation first_seen: group_by "\<lambda>ks. remdups ks"
  by unfold_locales auto

text \<open>
  \<open>get_recent\<close>: the rows returned are rows of the node within the requested time range, newest
  first, at most \<open>limit\<close> of them and fewer only when the range is exhausted; and every row of
  the range that is not returned and not skipped by the offset is no newer than a returned one.
\<close>

theorem get_recent_spec:
  fixes order :: "reading_row list \<Rightarrow> reading_row list" and db :: grid_db and nid :: string
    and a b :: "int option" and limit offset :: nat
  assumes "order_desc lr_ts order"
  defines "hits \<equiv> filter (\<lambda>r. lr_node r = nid \<and> in_range a b (lr_ts r)) (g_rows db)"
  defines "res \<equiv> get_recent order db nid limit a b offset"
  shows "set res \<subseteq> set hits \<and> length res = min (length hits - offset) limit \<and>
    sorted_wrt (\<lambda>x y. lr_ts y \<le> lr_ts x) res \<and>
    (\<forall>x\<in>set res. \<forall>y\<in>set (drop (offset + limit) (order hits)). lr_ts y \<le> lr_ts x) \<and>
    mset hits = mset (take offset (order hits)) + mset res + mset (drop (offset + limit) (order hits))"
proof -
  have [simp]: "set (order xs) = set xs" "length (order xs) = length xs" for xs
    using order_desc.set_order [OF assms(1)] order_desc.length_order [OF assms(1)] by auto
  have res: "res = take limit (drop offset (order hits))"
    by (simp add: res_def get_recent_def page_def hits_def)
  have split: "order hits = take offset (order hits) @ res @ drop (offset + limit) (order hits)"
    by (metis res add.commute append_take_drop_id drop_drop)
  have "sorted_wrt (\<lambda>x y. lr_ts y \<le> lr_ts x) (order hits)"
    by (rule order_desc.sorted_order [OF assms(1)])
  then have "sorted_wrt (\<lambda>x y. lr_ts y \<le> lr_ts x) res"
    and "\<forall>x\<in>set res. \<forall>y\<in>set (drop (offset + limit) (order hits)). lr_ts y \<le> lr_ts x"
    by (subst (asm) split, auto simp: sorted_wrt_append)+
  moreover have "mset hits = mset (take offset (order hits) @ res @ drop (offset + limit) (order hits))"
    using order_desc.mset_order [OF assms(1), of hits] split by metis
  ultimately show ?thesis
    using set_take_subset [of limit "drop offset (order hits)"]
      set_drop_subset [of offset "order hits"]
    by (auto simp: res min_def)
qed

theorem get_recent_spec_witness:
  "set (get_recent (newest_first lr_ts) ok_db ''NODE-001'' 96 (Some 50) None 0) \<subseteq> set (g_rows ok_db)"
  using get_recent_spec [OF order_desc_newest_first, where db = ok_db and nid = "''NODE-001''"
      and a = "Some 50" and b = None and limit = 96 and offset = 0] by auto

text \<open>
  \<open>get_node_summaries\<close>: each node with readings is reported exactly once, with its number of
  readings, the time of its latest reading and its mean load; the counts add up to the number of
  stored readings. (The field \<open>current_kwh\<close> is the mean over all readings of the node.)
\<close>

theorem get_node_summaries_spec:
  fixes groups :: "string list \<Rightarrow> string list" and db :: grid_db
  assumes "group_by groups"
  defines "S \<equiv> get_node_summaries groups db"
  shows "distinct (map s_node S) \<and> s_node ` set S = lr_node ` set (g_rows db) \<and>
    sum_list (map s_count S) = length (g_rows db) \<and>
    (\<forall>s\<in>set S. 0 < s_count s \<and> s_count s = length (rows_of db (s_node s)) \<and>
       s_latest s \<in> lr_ts ` set (rows_of db (s_node s)) \<and>
       (\<forall>r\<in>set (rows_of db (s_node s)). lr_ts r \<le> s_latest s) \<and>
       real (s_count s) * s_current s = sum_list (map lr_kwh (rows_of db (s_node s))))"
proof -
  have keys: "map s_node S = groups (map lr_node (g_rows db))"
    by (simp add: S_def get_node_summaries_def summary_of_def Let_def comp_def)
  have counts: "map s_count S = map (\<lambda>k. length (rows_of db k)) (groups (map lr_node (g_rows db)))"
    by (simp add: S_def get_node_summaries_def summary_of_def Let_def comp_def)
  have set_S: "set S = summary_of db ` lr_node ` set (g_rows db)"
    using group_by.set_groups [OF assms(1)] by (simp add: S_def get_node_summaries_def)
  have "s_count s > 0 \<and> s_count s = length (rows_of db (s_node s)) \<and>
       s_latest s \<in> lr_ts ` set (rows_of db (s_node s)) \<and>
       (\<forall>r\<in>set (rows_of db (s_node s)). lr_ts r \<le> s_latest s) \<and>
       real (s_count s) * s_current s = sum_list (map lr_kwh (rows_of db (s_node s)))"
    if "s \<in> set S" for s
  proof -
    from that obtain r where r: "r \<in> set (g_rows db)" and s: "s = summary_of db (lr_node r)"
      by (auto simp: set_S)
    let ?rs = "rows_of db (lr_node r)"
    have ne: "?rs \<noteq> []" using r by (auto simp: rows_of_def filter_empty_conv)
    then have "Max (lr_ts ` set ?rs) \<in> lr_ts ` set ?rs" by (intro Max_in) auto
    with ne show ?thesis by (simp add: s summary_of_def Let_def)
  qed
  moreover have "s_node ` set S = lr_node ` set (g_rows db)"
    using keys group_by.set_groups [OF assms(1)] by (metis list.set_map)
  moreover have "distinct (map s_node S)"
    using keys group_by.distinct_groups [OF assms(1)] by simp
  moreover have "sum_list (map s_count S) = length (g_rows db)"
    using group_by.sum_counts [OF assms(1), of lr_node "g_rows db"]
    by (simp add: counts rows_of_def)
  ultimately show ?thesis by blast
qed

theorem get_node_summaries_spec_witness:
  "s_node ` set (get_node_summaries remdups ok_db) = {''NODE-001''}"
  using get_node_summaries_spec [OF first_seen.group_by_axioms, of ok_db] by (simp add: ok_db_def)

end
