(* ===== verification/Grid_Batch.thy ===== *)
theory Grid_Batch
  imports Grid_Service
begin

text \<open>
  The batch endpoint (\<open>app/api/v1/routes.py\<close>, \<open>ingest_batch\<close>) starts one coroutine
  \<open>ReadingService.ingest\<close> per reading on one shared session and gathers them. A coroutine runs
  without interruption between two \<open>await\<close>s, so it is a small state machine: look the node up, add
  the node when the lookup found none, add the reading. Which coroutine runs next is left open.
  A SQLAlchemy session is documented as not safe for concurrent tasks: it may also refuse the statement of a
  coroutine while another one is under way (\<open>InvalidRequestError\<close>, here \<open>SessionBusy\<close>).
\<close>

section \<open>The coroutine of one reading\<close>

datatype task =
    Lookup load_reading | AddNode load_reading | AddReading load_reading
  | Done reading_row | Failed db_error

definition task_step :: "int \<Rightarrow> grid_db \<Rightarrow> task \<Rightarrow> grid_db \<times> task" where
  "task_step now db t =
     (case t of
        Lookup r \<Rightarrow> (db, if g_nodes db (r_node r) = None then AddNode r else AddReading r)
      | AddNode r \<Rightarrow>
          (case insert_node db (r_node r) (meter_or_default (r_meter r)) of
             Inl e \<Rightarrow> (db, Failed e)
           | Inr db' \<Rightarrow> (db', AddReading r))
      | AddReading r \<Rightarrow>
          (case insert_reading now db r of
             Inl e \<Rightarrow> (db, Failed e)
           | Inr (db', row) \<Rightarrow> (db', Done row))
      | Done row \<Rightarrow> (db, Done row)
      | Failed e \<Rightarrow> (db, Failed e))"

fun finished :: "task \<Rightarrow> bool" where
  "finished (Done _) \<longleftrightarrow> True"
| "finished (Failed _) \<longleftrightarrow> True"
| "finished _ \<longleftrightarrow> False"

fun is_failed :: "task \<Rightarrow> bool" where
  "is_failed (Failed _) \<longleftrightarrow> True"
| "is_failed _ \<longleftrightarrow> False"

text \<open>The steps a coroutine still has to take, at most.\<close>

fun steps_left :: "task \<Rightarrow> nat" where
  "steps_left (Lookup _) = 3"
| "steps_left (AddNode _) = 2"
| "steps_left (AddReading _) = 1"
| "steps_left _ = 0"

section \<open>Interleavings\<close>

text \<open>
  One step lets one unfinished coroutine run to its next \<open>await\<close>, or refuses its statement because another
  one is unfinished.
\<close>

definition other_unfinished :: "nat \<Rightarrow> task list \<Rightarrow> bool" where
  "other_unfinished i ts \<longleftrightarrow> list_ex (\<lambda>j. j \<noteq> i \<and> \<not> finished (ts ! j)) [0..<length ts]"

inductive batch_step :: "int \<Rightarrow> grid_db \<times> task list \<Rightarrow> grid_db \<times> task list \<Rightarrow> bool" for now where
  run: "i < length ts \<Longrightarrow> \<not> finished (ts ! i) \<Longrightarrow> task_step now db (ts ! i) = (db', t) \<Longrightarrow>
        batch_step now (db, ts) (db', ts[i := t])"
| refuse: "i < length ts \<Longrightarrow> \<not> finished (ts ! i) \<Longrightarrow> other_unfinished i ts \<Longrightarrow>
        batch_step now (db, ts) (db, ts[i := Failed SessionBusy])"

inductive_cases batch_stepE: "batch_step now s s'"

definition run_turn :: "int \<Rightarrow> nat \<Rightarrow> grid_db \<times> task list \<Rightarrow> grid_db \<times> task list" where
  "run_turn now i s =
     (let (db, ts) = s
      in if i < length ts then let (db', t) = task_step now db (ts ! i) in (db', ts[i := t]) else s)"

definition run_turns :: "int \<Rightarrow> nat list \<Rightarrow> grid_db \<times> task list \<Rightarrow> grid_db \<times> task list" where
  "run_turns now is s = fold (run_turn now) is s"

datatype turn = Turn nat | Refuse nat

definition refuse_turn :: "nat \<Rightarrow> grid_db \<times> task list \<Rightarrow> grid_db \<times> task list" where
  "refuse_turn i s =
     (let (db, ts) = s
      in if i < length ts \<and> \<not> finished (ts ! i) \<and> other_unfinished i ts then (db, ts[i := Failed SessionBusy]) else s)"

definition run_one :: "int \<Rightarrow> turn \<Rightarrow> grid_db \<times> task list \<Rightarrow> grid_db \<times> task list" where
  "run_one now tu s = (case tu of Turn i \<Rightarrow> run_turn now i s | Refuse i \<Rightarrow> refuse_turn i s)"

definition run_schedule :: "int \<Rightarrow> turn list \<Rightarrow> grid_db \<times> task list \<Rightarrow> grid_db \<times> task list" where
  "run_schedule now tus s = fold (run_one now) tus s"

text \<open>
  The endpoint under a schedule: \<open>gather\<close> raises the first exception, and then the request ends
  with 500 and its transaction is rolled back; when every coroutine has returned the transaction
  is committed. A schedule that leaves a coroutine unfinished gives no result.
\<close>

definition ingest_batch ::
  "int \<Rightarrow> turn list \<Rightarrow> grid_db \<Rightarrow> raw_reading list \<Rightarrow> (grid_db \<times> (schema_error list, nat) response) option" where
  "ingest_batch now schedule db raws =
     (case validate_batch now raws of
        Inl es \<Rightarrow> Some (db, Inl (HTTPException 422 es))
      | Inr rs \<Rightarrow>
          (let (db', ts) = run_schedule now schedule (db, map Lookup rs)
           in if list_ex is_failed ts then Some (db, Inl (HTTPException 500 []))
              else if list_all finished ts then Some (db', Inr (length ts))
              else None))"

text \<open>
  The order of asyncio's ready queue when every statement takes equally long: all coroutines take
  their first step, then all their second, then all their third.
\<close>

definition round_robin :: "nat \<Rightarrow> turn list" where
  "round_robin n = map Turn ([0..<n] @ [0..<n] @ [0..<n])"

definition one_by_one :: "nat \<Rightarrow> turn list" where
  "one_by_one n = map Turn (concat (map (\<lambda>i. [i, i, i]) [0..<n]))"

section \<open>Every interleaving keeps the tables consistent\<close>

text \<open>
  The invariant of a coroutine: its reading is valid, and once it has passed the lookup its node
  exists; a finished coroutine's row is in the table.
\<close>

fun task_ok :: "int \<Rightarrow> grid_db \<Rightarrow> load_reading \<Rightarrow> task \<Rightarrow> bool" where
  "task_ok now db r (Lookup q) \<longleftrightarrow> q = r"
| "task_ok now db r (AddNode q) \<longleftrightarrow> q = r"
| "task_ok now db r (AddReading q) \<longleftrightarrow> q = r \<and> g_nodes db (r_node r) \<noteq> None"
| "task_ok now db r (Done row) \<longleftrightarrow> row \<in> set (g_rows db) \<and> row = row_of now (lr_id row) r"
| "task_ok now db r (Failed e) \<longleftrightarrow> e = SessionBusy \<or> g_nodes db (r_node r) \<noteq> None"

fun done_rows :: "task list \<Rightarrow> reading_row multiset" where
  "done_rows [] = {#}"
| "done_rows (t # ts) = (case t of Done row \<Rightarrow> {#row#} | _ \<Rightarrow> {#}) + done_rows ts"

definition batch_inv :: "int \<Rightarrow> grid_db \<Rightarrow> load_reading list \<Rightarrow> grid_db \<times> task list \<Rightarrow> bool" where
  "batch_inv now db0 rs s \<longleftrightarrow>
     (let (db, ts) = s
      in db_wf db \<and> length ts = length rs \<and> (\<forall>i<length rs. task_ok now db (rs ! i) (ts ! i)) \<and>
         g_nodes db0 \<subseteq>\<^sub>m g_nodes db \<and> g_forecasts db = g_forecasts db0 \<and>
         mset (g_rows db) = mset (g_rows db0) + done_rows ts)"

lemma done_rows_update:
  "i < length ts \<Longrightarrow> \<not> finished (ts ! i) \<Longrightarrow>
     done_rows (ts[i := t]) = done_rows ts + (case t of Done row \<Rightarrow> {#row#} | _ \<Rightarrow> {#})"
proof (induction ts arbitrary: i)
  case (Cons u ts)
  show ?case
  proof (cases i)
    case 0
    with Cons.prems show ?thesis by (cases u) auto
  next
    case (Suc j)
    with Cons.IH [of j] Cons.prems show ?thesis by (simp add: ac_simps)
  qed
qed simp

lemma done_rows_lookups [simp]: "done_rows (map Lookup rs) = {#}"
  by (induction rs) auto

text \<open>A step keeps what the other coroutines rely on.\<close>

lemma task_ok_mono:
  assumes "task_ok now db r t" and "g_nodes db \<subseteq>\<^sub>m g_nodes db'" and "set (g_rows db) \<subseteq> set (g_rows db')"
  shows "task_ok now db' r t"
  using assms by (cases t) (auto simp: map_le_def dom_def)

lemma task_step_grows:
  assumes "task_step now db t = (db', t')"
  shows "g_nodes db \<subseteq>\<^sub>m g_nodes db' \<and> set (g_rows db) \<subseteq> set (g_rows db') \<and>
    g_forecasts db' = g_forecasts db \<and> (db_wf db \<longrightarrow> db_wf db') \<and>
    mset (g_rows db') = mset (g_rows db) +
      (if finished t then {#} else case t' of Done row \<Rightarrow> {#row#} | _ \<Rightarrow> {#})"
proof (cases t)
  case (AddNode r)
  with assms show ?thesis
    by (auto simp: task_step_def insert_node_Inr_iff map_le_def db_wf_insert_node [of db]
        split: sum.splits dest: db_wf_insert_node)
next
  case (AddReading r)
  show ?thesis
  proof (cases "insert_reading now db r")
    case (Inl e)
    with AddReading assms show ?thesis by (auto simp: task_step_def)
  next
    case (Inr p)
    obtain db1 row where p: "p = (db1, row)" by (cases p)
    have "g_nodes db1 = g_nodes db \<and> g_forecasts db1 = g_forecasts db \<and> g_rows db1 = g_rows db @ [row]"
      using Inr p by (auto simp: insert_reading_def Let_def split: if_splits)
    with AddReading assms Inr p show ?thesis
      by (auto simp: task_step_def dest: db_wf_insert_reading)
  qed
qed (use assms in \<open>auto simp: task_step_def split: if_splits\<close>)

lemma task_step_ok:
  assumes "task_step now db t = (db', t')" and "task_ok now db r t" and "0 < r_kwh r"
  shows "task_ok now db' r t'"
proof (cases t)
  case (AddNode q)
  with assms show ?thesis
    by (auto simp: task_step_def insert_node_def split: option.splits)
next
  case (AddReading q)
  with assms show ?thesis
    by (auto simp: task_step_def insert_reading_def row_of_def Let_def)
qed (use assms in \<open>auto simp: task_step_def split: if_splits\<close>)

lemma task_step_decreases:
  "\<not> finished t \<Longrightarrow> steps_left (snd (task_step now db t)) < steps_left t"
  by (cases t) (auto simp: task_step_def split: sum.splits)

lemma batch_step_inv:
  assumes step: "batch_step now s s'" and inv: "batch_inv now db0 rs s"
    and pos: "\<forall>r\<in>set rs. 0 < r_kwh r"
  shows "batch_inv now db0 rs s'"
  using step
proof (cases rule: batch_step.cases)
  case (run i ts db db' t)
  from inv have wf: "db_wf db" and len: "length ts = length rs"
    and ok: "\<And>j. j < length rs \<Longrightarrow> task_ok now db (rs ! j) (ts ! j)"
    and nodes: "g_nodes db0 \<subseteq>\<^sub>m g_nodes db" and fc: "g_forecasts db = g_forecasts db0"
    and rows: "mset (g_rows db) = mset (g_rows db0) + done_rows ts"
    by (auto simp: batch_inv_def run)
  note grow = task_step_grows [OF run(5)]
  have "task_ok now db' (rs ! j) (ts[i := t] ! j)" if "j < length rs" for j
  proof (cases "j = i")
    case True
    with task_step_ok [OF run(5) ok [of i]] pos that len run show ?thesis by auto
  next
    case False
    with task_ok_mono [OF ok [OF that]] grow show ?thesis by auto
  qed
  moreover have "g_nodes db0 \<subseteq>\<^sub>m g_nodes db'" using nodes grow map_le_trans by blast
  moreover have "mset (g_rows db') = mset (g_rows db0) + done_rows (ts[i := t])"
    using grow rows run done_rows_update [of i ts t] by (simp add: ac_simps)
  ultimately show ?thesis using wf len fc grow by (auto simp: batch_inv_def run)
next
  case (refuse i ts db)
  have "task_ok now db (rs ! j) (ts[i := Failed SessionBusy] ! j)" if "j < length rs" for j
    using inv that refuse(1) by (cases "j = i") (auto simp: batch_inv_def nth_list_update)
  then show ?thesis using inv refuse done_rows_update [of i ts "Failed SessionBusy"] by (simp add: batch_inv_def)
qed

lemma batch_inv_start: "db_wf db \<Longrightarrow> batch_inv now db rs (db, map Lookup rs)"
  by (auto simp: batch_inv_def)

lemma batch_reachable_inv:
  assumes "(batch_step now)\<^sup>*\<^sup>* (db, map Lookup rs) s" and "db_wf db" and "\<forall>r\<in>set rs. 0 < r_kwh r"
  shows "batch_inv now db rs s"
  using assms(1)
proof (induction rule: rtranclp_induct)
  case base
  with assms(2) show ?case by (rule batch_inv_start)
next
  case (step s s')
  with assms(3) show ?case by (blast intro: batch_step_inv)
qed

text \<open>
  Whatever the order in which the coroutines of a batch run, every state they reach is
  well formed: the new rows are exactly those of the coroutines that have returned, each carries
  the data of its own reading, nodes and forecasts that existed are untouched, and a coroutine
  fails only when the session refuses it or on a node that another one created after its lookup.
\<close>

theorem batch_interleaving_safe:
  assumes "db_wf db" and "validate_batch now raws = Inr rs"
    and "(batch_step now)\<^sup>*\<^sup>* (db, map Lookup rs) (db', ts)"
  shows "db_wf db' \<and> mset (g_rows db') = mset (g_rows db) + done_rows ts \<and>
    (\<forall>i<length rs. case ts ! i of
        Done row \<Rightarrow> row = row_of now (lr_id row) (rs ! i)
      | Failed e \<Rightarrow> e = SessionBusy \<or> g_nodes db' (r_node (rs ! i)) \<noteq> None
      | _ \<Rightarrow> True) \<and>
    g_nodes db \<subseteq>\<^sub>m g_nodes db' \<and> g_forecasts db' = g_forecasts db"
proof -
  have "\<forall>r\<in>set rs. 0 < r_kwh r"
    using validate_batch_ok [OF assms(2)] by (auto simp: reading_ok_def)
  then have inv: "batch_inv now db rs (db', ts)"
    using batch_reachable_inv assms by blast
  then have "\<forall>i<length rs. task_ok now db' (rs ! i) (ts ! i)"
    by (simp add: batch_inv_def)
  then have "\<forall>i<length rs. case ts ! i of
        Done row \<Rightarrow> row = row_of now (lr_id row) (rs ! i)
      | Failed e \<Rightarrow> e = SessionBusy \<or> g_nodes db' (r_node (rs ! i)) \<noteq> None
      | _ \<Rightarrow> True"
    by (auto split: task.split)
  with inv show ?thesis by (simp add: batch_inv_def)
qed

definition raw_ok :: "string \<Rightarrow> raw_reading" where
  "raw_ok nid = \<lparr>raw_node = nid, raw_ts = Aware 10, raw_kwh = 5, raw_meter = None\<rparr>"

definition rd_ok :: "string \<Rightarrow> load_reading" where
  "rd_ok nid = \<lparr>r_node = nid, r_ts = 10, r_kwh = 5, r_meter = Some Residential\<rparr>"

lemma validate_raw_ok:
  "validate_reading 20 (raw_ok ''NEW'') = Inr (rd_ok ''NEW'')"
  by (simp add: validate_reading_def raw_ok_def rd_ok_def check_node_def strip_ws_def is_space_def
      node_char_def no_future_timestamp_def check_kwh_def check_meter_def
      validate_kwh_for_meter_type_def meter_or_default_def Let_def)

lemma validate_batch_raw_ok:
  "validate_batch 20 [raw_ok ''NEW'', raw_ok ''NEW''] = Inr [rd_ok ''NEW'', rd_ok ''NEW'']"
  by (simp add: validate_batch_iff validate_raw_ok max_batch_def)

theorem batch_interleaving_safe_witness:
  "db_wf empty_db \<and> mset (g_rows empty_db) =
     mset (g_rows empty_db) + done_rows [AddNode (rd_ok ''NEW''), Lookup (rd_ok ''NEW'')]"
proof -
  have "batch_step 20 (empty_db, map Lookup [rd_ok ''NEW'', rd_ok ''NEW''])
          (empty_db, [AddNode (rd_ok ''NEW''), Lookup (rd_ok ''NEW'')])"
    using batch_step.run [of 0 "map Lookup [rd_ok ''NEW'', rd_ok ''NEW'']" 20 empty_db empty_db
        "AddNode (rd_ok ''NEW'')"]
    by (simp add: task_step_def empty_db_def)
  then have "(batch_step 20)\<^sup>*\<^sup>* (empty_db, map Lookup [rd_ok ''NEW'', rd_ok ''NEW''])
          (empty_db, [AddNode (rd_ok ''NEW''), Lookup (rd_ok ''NEW'')])"
    by (rule r_into_rtranclp)
  from batch_interleaving_safe [OF db_wf_empty validate_batch_raw_ok this] show ?thesis by blast
qed

section \<open>Termination\<close>

definition work :: "grid_db \<times> task list \<Rightarrow> nat" where
  "work s = sum_list (map steps_left (snd s))"

lemma work_update:
  assumes "i < length ts" and "steps_left t < steps_left (ts ! i)"
  shows "work (db', ts[i := t]) < work (db, ts)"
proof -
  have "sum_list (map steps_left (ts[i := t])) + steps_left (ts ! i) = sum_list (map steps_left ts) + steps_left t"
    using assms(1) by (induction ts arbitrary: i) (auto split: nat.split)
  with assms(2) show ?thesis by (simp add: work_def)
qed

lemma batch_step_work: "batch_step now s s' \<Longrightarrow> work s' < work s"
proof (erule batch_stepE)
  fix i ts db db' t
  assume "s = (db, ts)" "s' = (db', ts[i := t])" "i < length ts" "\<not> finished (ts ! i)" "task_step now db (ts ! i) = (db', t)"
  then show "work s' < work s" using task_step_decreases [of "ts ! i" now db] by (simp add: work_update)
next
  fix i ts db
  assume "s = (db, ts)" "s' = (db, ts[i := Failed SessionBusy])" "i < length ts" "\<not> finished (ts ! i)"
  then show "work s' < work s" by (cases "ts ! i") (simp_all add: work_update)
qed



section \<open>Schedules\<close>

lemma run_turn_step: "run_turn now i s = s \<or> batch_step now s (run_turn now i s)"
proof (cases s)
  case (Pair db ts)
  show ?thesis
  proof (cases "i < length ts \<and> \<not> finished (ts ! i)")
    case True
    obtain db' t where st: "task_step now db (ts ! i) = (db', t)" by (cases "task_step now db (ts ! i)")
    with True batch_step.run [of i ts now db db' t] show ?thesis
      by (simp add: run_turn_def Pair)
  next
    case False
    then have "i < length ts \<Longrightarrow> task_step now db (ts ! i) = (db, ts ! i)"
      by (cases "ts ! i") (auto simp: task_step_def)
    then show ?thesis by (auto simp: run_turn_def Pair)
  qed
qed

lemma run_one_step: "run_one now tu s = s \<or> batch_step now s (run_one now tu s)"
  using run_turn_step batch_step.refuse by (cases tu; cases s) (auto simp: run_one_def refuse_turn_def)

lemma run_schedule_reachable: "(batch_step now)\<^sup>*\<^sup>* s (run_schedule now tus s)"
proof (induction tus arbitrary: s)
  case (Cons tu tus)
  have "(batch_step now)\<^sup>*\<^sup>* s (run_one now tu s)"
    using run_one_step [of now tu s] by auto
  also have "(batch_step now)\<^sup>*\<^sup>* \<dots> (run_schedule now tus (run_one now tu s))" by (rule Cons)
  finally show ?case by (simp add: run_schedule_def)
qed (simp add: run_schedule_def)

lemma run_schedule_Turn: "run_schedule now (map Turn is) s = run_turns now is s"
  unfolding run_schedule_def run_turns_def fold_map by (rule fold_cong) (auto simp: run_one_def)

lemma run_turns_Nil [simp]: "run_turns now [] s = s"
  by (simp add: run_turns_def)

lemma run_turns_append: "run_turns now (is @ js) s = run_turns now js (run_turns now is s)"
  by (simp add: run_turns_def)

lemma length_run_turn [simp]: "length (snd (run_turn now i s)) = length (snd s)"
  by (auto simp: run_turn_def split: prod.splits)

lemma length_run_schedule [simp]: "length (snd (run_turns now is s)) = length (snd s)"
  by (induction "is" arbitrary: s) (auto simp: run_turns_def)

text \<open>One pass over all coroutines, in order.\<close>

fun pass :: "int \<Rightarrow> grid_db \<Rightarrow> task list \<Rightarrow> grid_db \<times> task list" where
  "pass now db [] = (db, [])"
| "pass now db (t # ts) =
     (let (db1, t1) = task_step now db t; (db2, ts2) = pass now db1 ts in (db2, t1 # ts2))"

lemma run_turns_pass_from:
  "run_turns now [length us..<length us + length ts] (db, us @ ts) =
     (fst (pass now db ts), us @ snd (pass now db ts))"
proof (induction ts arbitrary: db us)
  case (Cons t ts)
  obtain db1 t1 where t1: "task_step now db t = (db1, t1)" by (cases "task_step now db t")
  have "[length us..<length us + length (t # ts)] =
        length us # [length (us @ [t1])..<length (us @ [t1]) + length ts]"
    by (simp add: upt_conv_Cons del: upt_Suc)
  moreover have "run_turn now (length us) (db, us @ t # ts) = (db1, (us @ [t1]) @ ts)"
    using t1 by (simp add: run_turn_def nth_append list_update_append)
  ultimately show ?case
    using Cons.IH [of "us @ [t1]" db1] t1
    by (simp add: run_turns_def split: prod.splits)
qed simp

lemma run_turns_pass: "length ts = n \<Longrightarrow> run_turns now [0..<n] (db, ts) = pass now db ts"
  using run_turns_pass_from [of now "[]" ts db] by simp

lemma length_pass [simp]: "length (snd (pass now db ts)) = length ts"
proof (induction ts arbitrary: db)
  case (Cons t ts)
  show ?case
    using Cons.IH [of "fst (task_step now db t)"] by (simp add: case_prod_unfold Let_def)
qed simp

lemma round_robin_pass:
  "length ts = n \<Longrightarrow> run_schedule now (round_robin n) (db, ts) =
     (let s1 = pass now db ts; s2 = pass now (fst s1) (snd s1) in pass now (fst s2) (snd s2))"
  by (simp add: round_robin_def run_schedule_Turn run_turns_append run_turns_pass Let_def del: map_append
      add: run_turns_pass [of "snd s" n now "fst s" for s, unfolded prod.collapse])

section \<open>The endpoint under every schedule\<close>

definition data_of :: "reading_row \<Rightarrow> string \<times> int \<times> real \<times> meter" where
  "data_of row = (lr_node row, lr_ts row, lr_kwh row, lr_meter row)"

definition data_in :: "load_reading \<Rightarrow> string \<times> int \<times> real \<times> meter" where
  "data_in r = (r_node r, r_ts r, r_kwh r, meter_or_default (r_meter r))"

lemma data_of_row_of [simp]: "data_of (row_of now i r) = data_in r"
  by (simp add: data_of_def data_in_def row_of_def)

lemma done_rows_all:
  assumes "length ts = length rs" and "list_all finished ts" and "\<not> list_ex is_failed ts"
    and "\<forall>i<length rs. task_ok now db (rs ! i) (ts ! i)"
  shows "image_mset data_of (done_rows ts) = image_mset data_in (mset rs)"
  using assms
proof (induction ts rs rule: list_induct2)
  case (Cons t ts r rs)
  then have "task_ok now db r t" by auto
  moreover have "\<forall>i<length rs. task_ok now db (rs ! i) (ts ! i)" using Cons.prems(3) by auto
  ultimately show ?case using Cons
    by (cases t) (auto dest!: arg_cong [of _ _ data_of])
qed simp

text \<open>
  C5. A batch is all or nothing under every schedule: it either leaves the database unchanged
  (with 422 or 500), or it answers with the number of its readings and has stored exactly one row
  for each of them, in well-formed tables.
\<close>

theorem ingest_batch_atomic:
  assumes "db_wf db" and "ingest_batch now schedule db raws = Some (db', res)"
  shows "case res of
      Inl e \<Rightarrow> db' = db \<and> (status_code e = 422 \<longleftrightarrow> isl (validate_batch now raws))
    | Inr n \<Rightarrow> n = length raws \<and> db_wf db' \<and>
        image_mset data_of (mset (g_rows db')) = image_mset data_of (mset (g_rows db)) +
          image_mset data_in (mset (map (projr \<circ> validate_reading now) raws))"
proof (cases "validate_batch now raws")
  case (Inl es)
  with assms(2) show ?thesis by (auto simp: ingest_batch_def)
next
  case (Inr rs)
  obtain db1 ts where s: "run_schedule now schedule (db, map Lookup rs) = (db1, ts)"
    by (cases "run_schedule now schedule (db, map Lookup rs)")
  have "\<forall>r\<in>set rs. 0 < r_kwh r"
    using validate_batch_ok [OF Inr] by (auto simp: reading_ok_def)
  then have inv: "batch_inv now db rs (db1, ts)"
    using batch_reachable_inv assms(1) run_schedule_reachable s by metis
  have raws: "map (projr \<circ> validate_reading now) raws = rs" and n: "length raws = length rs"
    using Inr validate_batch_iff [of now raws rs] by (metis list.map_comp map_idI sum.sel(2) comp_apply length_map)+
  show ?thesis
  proof (cases "list_ex is_failed ts")
    case True
    with assms(2) Inr s show ?thesis by (auto simp: ingest_batch_def)
  next
    case False
    with assms(2) Inr s have "list_all finished ts" "db' = db1" "res = Inr (length ts)"
      by (auto simp: ingest_batch_def split: if_splits)
    with False inv raws n done_rows_all [of ts rs now db1] show ?thesis
      by (simp add: batch_inv_def)
  qed
qed

text \<open>Running the coroutines one after the other is ingesting the readings in order.\<close>

fun ingest_all :: "int \<Rightarrow> grid_db \<Rightarrow> load_reading list \<Rightarrow> grid_db" where
  "ingest_all now db [] = db"
| "ingest_all now db (r # rs) =
     (case ingest now db r of Inl _ \<Rightarrow> db | Inr (db', _) \<Rightarrow> ingest_all now db' rs)"

lemma one_task_alone:
  assumes "i < length ts" and "ts ! i = Lookup r" and "ingest now db r = Inr (db', row)"
  shows "run_turns now [i, i, i] (db, ts) = (db', ts[i := Done row])"
proof (cases "g_nodes db (r_node r)")
  case None
  then obtain db1 where db1: "insert_node db (r_node r) (meter_or_default (r_meter r)) = Inr db1"
    by (simp add: insert_node_def)
  with assms None show ?thesis
    by (auto simp: run_turns_def run_turn_def task_step_def ingest_def ensure_node_def
        split: sum.splits)
next
  case (Some m)
  with assms show ?thesis
    by (auto simp: run_turns_def run_turn_def task_step_def ingest_def ensure_node_def
        split: sum.splits)
qed

lemma one_by_one_from:
  assumes "\<forall>r\<in>set rs. 0 < r_kwh r"
  shows "\<exists>rows. run_turns now (concat (map (\<lambda>i. [i, i, i]) [length us..<length us + length rs]))
            (db, us @ map Lookup rs) = (ingest_all now db rs, us @ map Done rows) \<and> length rows = length rs"
  using assms
proof (induction rs arbitrary: us db)
  case (Cons r rs)
  from Cons.prems have pos: "0 < r_kwh r" by simp
  obtain db1 row where ing: "ingest now db r = Inr (db1, row)" using ingest_eq [OF pos] by blast
  have upt: "[length us..<length us + length (r # rs)] =
        length us # [length (us @ [Done row])..<length (us @ [Done row]) + length rs]"
    by (simp add: upt_conv_Cons del: upt_Suc)
  have "run_turns now [length us, length us, length us] (db, us @ map Lookup (r # rs)) =
        (db1, (us @ [Done row]) @ map Lookup rs)"
    using one_task_alone [OF _ _ ing, of "length us" "us @ map Lookup (r # rs)"]
    by (simp add: list_update_append)
  moreover from Cons.IH [of "us @ [Done row]" db1] Cons.prems obtain rows where
    "run_turns now (concat (map (\<lambda>i. [i, i, i])
         [length (us @ [Done row])..<length (us @ [Done row]) + length rs]))
       (db1, (us @ [Done row]) @ map Lookup rs) = (ingest_all now db1 rs, (us @ [Done row]) @ map Done rows)"
    "length rows = length rs"
    by auto
  ultimately have "run_turns now (concat (map (\<lambda>i. [i, i, i]) [length us..<length us + length (r # rs)]))
       (db, us @ map Lookup (r # rs)) = (ingest_all now db1 rs, us @ map Done (row # rows)) \<and>
     length (row # rows) = length (r # rs)"
    unfolding upt list.map concat.simps run_turns_append by simp
  with ing show ?case by (intro exI [of _ "row # rows"]) simp
qed simp

text \<open>
  A valid batch whose readings are ingested one after the other always succeeds, and its
  result is that of ingesting them in order with the single-reading service.
\<close>

theorem batch_one_by_one:
  assumes "validate_batch now raws = Inr rs"
  shows "ingest_batch now (one_by_one (length raws)) db raws =
    Some (ingest_all now db rs, Inr (length raws))"
proof -
  have n: "length raws = length rs"
    using assms validate_batch_iff [of now raws rs] by (metis length_map)
  have "\<forall>r\<in>set rs. 0 < r_kwh r"
    using validate_batch_ok [OF assms] by (auto simp: reading_ok_def)
  with one_by_one_from [of rs now "[]" db] obtain rows where
    "run_schedule now (one_by_one (length rs)) (db, map Lookup rs) = (ingest_all now db rs, map Done rows)"
    "length rows = length rs"
    by (auto simp: one_by_one_def run_schedule_Turn)
  then show ?thesis
    by (simp add: ingest_batch_def assms n list_ex_iff list_all_iff)
qed

theorem batch_one_by_one_witness:
  "ingest_batch 20 [Turn 0, Turn 0, Turn 0, Turn 1, Turn 1, Turn 1] empty_db [raw_ok ''NEW'', raw_ok ''NEW''] =
     Some (ingest_all 20 empty_db [rd_ok ''NEW'', rd_ok ''NEW''], Inr 2)"
  using batch_one_by_one [OF validate_batch_raw_ok, of empty_db]
  by (simp add: one_by_one_def numeral_2_eq_2)

theorem ingest_batch_atomic_witness:
  "\<exists>db'. ingest_batch 20 [Turn 0, Turn 0, Turn 0] empty_db [raw_ok ''NEW''] = Some (db', Inr 1) \<and> db_wf db'"
proof -
  have "validate_batch 20 [raw_ok ''NEW''] = Inr [rd_ok ''NEW'']"
    by (simp add: validate_batch_iff validate_raw_ok max_batch_def)
  moreover have "ingest 20 empty_db (rd_ok ''NEW'') =
      Inr (fst (projr (ingest 20 empty_db (rd_ok ''NEW''))), snd (projr (ingest 20 empty_db (rd_ok ''NEW''))))"
    by (subst (1 2 3) ingest_eq) (auto simp: rd_ok_def)
  ultimately obtain db' where "ingest_batch 20 [Turn 0, Turn 0, Turn 0] empty_db [raw_ok ''NEW''] = Some (db', Inr 1)"
    using one_task_alone [of 0 "[Lookup (rd_ok ''NEW'')]" "rd_ok ''NEW''" 20 empty_db]
      run_schedule_Turn [of 20 "[0, 0, 0]" "(empty_db, [Lookup (rd_ok ''NEW'')])"]
    by (fastforce simp: ingest_batch_def)
  with ingest_batch_atomic [OF db_wf_empty this] show ?thesis by auto
qed

section \<open>The coroutines in lock step\<close>

definition new_ids :: "grid_db \<Rightarrow> load_reading list \<Rightarrow> string list" where
  "new_ids db rs = filter (\<lambda>n. g_nodes db n = None) (map r_node rs)"

definition looked_up :: "grid_db \<Rightarrow> load_reading \<Rightarrow> task" where
  "looked_up db r = (if g_nodes db (r_node r) = None then AddNode r else AddReading r)"

lemma pass_lookups: "pass now db (map Lookup rs) = (db, map (looked_up db) rs)"
  by (induction rs) (auto simp: task_step_def looked_up_def)

text \<open>
  In the second pass a coroutine that saw no node inserts it, and fails when another coroutine
  has inserted it since.
\<close>

lemma pass_adds:
  assumes "\<forall>r\<in>set rs. 0 < r_kwh r" and "g_nodes db0 \<subseteq>\<^sub>m g_nodes db"
  shows "list_ex is_failed (snd (pass now db (map (looked_up db0) rs))) \<longleftrightarrow>
    \<not> (distinct (new_ids db0 rs) \<and> (\<forall>n\<in>set (new_ids db0 rs). g_nodes db n = None))"
  using assms
proof (induction rs arbitrary: db)
  case (Cons r rs)
  note IH = Cons.IH
  have tail: "\<forall>r\<in>set rs. 0 < r_kwh r" and pos: "0 < r_kwh r" using Cons.prems by auto
  show ?case
  proof (cases "g_nodes db0 (r_node r)")
    case (Some m)
    then have "g_nodes db (r_node r) = Some m" using Cons.prems(2) by (metis domI map_le_def)
    then have "task_step now db (AddReading r) =
      (db\<lparr>g_rows := g_rows db @ [row_of now (g_next db) r], g_next := g_next db + 1\<rparr>,
       Done (row_of now (g_next db) r))"
      using pos by (simp add: task_step_def insert_reading_def row_of_def Let_def)
    with Some IH [OF tail, of "db\<lparr>g_rows := g_rows db @ [row_of now (g_next db) r], g_next := g_next db + 1\<rparr>"]
      Cons.prems(2)
    show ?thesis by (simp add: looked_up_def new_ids_def case_prod_unfold Let_def)
  next
    case None
    show ?thesis
    proof (cases "g_nodes db (r_node r)")
      case (Some m)
      with None show ?thesis
        by (auto simp: looked_up_def new_ids_def task_step_def insert_node_def split: prod.splits)
    next
      case None': None
      let ?db = "db\<lparr>g_nodes := (g_nodes db)(r_node r \<mapsto> meter_or_default (r_meter r))\<rparr>"
      have "task_step now db (AddNode r) = (?db, AddReading r)"
        using None' by (simp add: task_step_def insert_node_def)
      moreover have "g_nodes db0 \<subseteq>\<^sub>m g_nodes ?db"
        using Cons.prems(2) None by (auto simp: map_le_def)
      then have ih: "list_ex is_failed (snd (pass now ?db (map (looked_up db0) rs))) \<longleftrightarrow>
          \<not> (distinct (new_ids db0 rs) \<and> (\<forall>n\<in>set (new_ids db0 rs). g_nodes ?db n = None))"
        by (intro IH [OF tail]) (simp del: fun_upd_apply)
      ultimately have "list_ex is_failed (snd (pass now db (map (looked_up db0) (r # rs)))) \<longleftrightarrow>
          \<not> (distinct (new_ids db0 rs) \<and> (\<forall>n\<in>set (new_ids db0 rs). g_nodes ?db n = None))"
        using None by (simp add: looked_up_def [of _ r] ih case_prod_unfold Let_def del: fun_upd_apply)
      moreover have "new_ids db0 (r # rs) = r_node r # new_ids db0 rs"
        using None by (simp add: new_ids_def)
      ultimately show ?thesis using None' by auto
    qed
  qed
qed (simp add: new_ids_def)

fun settled :: "grid_db \<Rightarrow> task \<Rightarrow> bool" where
  "settled db (AddReading r) \<longleftrightarrow> g_nodes db (r_node r) \<noteq> None \<and> 0 < r_kwh r"
| "settled db (Lookup r) \<longleftrightarrow> False"
| "settled db (AddNode r) \<longleftrightarrow> False"
| "settled db t \<longleftrightarrow> True"

lemma settled_mono: "settled db t \<Longrightarrow> g_nodes db \<subseteq>\<^sub>m g_nodes db' \<Longrightarrow> settled db' t"
  by (cases t) (auto simp: map_le_def dom_def)

lemma map_le_trans' [trans]: "a \<subseteq>\<^sub>m b \<Longrightarrow> b \<subseteq>\<^sub>m c \<Longrightarrow> a \<subseteq>\<^sub>m c"
  by (rule map_le_trans)

lemma pass_nodes: "g_nodes db \<subseteq>\<^sub>m g_nodes (fst (pass now db ts))"
proof (induction ts arbitrary: db)
  case (Cons t ts)
  have "g_nodes db \<subseteq>\<^sub>m g_nodes (fst (task_step now db t))"
    using task_step_grows [of now db t] by (metis prod.collapse)
  also have "\<dots> \<subseteq>\<^sub>m g_nodes (fst (pass now (fst (task_step now db t)) ts))" by (rule Cons)
  finally show ?case by (simp add: case_prod_unfold Let_def)
qed simp

lemma pass_settles:
  assumes "\<forall>r\<in>set rs. 0 < r_kwh r" and "g_nodes db0 \<subseteq>\<^sub>m g_nodes db"
  shows "list_all (settled (fst (pass now db (map (looked_up db0) rs)))) (snd (pass now db (map (looked_up db0) rs)))"
  using assms
proof (induction rs arbitrary: db)
  case (Cons r rs)
  obtain db1 t where st: "task_step now db (looked_up db0 r) = (db1, t)"
    by (cases "task_step now db (looked_up db0 r)")
  have grow: "g_nodes db \<subseteq>\<^sub>m g_nodes db1" using task_step_grows [OF st] by simp
  have "settled db1 t"
    using st Cons.prems
    by (auto simp: looked_up_def task_step_def insert_node_def insert_reading_def Let_def
        split: if_splits option.splits)
  then have "settled (fst (pass now db1 (map (looked_up db0) rs))) t"
    using pass_nodes settled_mono by blast
  moreover have "list_all (settled (fst (pass now db1 (map (looked_up db0) rs))))
                   (snd (pass now db1 (map (looked_up db0) rs)))"
    using Cons.IH [of db1] Cons.prems grow map_le_trans by auto
  ultimately show ?case by (simp add: st case_prod_unfold Let_def)
qed simp

lemma pass_finishes:
  assumes "list_all (settled db) ts"
  shows "list_all finished (snd (pass now db ts)) \<and>
    (list_ex is_failed (snd (pass now db ts)) \<longleftrightarrow> list_ex is_failed ts)"
  using assms
proof (induction ts arbitrary: db)
  case (Cons t ts)
  obtain db1 u where st: "task_step now db t = (db1, u)" by (cases "task_step now db t")
  have "finished u \<and> (is_failed u \<longleftrightarrow> is_failed t)"
    using st Cons.prems
    by (cases t) (auto simp: task_step_def insert_reading_def Let_def split: if_splits)
  moreover have "list_all (settled db1) ts"
    using Cons.prems settled_mono task_step_grows [OF st] by (auto simp: list_all_iff)
  ultimately show ?case using Cons.IH [of db1] by (simp add: st case_prod_unfold Let_def)
qed simp

text \<open>
  When the coroutines of a valid batch advance in lock step, as equal round trips to the database make
  them, the endpoint fails with 500 exactly when two readings name the same node that does not
  exist yet; otherwise it accepts the batch. A batch for one new node is therefore refused,
  although the same readings are accepted one after the other.
\<close>

theorem batch_lock_step:
  assumes "validate_batch now raws = Inr rs"
  shows "(ingest_batch now (round_robin (length raws)) db raws = Some (db, Inl (HTTPException 500 [])) \<longleftrightarrow>
      \<not> distinct (new_ids db rs)) \<and>
    (distinct (new_ids db rs) \<longrightarrow>
      (\<exists>db'. ingest_batch now (round_robin (length raws)) db raws = Some (db', Inr (length raws))))"
proof -
  have n: "length raws = length rs"
    using assms validate_batch_iff [of now raws rs] by (metis length_map)
  have pos: "\<forall>r\<in>set rs. 0 < r_kwh r"
    using validate_batch_ok [OF assms] by (auto simp: reading_ok_def)
  let ?s2 = "pass now db (map (looked_up db) rs)"
  let ?s3 = "pass now (fst ?s2) (snd ?s2)"
  have run: "run_schedule now (round_robin (length rs)) (db, map Lookup rs) = ?s3"
    by (simp add: round_robin_pass pass_lookups Let_def)
  have failed2: "list_ex is_failed (snd ?s2) \<longleftrightarrow> \<not> distinct (new_ids db rs)"
    using pass_adds [OF pos, of db db now] by (auto simp: new_ids_def)
  have "list_all finished (snd ?s3) \<and> (list_ex is_failed (snd ?s3) \<longleftrightarrow> \<not> distinct (new_ids db rs))"
    using pass_finishes [OF pass_settles [OF pos, of db db now], of now] failed2 by simp
  moreover have "length (snd ?s3) = length rs" by simp
  ultimately show ?thesis
    by (simp add: ingest_batch_def assms n run case_prod_unfold Let_def)
qed

theorem batch_lock_step_witness:
  "ingest_batch 20 [Turn 0, Turn 1, Turn 0, Turn 1, Turn 0, Turn 1] empty_db [raw_ok ''NEW'', raw_ok ''NEW''] =
     Some (empty_db, Inl (HTTPException 500 []))"
  using batch_lock_step [OF validate_batch_raw_ok, of empty_db]
  by (simp add: round_robin_def new_ids_def rd_ok_def empty_db_def numeral_2_eq_2)

end
