(* ===== verification/Grid_Forecast.thy ===== *)
theory Grid_Forecast
  imports Prelude
begin

text \<open>
  The numerical core of the grid load service (\<open>grid_load_forecasting/app/workers/forecaster.py\<close>):
  the sliding-sum moving average and the anomaly flags.

  \<open>compute_sma_fl\<close> takes the rounding of floating-point operations and Python's \<open>sum\<close> (which
  compensates its rounding since Python 3.12) as arguments; \<open>compute_sma\<close> is its exact instance.
\<close>

section \<open>compute_sma\<close>

type_synonym sma_series = "real option list"

text \<open>One pass of the loop body: the window sum loses one reading and gains the next.\<close>

definition sma_slide :: "(real \<Rightarrow> real) \<Rightarrow> real list \<Rightarrow> nat \<Rightarrow> nat \<Rightarrow> real \<times> sma_series \<Rightarrow> real \<times> sma_series" where
  "sma_slide rnd readings k i st =
     (let (window_sum, result) = st;
          window_sum = rnd (window_sum + rnd (readings ! i - readings ! (i - k)))
      in (window_sum, result[i := Some (rnd (window_sum / real k))]))"

definition compute_sma_fl :: "(real \<Rightarrow> real) \<Rightarrow> (real list \<Rightarrow> real) \<Rightarrow> real list \<Rightarrow> int \<Rightarrow> sma_series" where
  "compute_sma_fl rnd py_sum readings k =
     (let n = length readings;
          result = replicate n None
      in if k \<le> 0 \<or> int n < k then result
         else let w = nat k;
                  window_sum = py_sum (take w readings);
                  result = result[w - 1 := Some (rnd (window_sum / real w))]
              in snd (fold (sma_slide rnd readings w) [w..<n] (window_sum, result)))"

definition compute_sma :: "real list \<Rightarrow> int \<Rightarrow> sma_series" where
  "compute_sma = compute_sma_fl id sum_list"

subsection \<open>The reference: every window summed afresh\<close>

definition window :: "real list \<Rightarrow> nat \<Rightarrow> nat \<Rightarrow> real list" where
  "window readings k i = take k (drop (Suc i - k) readings)"

definition window_mean :: "real list \<Rightarrow> nat \<Rightarrow> nat \<Rightarrow> real" where
  "window_mean readings k i = sum_list (window readings k i) / real k"

definition naive_sma :: "real list \<Rightarrow> int \<Rightarrow> sma_series" where
  "naive_sma readings k =
     map (\<lambda>i. if 0 < k \<and> k \<le> int (length readings) \<and> nat k \<le> Suc i
              then Some (window_mean readings (nat k) i) else None) [0..<length readings]"

lemma window_slide:
  assumes "0 < k" and "k \<le> i" and "i < length readings"
  shows "sum_list (window readings k i) =
         sum_list (window readings k (i - 1)) + (readings ! i - readings ! (i - k))"
proof -
  let ?xs = "drop (i - k) readings"
  have i: "Suc i - k = Suc (i - k)" "Suc (i - 1) - k = i - k" "i - k + k = i" "Suc (i - Suc 0) = i"
    using assms by auto
  have nn: "?xs \<noteq> []" using assms by auto
  have "window readings k i = take k (tl ?xs)"
    by (simp add: window_def i drop_Suc drop_tl)
  moreover have "window readings k (i - 1) = take k ?xs"
    by (simp add: window_def i)
  moreover have "take (Suc k) ?xs = hd ?xs # take k (tl ?xs)"
    using nn by (cases ?xs) auto
  moreover have "take (Suc k) ?xs = take k ?xs @ [?xs ! k]"
    using assms by (intro take_Suc_conv_app_nth) simp
  moreover have "hd ?xs = readings ! (i - k)" "?xs ! k = readings ! i"
    using assms by (simp_all add: hd_drop_conv_nth)
  ultimately have "readings ! (i - k) + sum_list (window readings k i) =
      sum_list (window readings k (i - 1)) + readings ! i"
    by (metis sum_list.Cons sum_list_append sum_list.Nil add.right_neutral)
  then show ?thesis by simp
qed

lemma window_first: "0 < k \<Longrightarrow> window readings k (k - 1) = take k readings"
  by (simp add: window_def)

subsection \<open>The loop invariant\<close>

text \<open>
  After the loop has processed index \<open>j\<close>: positions up to \<open>j\<close> from \<open>k - 1\<close> on hold an average
  close to their window's mean, all others \<open>None\<close>, and the running sum is within \<open>E j\<close> of the
  sum of the window that ends at \<open>j\<close>. Each pass adds two roundings.
\<close>

definition drift :: "real \<Rightarrow> nat \<Rightarrow> nat \<Rightarrow> real" where
  "drift e k j = (real k + 2 * (real j - (real k - 1))) * e"

definition sma_inv :: "real \<Rightarrow> real list \<Rightarrow> nat \<Rightarrow> nat \<Rightarrow> real \<times> sma_series \<Rightarrow> bool" where
  "sma_inv e readings k j st \<longleftrightarrow>
     length (snd st) = length readings \<and>
     \<bar>fst st - sum_list (window readings k j)\<bar> \<le> drift e k j \<and>
     (\<forall>i<length readings.
        (k - 1 \<le> i \<and> i \<le> j \<longrightarrow>
           (\<exists>v. snd st ! i = Some v \<and> \<bar>v - window_mean readings k i\<bar> \<le> drift e k i / real k + e)) \<and>
        (i < k - 1 \<or> j < i \<longrightarrow> snd st ! i = None))"

lemma abs_sum_list_bound:
  fixes xs :: "real list"
  assumes "\<forall>x\<in>set xs. \<bar>x\<bar> \<le> M"
  shows "\<bar>sum_list xs\<bar> \<le> real (length xs) * M"
  using assms by (induction xs) (auto simp: algebra_simps abs_le_iff)

lemma abs_le_sum_list_abs:
  fixes xs :: "real list"
  shows "\<forall>x\<in>set xs. \<bar>x\<bar> \<le> sum_list (map abs xs)" and "0 \<le> sum_list (map abs xs)"
proof -
  have nn: "0 \<le> sum_list (map abs ys)" for ys :: "real list"
    by (induction ys) auto
  then show "0 \<le> sum_list (map abs xs)" .
  show "\<forall>x\<in>set xs. \<bar>x\<bar> \<le> sum_list (map abs xs)"
    by (induction xs) (auto intro: order_trans nn)
qed

lemma abs_sum_window:
  assumes "\<forall>x\<in>set readings. \<bar>x\<bar> \<le> M" and "0 \<le> M"
  shows "\<bar>sum_list (window readings k i)\<bar> \<le> real k * M"
proof -
  have "\<forall>x\<in>set (window readings k i). \<bar>x\<bar> \<le> M"
    using assms(1) by (auto simp: window_def dest: in_set_takeD in_set_dropD)
  from abs_sum_list_bound [OF this]
  have "\<bar>sum_list (window readings k i)\<bar> \<le> real (length (window readings k i)) * M" .
  also have "\<dots> \<le> real k * M"
    using assms(2) by (intro mult_right_mono) (simp_all add: window_def)
  finally show ?thesis .
qed

lemma drift_Suc: "drift e k (Suc j) = drift e k j + 2 * e"
  by (simp add: drift_def algebra_simps)

lemma drift_nonneg: "0 \<le> e \<Longrightarrow> k \<le> Suc j \<Longrightarrow> 0 \<le> drift e k j"
  by (simp add: drift_def)

lemma drift_mono: "0 \<le> e \<Longrightarrow> i \<le> j \<Longrightarrow> drift e k i \<le> drift e k j"
  by (simp add: drift_def mult_right_mono)

text \<open>What the arithmetic has to satisfy on a series of \<open>n\<close> readings of magnitude at most \<open>M\<close>.\<close>

definition rounds :: "(real \<Rightarrow> real) \<Rightarrow> real \<Rightarrow> real \<Rightarrow> bool" where
  "rounds rnd B e \<longleftrightarrow> 0 \<le> e \<and> (\<forall>x. \<bar>x\<bar> \<le> B \<longrightarrow> \<bar>rnd x - x\<bar> \<le> e)"

lemma average_close:
  assumes "rounds rnd B e" and "0 < k" and "\<bar>w - S\<bar> \<le> d" and "\<bar>S\<bar> \<le> real k * M" and "real k * M + d \<le> B"
  shows "\<bar>rnd (w / real k) - S / real k\<bar> \<le> d / real k + e"
proof -
  have k: "1 \<le> real k" using assms(2) by simp
  have "\<bar>w\<bar> \<le> B" using assms(3-5) by linarith
  moreover have "\<bar>w / real k\<bar> \<le> \<bar>w\<bar>"
    using k by (simp add: divide_le_eq mult_left_le_one_le mult_le_cancel_left1)
  ultimately have "\<bar>rnd (w / real k) - w / real k\<bar> \<le> e"
    using assms(1) by (simp add: rounds_def)
  moreover have "\<bar>w / real k - S / real k\<bar> \<le> d / real k"
    using assms(2,3) by (simp flip: diff_divide_distrib add: divide_right_mono)
  ultimately show ?thesis by linarith
qed

lemma sma_slide_inv:
  assumes inv: "sma_inv e readings k j st" and k: "0 < k" "k \<le> Suc j" and j: "Suc j < length readings"
    and r: "rounds rnd B e" and M: "\<forall>x\<in>set readings. \<bar>x\<bar> \<le> M" "0 \<le> M"
    and B: "(real k + 2) * M + drift e k (length readings) + e \<le> B"
  shows "sma_inv e readings k (Suc j) (sma_slide rnd readings k (Suc j) st)"
proof -
  obtain w res where st: "st = (w, res)" by (cases st)
  let ?i = "Suc j"
  let ?a = "readings ! ?i - readings ! (?i - k)"
  let ?d = "rnd ?a" and ?S = "sum_list (window readings k j)" and ?S' = "sum_list (window readings k ?i)"
  let ?w = "rnd (w + rnd ?a)"
  have e: "0 \<le> e" using r by (simp add: rounds_def)
  have kM: "0 \<le> real k * M" using M(2) by simp
  have ws: "\<bar>w - ?S\<bar> \<le> drift e k j" using inv by (simp add: sma_inv_def st)
  have dr: "drift e k j + 2 * e \<le> drift e k (length readings)"
    using drift_mono [of e ?i "length readings" k] j e by (simp add: drift_Suc)
  have Bs: "real k * M + 2 * M + drift e k (length readings) + e \<le> B"
    using B by (simp add: algebra_simps)
  have S: "\<bar>?S\<bar> \<le> real k * M" "\<bar>?S'\<bar> \<le> real k * M"
    using abs_sum_window [OF M] by auto
  have "\<bar>readings ! ?i\<bar> \<le> M" "\<bar>readings ! (?i - k)\<bar> \<le> M"
    using j M(1) by simp_all
  then have a: "\<bar>?a\<bar> \<le> 2 * M" by linarith
  have d0: "0 \<le> drift e k j" using drift_nonneg e k by simp
  have "\<bar>?a\<bar> \<le> B" using a Bs kM dr d0 e by linarith
  then have d: "\<bar>?d - ?a\<bar> \<le> e" using r by (simp add: rounds_def)
  have "\<bar>w + ?d\<bar> \<le> B" using ws S a d Bs dr e by linarith
  then have w': "\<bar>?w - (w + ?d)\<bar> \<le> e" using r by (simp add: rounds_def)
  have slide: "?S' = ?S + ?a"
    using window_slide [of k ?i readings] k j by simp
  have close: "\<bar>?w - ?S'\<bar> \<le> drift e k ?i"
    using ws d w' by (simp add: slide drift_Suc) linarith
  have "real k * M + drift e k ?i \<le> B" using Bs dr M(2) e by (simp add: drift_Suc)
  from average_close [OF r k(1) close S(2) this]
  have avg: "\<bar>rnd (?w / real k) - window_mean readings k ?i\<bar> \<le> drift e k ?i / real k + e"
    by (simp add: window_mean_def)
  show ?thesis
    using inv close avg j k by (auto simp: sma_inv_def sma_slide_def st Let_def nth_list_update le_Suc_eq)
qed

lemma sma_fold_inv:
  assumes "sma_inv e readings k j st" and "0 < k" and "k \<le> Suc j" and "j + m < length readings"
    and "rounds rnd B e" and "\<forall>x\<in>set readings. \<bar>x\<bar> \<le> M" and "0 \<le> M"
    and "(real k + 2) * M + drift e k (length readings) + e \<le> B"
  shows "sma_inv e readings k (j + m) (fold (sma_slide rnd readings k) [Suc j..<Suc (j + m)] st)"
  using assms(4)
proof (induction m)
  case 0
  then show ?case using assms(1) by simp
next
  case (Suc m)
  then have "sma_inv e readings k (Suc (j + m))
      (sma_slide rnd readings k (Suc (j + m)) (fold (sma_slide rnd readings k) [Suc j..<Suc (j + m)] st))"
    using assms by (intro sma_slide_inv) auto
  then show ?case by simp
qed

lemma compute_sma_fl_inv:
  assumes k: "0 < k" "k \<le> int (length readings)" and r: "rounds rnd B e"
    and M: "\<forall>x\<in>set readings. \<bar>x\<bar> \<le> M" "0 \<le> M"
    and B: "(real (nat k) + 2) * M + drift e (nat k) (length readings) + e \<le> B"
    and sum: "\<bar>py_sum (take (nat k) readings) - sum_list (take (nat k) readings)\<bar> \<le> real_of_int k * e"
  shows "\<exists>w. sma_inv e readings (nat k) (length readings - 1) (w, compute_sma_fl rnd py_sum readings k)"
proof -
  let ?k = "nat k" and ?n = "length readings"
  let ?s = "py_sum (take ?k readings)"
  let ?st = "(?s, (replicate ?n None)[?k - 1 := Some (rnd (?s / real ?k))])"
  have kn: "0 < ?k" "?k \<le> ?n" "?k \<le> Suc (?k - 1)" using k by auto
  have win: "sum_list (take ?k readings) = sum_list (window readings ?k (?k - 1))"
    by (simp only: window_first [OF kn(1)])
  have e: "0 \<le> e" using r by (simp add: rounds_def)
  have close: "\<bar>?s - sum_list (window readings ?k (?k - 1))\<bar> \<le> drift e ?k (?k - 1)"
    using sum kn k by (simp add: win drift_def of_nat_diff)
  have "drift e ?k (?k - 1) \<le> drift e ?k ?n" using drift_mono e kn by simp
  then have "real ?k * M + drift e ?k (?k - 1) \<le> B" using B M(2) e by (simp add: algebra_simps)
  from average_close [OF r kn(1) close abs_sum_window [OF M] this]
  have "sma_inv e readings ?k (?k - 1) ?st"
    using close kn by (auto simp: sma_inv_def nth_list_update window_mean_def)
  moreover have "?k - 1 + (?n - ?k) = ?n - 1" "Suc (?k - 1) = ?k" "Suc (?n - 1) = ?n"
    using kn by auto
  ultimately have "sma_inv e readings ?k (?n - 1) (fold (sma_slide rnd readings ?k) [?k..<?n] ?st)"
    using sma_fold_inv [of e readings ?k "?k - 1" ?st "?n - ?k" rnd B M] kn r M B by simp
  moreover have "compute_sma_fl rnd py_sum readings k = snd (fold (sma_slide rnd readings ?k) [?k..<?n] ?st)"
    using k by (simp add: compute_sma_fl_def Let_def)
  ultimately show ?thesis by (metis prod.collapse)
qed

subsection \<open>The two theorems\<close>

lemma rounds_id: "rounds id B 0"
  by (simp add: rounds_def)

text \<open>
  C6. Exactness: with exact arithmetic the O(n) sliding sum computes, at every position and for
  every window size (zero, negative and oversized ones included), what summing each window afresh
  computes.
\<close>

theorem compute_sma_eq_naive: "compute_sma readings k = naive_sma readings k"
proof (cases "0 < k \<and> k \<le> int (length readings)")
  case False
  then have out: "k \<le> 0 \<or> int (length readings) < k" by linarith
  then have "compute_sma readings k = replicate (length readings) None"
    unfolding compute_sma_def compute_sma_fl_def Let_def by (simp only: if_True)
  moreover have "naive_sma readings k = map (\<lambda>_. None) [0..<length readings]"
    unfolding naive_sma_def using False by (intro map_cong refl if_not_P) blast
  ultimately show ?thesis by (simp only: map_replicate_const length_upt diff_zero)
next
  case True
  let ?M = "sum_list (map abs readings)"
  have M: "\<forall>x\<in>set readings. \<bar>x\<bar> \<le> ?M" "0 \<le> ?M"
    by (rule abs_le_sum_list_abs)+
  from compute_sma_fl_inv [OF _ _ rounds_id M order_refl, of k sum_list] True
  obtain w where inv: "sma_inv 0 readings (nat k) (length readings - 1) (w, compute_sma readings k)"
    by (auto simp: compute_sma_def)
  show ?thesis
  proof (rule nth_equalityI)
    show len: "length (compute_sma readings k) = length (naive_sma readings k)"
      using inv by (simp add: sma_inv_def naive_sma_def)
    show "compute_sma readings k ! i = naive_sma readings k ! i" if "i < length (compute_sma readings k)" for i
    proof -
      have "i < length readings" using that inv by (simp add: sma_inv_def)
      then show ?thesis
        using inv True by (auto simp: sma_inv_def naive_sma_def drift_def not_le less_eq_Suc_le)
    qed
  qed
qed

text \<open>
  C27. Rounding: when every operation on magnitudes up to \<open>B\<close> errs by at most \<open>e\<close>, the average
  stored at position \<open>i\<close> differs from the exact mean of its window by at most
  \<open>(k + 2 * (i - (k - 1))) * e / k + e\<close>: the error of the sliding sum grows by two roundings per
  position and is never forgotten.
\<close>

theorem compute_sma_drift:
  assumes "0 < k" and "k \<le> int (length readings)" and "rounds rnd B e"
    and "\<forall>x\<in>set readings. \<bar>x\<bar> \<le> M" and "0 \<le> M"
    and "(real (nat k) + 2) * M + drift e (nat k) (length readings) + e \<le> B"
    and "\<bar>py_sum (take (nat k) readings) - sum_list (take (nat k) readings)\<bar> \<le> real_of_int k * e"
    and "nat k \<le> Suc i" and "i < length readings"
  shows "\<exists>v. compute_sma_fl rnd py_sum readings k ! i = Some v \<and>
             \<bar>v - window_mean readings (nat k) i\<bar> \<le>
               (real_of_int k + 2 * (real i - (real_of_int k - 1))) * e / real_of_int k + e"
proof -
  from compute_sma_fl_inv [where py_sum = py_sum, OF assms(1-7)] obtain w
    where "sma_inv e readings (nat k) (length readings - 1) (w, compute_sma_fl rnd py_sum readings k)"
    by blast
  moreover have "nat k - 1 \<le> i" "i \<le> length readings - 1" "real (nat k) = real_of_int k"
    using assms(1,8,9) by auto
  ultimately show ?thesis
    using assms(9) by (simp add: sma_inv_def drift_def)
qed

theorem compute_sma_eq_naive_example:
  "compute_sma [1, 2, 3, 4, 5] 3 = [None, None, Some 2, Some 3, Some 4]"
  by (simp add: compute_sma_def compute_sma_fl_def sma_slide_def upt_rec Let_def)

text \<open>A witness for the rounding bound: arithmetic that rounds every result to thousandths.\<close>

definition round_milli :: "real \<Rightarrow> real" where
  "round_milli x = of_int (round (x * 1000)) / 1000"

lemma rounds_round_milli: "rounds round_milli B (1 / 2000)"
proof -
  have "\<bar>round_milli x - x\<bar> \<le> 1 / 2000" for x
    using of_int_round_abs_le [of "x * 1000"] by (simp add: round_milli_def abs_le_iff field_simps)
  then show ?thesis by (simp add: rounds_def)
qed

theorem compute_sma_drift_witness:
  "\<exists>v. compute_sma_fl round_milli sum_list [1, 2, 5, 8] 3 ! 3 = Some v \<and> \<bar>v - 5\<bar> \<le> 1 / 750"
  using compute_sma_drift [of 3 "[1, 2, 5, 8]", OF _ _ rounds_round_milli [of 100], of 8 sum_list 3]
  by (simp add: drift_def window_mean_def window_def)

section \<open>compute_anomalies\<close>

text \<open>A flagged reading: its index, its energy and its distance from the average in deviations.\<close>

record anomaly =
  a_index :: nat
  a_kwh :: real
  a_zscore :: real

definition flag_at :: "real \<Rightarrow> nat \<times> real \<times> real option \<Rightarrow> anomaly list" where
  "flag_at std irs =
     (let (i, r, s) = irs
      in case s of
           None \<Rightarrow> []
         | Some v \<Rightarrow>
             (let diff = \<bar>r - v\<bar>
              in if 0 < std \<and> 2 * std < diff
                 then [\<lparr>a_index = i, a_kwh = r, a_zscore = round3 (diff / std)\<rparr>] else []))"

definition compute_anomalies :: "real list \<Rightarrow> sma_series \<Rightarrow> anomaly list" where
  "compute_anomalies readings sma =
     (if length readings < 2 then []
      else let std = stdev readings
           in concat (map (flag_at std) (enumerate 0 (zip readings sma))))"

lemma round3_2: "round3 2 = 2"
  by (simp add: round3_def round_half_even_def)

text \<open>The positions the code flags.\<close>

definition anomalous :: "real list \<Rightarrow> sma_series \<Rightarrow> nat \<Rightarrow> bool" where
  "anomalous readings sma i \<longleftrightarrow>
     (case sma ! i of None \<Rightarrow> False
      | Some v \<Rightarrow> 0 < stdev readings \<and> 2 * stdev readings < \<bar>readings ! i - v\<bar>)"

definition anomaly_of :: "real list \<Rightarrow> sma_series \<Rightarrow> nat \<Rightarrow> anomaly" where
  "anomaly_of readings sma i =
     \<lparr>a_index = i, a_kwh = readings ! i,
      a_zscore = round3 (\<bar>readings ! i - the (sma ! i)\<bar> / stdev readings)\<rparr>"

lemma concat_map_filter:
  "(\<And>i. i \<in> set is \<Longrightarrow> f i = (if P i then [g i] else [])) \<Longrightarrow>
   concat (map f is) = map g (filter P is)"
  by (induction "is") auto

lemma compute_anomalies_eq:
  assumes "2 \<le> length readings"
  shows "compute_anomalies readings sma =
    map (anomaly_of readings sma)
      (filter (anomalous readings sma) [0..<min (length readings) (length sma)])"
proof -
  let ?n = "min (length readings) (length sma)"
  have "enumerate 0 (zip readings sma) = map (\<lambda>i. (i, readings ! i, sma ! i)) [0..<?n]"
    by (rule nth_equalityI) (simp_all add: nth_enumerate_eq)
  then have "compute_anomalies readings sma =
      concat (map (\<lambda>i. flag_at (stdev readings) (i, readings ! i, sma ! i)) [0..<?n])"
    using assms by (simp add: compute_anomalies_def Let_def comp_def)
  also have "\<dots> = map (anomaly_of readings sma) (filter (anomalous readings sma) [0..<?n])"
    by (rule concat_map_filter)
      (auto simp: flag_at_def anomalous_def anomaly_of_def Let_def split: option.split)
  finally show ?thesis .
qed

text \<open>
  The anomaly flags: fewer than two readings give none; otherwise the flagged indices are, in
  ascending order, exactly the positions with an average whose reading is more than two standard
  deviations of the series from it (none when the deviation is zero), each flag carries its
  reading, and its z-score is the ratio rounded to thousandths, never below 2.
\<close>

theorem compute_anomalies_spec:
  "map a_index (compute_anomalies readings sma) =
     (if length readings < 2 then []
      else filter (anomalous readings sma) [0..<min (length readings) (length sma)]) \<and>
   list_all (\<lambda>a. a_kwh a = readings ! a_index a \<and> 2 \<le> a_zscore a \<and>
       \<bar>a_zscore a - \<bar>readings ! a_index a - the (sma ! a_index a)\<bar> / stdev readings\<bar> \<le> 1 / 2000)
     (compute_anomalies readings sma)"
proof (cases "length readings < 2")
  case True
  then show ?thesis by (simp add: compute_anomalies_def)
next
  case False
  have ratio: "2 \<le> \<bar>readings ! i - the (sma ! i)\<bar> / stdev readings" if "anomalous readings sma i" for i
    using that by (auto simp: anomalous_def field_simps split: option.splits)
  show ?thesis
    using False ratio round3_close round3_ge2
    by (simp add: compute_anomalies_eq comp_def list_all_iff anomaly_of_def)
qed

lemma stdev_constant: "stdev (replicate n c) = 0"
proof (cases "n = 0")
  case False
  then have "sum_list (replicate n c) / real (length (replicate n c)) = c"
    by (simp add: sum_list_replicate)
  then show ?thesis
    unfolding stdev_def Let_def by (simp add: sum_list_replicate)
qed (simp add: stdev_def)

end
