(* ===== verification/Grid_Api.thy ===== *)
theory Grid_Api
  imports Grid_Service Grid_Forecast
begin

text \<open>
  The reading endpoints of the grid forecaster (\<open>app/api/v1/routes.py\<close>) and the forecast worker
  (\<open>app/workers/forecaster.py\<close>), on top of the service and of \<open>compute_sma\<close> and
  \<open>compute_anomalies\<close>. \<open>k\<close> is \<open>settings.SMA_WINDOW_SIZE\<close>; the orderings of the queries are
  arguments. Times are microseconds; \<open>isoformat\<close> renders them in the responses.
\<close>

datatype api_error = InvalidParameter | NoReadings string | DbUnavailable | InternalError

section \<open>Health, readings and nodes\<close>

definition health :: "bool \<Rightarrow> (api_error, string) response" where
  "health db_up = (if db_up then Inr ''ok'' else Inl (HTTPException 503 DbUnavailable))"

text \<open>\<open>limit\<close> must be in \<open>1..1000\<close> and \<open>offset\<close> not negative.\<close>

definition get_readings ::
  "(reading_row list \<Rightarrow> reading_row list) \<Rightarrow> grid_db \<Rightarrow> string \<Rightarrow> int \<Rightarrow> int \<Rightarrow> int option \<Rightarrow> int option
   \<Rightarrow> (api_error, reading_row list) response" where
  "get_readings order db nid limit offset from_ts to_ts =
     (if limit < 1 \<or> 1000 < limit \<or> offset < 0 then Inl (HTTPException 422 InvalidParameter)
      else Inr (get_recent order db nid (nat limit) from_ts to_ts (nat offset)))"

definition list_nodes :: "(string list \<Rightarrow> string list) \<Rightarrow> grid_db \<Rightarrow> (api_error, node_summary list) response" where
  "list_nodes groups db = Inr (get_node_summaries groups db)"

section \<open>The forecast endpoint\<close>

datatype confidence = Low | Medium | High

text \<open>Confidence levels are ordered.\<close>

fun rank :: "confidence \<Rightarrow> nat" where
  "rank Low = 0" | "rank Medium = 1" | "rank High = 2"

lemma rank_inject: "rank a = rank b \<longleftrightarrow> a = b"
  by (cases a; cases b) auto

instantiation confidence :: linorder
begin

definition less_eq_confidence :: "confidence \<Rightarrow> confidence \<Rightarrow> bool" where
  "less_eq_confidence a b \<longleftrightarrow> rank a \<le> rank b"

definition less_confidence :: "confidence \<Rightarrow> confidence \<Rightarrow> bool" where
  "less_confidence a b \<longleftrightarrow> rank a < rank b"

instance
  by standard (auto simp: less_eq_confidence_def less_confidence_def rank_inject [symmetric])

end

record horizon_point =
  h_step :: nat
  h_ts :: int
  h_kwh :: "real option"

record raw_point =
  p_ts :: int
  p_kwh :: real
  p_sma :: "real option"

record anomaly_flag =
  af_ts :: int
  af_kwh :: real
  af_zscore :: real

record forecast_response =
  fr_node :: string
  fr_kwh :: "real option"
  fr_at :: "int option"
  fr_window :: nat
  fr_confidence :: confidence
  fr_raw :: "raw_point list"
  fr_flags :: "anomaly_flag list"
  fr_horizon :: "horizon_point list"

text \<open>\<open>next((v for v in reversed(xs) if v is not None), None)\<close>\<close>

definition last_some :: "'a option list \<Rightarrow> 'a option" where
  "last_some xs = (case find (\<lambda>v. v \<noteq> None) (rev xs) of Some v \<Rightarrow> v | None \<Rightarrow> None)"

definition confidence_of :: "nat \<Rightarrow> nat \<Rightarrow> confidence" where
  "confidence_of k n = (if k * 4 \<le> n then High else if k \<le> n then Medium else Low)"

definition quarter_hour :: int where
  "quarter_hour = 15 * 60 * 1000000"

definition horizon_of :: "int \<Rightarrow> real option \<Rightarrow> nat \<Rightarrow> horizon_point list" where
  "horizon_of last_ts kwh steps =
     map (\<lambda>i. \<lparr>h_step = i + 1, h_ts = last_ts + quarter_hour * int (i + 1), h_kwh = kwh\<rparr>) [0..<steps]"

definition get_forecast ::
  "(reading_row list \<Rightarrow> reading_row list) \<Rightarrow> nat \<Rightarrow> grid_db \<Rightarrow> string \<Rightarrow> int
   \<Rightarrow> (api_error, forecast_response) response" where
  "get_forecast order k db nid horizon_steps =
     (if horizon_steps < 1 \<or> 24 < horizon_steps then Inl (HTTPException 422 InvalidParameter)
      else let rows = get_recent order db nid (k * 4) None None 0
      in if rows = [] then Inl (HTTPException 404 (NoReadings nid))
      else let rows_asc = rev rows;
               kwh_series = map lr_kwh rows_asc;
               sma_series = compute_sma kwh_series (int k);
               anomalies = compute_anomalies kwh_series sma_series;
               last_sma = last_some sma_series;
               rec = get_forecast_row db nid;
               kwh = (case rec of Some f \<Rightarrow> Some (f_kwh f) | None \<Rightarrow> last_sma)
      in Inr \<lparr>fr_node = nid, fr_kwh = kwh, fr_at = map_option f_at rec, fr_window = k,
              fr_confidence = confidence_of k (length kwh_series),
              fr_raw = map (\<lambda>(i, r). \<lparr>p_ts = lr_ts r, p_kwh = lr_kwh r, p_sma = sma_series ! i\<rparr>)
                         (enumerate 0 rows_asc),
              fr_flags = map (\<lambda>a. \<lparr>af_ts = lr_ts (rows_asc ! a_index a), af_kwh = a_kwh a,
                                   af_zscore = a_zscore a\<rparr>) anomalies,
              fr_horizon = horizon_of (lr_ts (last rows_asc)) kwh (nat horizon_steps)\<rparr>)"

section \<open>The last moving average\<close>

lemma length_naive_sma [simp]: "length (naive_sma xs k) = length xs"
  by (simp add: naive_sma_def)

text \<open>The \<open>k\<close> newest readings of a node, newest first.\<close>

definition newest_kwh :: "(reading_row list \<Rightarrow> reading_row list) \<Rightarrow> grid_db \<Rightarrow> string \<Rightarrow> nat \<Rightarrow> real list" where
  "newest_kwh order db nid k = map lr_kwh (take k (order (rows_of db nid)))"

lemma last_some_naive_sma:
  "last_some (naive_sma xs (int k)) =
     (if 0 < k \<and> k \<le> length xs then Some (sum_list (drop (length xs - k) xs) / real k) else None)"
proof (cases "0 < k \<and> k \<le> length xs")
  case True
  then obtain m where m: "length xs = Suc m" by (cases xs) auto
  have "naive_sma xs (int k) = map (\<lambda>i. if k \<le> Suc i then Some (window_mean xs k i) else None) [0..<m] @
      [Some (window_mean xs k m)]"
    using True m by (simp add: naive_sma_def)
  moreover have "window_mean xs k m = sum_list (drop (length xs - k) xs) / real k"
    using True m by (simp add: window_mean_def window_def)
  ultimately show ?thesis using True by (simp add: last_some_def)
next
  case False
  have "naive_sma xs (int k) = map (\<lambda>i. None) [0..<length xs]"
    unfolding naive_sma_def using False by (intro map_cong refl) auto
  then have "\<forall>v\<in>set (rev (naive_sma xs (int k))). v = None" by auto
  then have "find (\<lambda>v. v \<noteq> None) (rev (naive_sma xs (int k))) = None"
    by (auto simp: find_None_iff)
  with False show ?thesis by (auto simp: last_some_def)
qed

lemma get_recent_all:
  "get_recent order db nid n None None 0 = take n (order (rows_of db nid))"
  by (simp add: get_recent_def page_def in_range_def rows_of_def)

lemma last_sma_of_recent:
  fixes order :: "reading_row list \<Rightarrow> reading_row list"
  assumes "\<And>rows. length (order rows) = length rows"
  shows "last_some (compute_sma (map lr_kwh (rev (get_recent order db nid (k * 4) None None 0))) (int k)) =
    (if 0 < k \<and> k \<le> length (rows_of db nid)
     then Some (sum_list (newest_kwh order db nid k) / real k) else None)"
proof -
  let ?rows = "order (rows_of db nid)"
  let ?xs = "map lr_kwh (rev (take (k * 4) ?rows))"
  have "drop (length ?xs - k) ?xs = map lr_kwh (rev (take k ?rows))" if "k \<le> length ?rows"
    using that by (simp add: drop_map drop_rev min_def)
  then have "sum_list (drop (length ?xs - k) ?xs) = sum_list (map lr_kwh (take k ?rows))"
    if "k \<le> length ?rows" using that by (simp add: rev_map [symmetric] sum_list_rev)
  then show ?thesis
    unfolding get_recent_all compute_sma_eq_naive last_some_naive_sma newest_kwh_def
    by (auto simp: assms)
qed

text \<open>More readings never lower the confidence.\<close>

lemma confidence_mono: "m \<le> n \<Longrightarrow> confidence_of k m \<le> confidence_of k n"
  by (auto simp: confidence_of_def less_eq_confidence_def)

lemma horizon_nth:
  "i < steps \<Longrightarrow> horizon_of t v steps ! i =
     \<lparr>h_step = i + 1, h_ts = t + quarter_hour * int (i + 1), h_kwh = v\<rparr>"
  by (simp add: horizon_of_def)

lemma length_horizon [simp]: "length (horizon_of t v steps) = steps"
  by (simp add: horizon_of_def)

text \<open>
  The forecast endpoint on every branch: 422 for a horizon outside \<open>1..24\<close>, 404 for a node
  without readings, and otherwise a forecast that is the worker's stored one or, when there is
  none, the mean of the \<open>k\<close> newest readings; one horizon point per step, fifteen minutes apart
  after the newest reading and all with that value; a confidence that is high from \<open>4 k\<close> readings,
  medium from \<open>k\<close> and low below; and at most \<open>4 k\<close> raw points.
\<close>

theorem get_forecast_spec:
  assumes "order_desc lr_ts order" and "0 < k"
  shows "get_forecast order k db nid steps =
      (if steps < 1 \<or> 24 < steps then Inl (HTTPException 422 InvalidParameter)
       else if rows_of db nid = [] then Inl (HTTPException 404 (NoReadings nid))
       else Inr (projr (get_forecast order k db nid steps))) \<and>
    (1 \<le> steps \<and> steps \<le> 24 \<and> rows_of db nid \<noteq> [] \<longrightarrow>
      (let fr = projr (get_forecast order k db nid steps);
           n = length (rows_of db nid);
           kwh = (case g_forecasts db nid of
                    Some f \<Rightarrow> Some (f_kwh f)
                  | None \<Rightarrow> if k \<le> n then Some (sum_list (newest_kwh order db nid k) / real k) else None)
       in fr_kwh fr = kwh \<and>
          fr_horizon fr = horizon_of (Max (lr_ts ` set (rows_of db nid))) kwh (nat steps) \<and>
          (fr_confidence fr = High \<longleftrightarrow> 4 * k \<le> n) \<and> (fr_confidence fr = Low \<longleftrightarrow> n < k) \<and>
          length (fr_raw fr) = min (4 * k) n \<and> fr_window fr = k))"
proof -
  have len: "length (order rows) = length rows" for rows
    using order_desc.length_order [OF assms(1)] by blast
  let ?rows = "take (k * 4) (order (rows_of db nid))"
  have empty: "?rows = [] \<longleftrightarrow> rows_of db nid = []"
    using assms(2) len by (metis length_0_conv mult_is_0 not_gr_zero take_eq_Nil zero_neq_numeral)
  have newest: "lr_ts (last (rev ?rows)) = Max (lr_ts ` set (rows_of db nid))" if "rows_of db nid \<noteq> []"
  proof -
    have "last (rev ?rows) = hd (order (rows_of db nid))"
      using that empty by (simp add: last_rev hd_take assms(2))
    then show ?thesis
      using order_desc.hd_order_max [OF assms(1) that] order_desc.hd_order_in [OF assms(1) that]
      by (intro Max_eqI [symmetric]) auto
  qed
  have conf: "(confidence_of k (length ?rows) = High \<longleftrightarrow> 4 * k \<le> length (rows_of db nid)) \<and>
      (confidence_of k (length ?rows) = Low \<longleftrightarrow> length (rows_of db nid) < k)"
    using assms(2) by (auto simp: confidence_of_def len)
  show ?thesis
    using last_sma_of_recent [of order db nid k, OF len] newest conf empty assms(2) len
    by (simp add: get_forecast_def get_recent_all Let_def get_forecast_row_def min.commute
        mult.commute del: take_all take_all_iff split: option.splits)
qed

definition three_rows :: grid_db where
  "three_rows = \<lparr>g_nodes = [''NODE-001'' \<mapsto> Residential], g_rows =
     map (\<lambda>i. \<lparr>lr_id = i, lr_node = ''NODE-001'', lr_ts = int i, lr_kwh = real (2 * i), lr_meter = Residential,
              lr_accepted = 9\<rparr>) [1, 2, 3], g_forecasts = Map.empty, g_next = 4\<rparr>"

theorem get_forecast_spec_witness:
  "fr_kwh (projr (get_forecast (newest_first lr_ts) 2 three_rows ''NODE-001'' 4)) = Some 5"
  using get_forecast_spec [OF order_desc_newest_first, of 2 three_rows "''NODE-001''" 4]
  by (simp add: three_rows_def rows_of_def newest_kwh_def newest_first_def insort_key_def Let_def
      numeral_2_eq_2 del: One_nat_def)

end
