(* ===== verification/Grid_Worker.thy ===== *)
theory Grid_Worker
  imports Grid_Api
begin

text \<open>
  The background worker of the grid forecaster (\<open>ForecastWorker\<close> in
  \<open>app/workers/forecaster.py\<close>): one cycle over the node summaries, with its metrics, its error
  path and its reaction to the stop event, and the loop of cycles. What the outside world decides
  during a cycle is a record of its own.
\<close>

section \<open>One cycle\<close>

record worker_metrics =
  m_forecast :: "string \<rightharpoonup> real"
  m_anomalies :: "string \<Rightarrow> nat"

record cycle =
  c_db :: grid_db
  c_metrics :: worker_metrics
  c_processed :: nat
  c_found :: nat
  c_error :: "db_error option"

text \<open>
  The environment of a cycle: the query orderings, whether the stop event is set at the loop head
  (\<open>e_stopping\<close>) and before the \<open>i\<close>-th node (\<open>e_stop\<close>), the clock at each upsert, and where the
  database fails: at the summaries (\<open>e_down\<close>), in a statement for the \<open>i\<close>-th node (\<open>e_fail\<close>) or at the
  commit (\<open>e_commit_fails\<close>).
\<close>

record cycle_env =
  e_order :: "reading_row list \<Rightarrow> reading_row list"
  e_groups :: "string list \<Rightarrow> string list"
  e_stopping :: bool
  e_stop :: "nat \<Rightarrow> bool"
  e_clock :: "nat \<Rightarrow> int"
  e_down :: bool
  e_fail :: "nat \<Rightarrow> bool"
  e_commit_fails :: bool

definition visit_node :: "nat \<Rightarrow> cycle_env \<Rightarrow> nat \<Rightarrow> string \<Rightarrow> cycle \<Rightarrow> cycle" where
  "visit_node k env i nid c =
     (let rows = get_recent (e_order env) (c_db c) nid (k * 4) None None 0
      in if rows = [] then c
         else
           let kwh_series = map lr_kwh (rev rows);
               sma = compute_sma kwh_series (int k);
               c1 = (case last_some sma of
                       None \<Rightarrow> c
                     | Some v \<Rightarrow>
                         (case upsert_forecast (e_clock env i) (c_db c) nid v k of
                            Inl e \<Rightarrow> c\<lparr>c_error := Some e\<rparr>
                          | Inr db \<Rightarrow> c\<lparr>c_db := db,
                              c_metrics := (c_metrics c)\<lparr>m_forecast := (m_forecast (c_metrics c))(nid \<mapsto> v)\<rparr>\<rparr>))
           in if c_error c1 \<noteq> None then c1
              else
                let anomalies = compute_anomalies kwh_series sma;
                    n = length anomalies;
                    c2 = (if anomalies = [] then c1
                          else c1\<lparr>c_metrics := (c_metrics c1)\<lparr>m_anomalies :=
                                      (m_anomalies (c_metrics c1))(nid := m_anomalies (c_metrics c1) nid + n)\<rparr>,
                                  c_found := c_found c1 + n\<rparr>)
                in c2\<lparr>c_processed := c_processed c2 + 1\<rparr>)"

text \<open>The loop over the summaries leaves on a stop event and on an exception.\<close>

fun visit_nodes :: "nat \<Rightarrow> cycle_env \<Rightarrow> nat \<Rightarrow> string list \<Rightarrow> cycle \<Rightarrow> cycle" where
  "visit_nodes k env i [] c = c"
| "visit_nodes k env i (nid # nids) c =
     (if e_stop env i then c
      else if e_fail env i then c\<lparr>c_error := Some ConnectionLost\<rparr>
      else let c' = visit_node k env i nid c
           in if c_error c' \<noteq> None then c' else visit_nodes k env (i + 1) nids c')"

text \<open>
  A cycle commits unless an exception left the session, which rolls the transaction back; the
  metrics are not part of the transaction. The result says whether the worker next sleeps five
  seconds after an error.
\<close>

record worker =
  w_db :: grid_db
  w_metrics :: worker_metrics

definition worker_cycle :: "nat \<Rightarrow> cycle_env \<Rightarrow> worker \<Rightarrow> bool \<times> worker" where
  "worker_cycle k env w =
     (if e_down env then (True, w)
      else let summaries = get_node_summaries (e_groups env) (w_db w);
               c = visit_nodes k env 0 (map s_node summaries)
                     \<lparr>c_db = w_db w, c_metrics = w_metrics w, c_processed = 0, c_found = 0, c_error = None\<rparr>
           in if c_error c = None \<and> \<not> e_commit_fails env then (False, \<lparr>w_db = c_db c, w_metrics = c_metrics c\<rparr>)
              else (True, w\<lparr>w_metrics := c_metrics c\<rparr>))"

text \<open>
  The loop, over the environments of its iterations: it ends when the stop event is set at its
  head. The second component counts the iterations that ran.
\<close>

fun worker_run :: "nat \<Rightarrow> cycle_env list \<Rightarrow> worker \<Rightarrow> nat \<times> worker" where
  "worker_run k [] w = (0, w)"
| "worker_run k (env # envs) w =
     (if e_stopping env then (0, w)
      else let (n, w') = worker_run k envs (snd (worker_cycle k env w)) in (n + 1, w'))"

section \<open>What a visit does\<close>

definition cycle_ok :: "cycle_env \<Rightarrow> bool" where
  "cycle_ok env \<longleftrightarrow> order_desc lr_ts (e_order env) \<and> group_by (e_groups env)"

text \<open>The forecast of a node after its visit.\<close>

definition forecast_after :: "nat \<Rightarrow> cycle_env \<Rightarrow> grid_db \<Rightarrow> nat \<Rightarrow> string \<Rightarrow> forecast_row option" where
  "forecast_after k env db i nid =
     (if 0 < k \<and> k \<le> length (rows_of db nid)
      then Some \<lparr>f_kwh = sum_list (newest_kwh (e_order env) db nid k) / real k, f_at = e_clock env i, f_window = k\<rparr>
      else g_forecasts db nid)"

lemma visit_node_eq:
  assumes "cycle_ok env" and "db_wf (c_db c)" and "c_error c = None"
    and "nid \<in> lr_node ` set (g_rows (c_db c))"
  shows "c_error (visit_node k env i nid c) = None \<and>
    c_db (visit_node k env i nid c) = (c_db c)\<lparr>g_forecasts :=
      (g_forecasts (c_db c))(nid := forecast_after k env (c_db c) i nid)\<rparr>"
proof -
  have len: "length (e_order env rows) = length rows" for rows
    using assms(1) order_desc.length_order unfolding cycle_ok_def by blast
  have node: "g_nodes (c_db c) nid \<noteq> None" using assms(2,4) by (auto simp: db_wf_def)
  have sma: "last_some (compute_sma (map lr_kwh (rev (get_recent (e_order env) (c_db c) nid (k * 4) None None 0))) (int k)) =
    (if 0 < k \<and> k \<le> length (rows_of (c_db c) nid)
     then Some (sum_list (newest_kwh (e_order env) (c_db c) nid k) / real k) else None)"
    by (rule last_sma_of_recent [OF len])
  have "length (get_recent (e_order env) (c_db c) nid (k * 4) None None 0) = min (length (rows_of (c_db c) nid)) (k * 4)"
    by (simp add: get_recent_all len)
  then have rows: "get_recent (e_order env) (c_db c) nid (k * 4) None None 0 = [] \<Longrightarrow>
      \<not> (0 < k \<and> k \<le> length (rows_of (c_db c) nid))"
    by auto
  show ?thesis
  proof (cases "0 < k \<and> k \<le> length (rows_of (c_db c) nid)")
    case True
    with rows have "get_recent (e_order env) (c_db c) nid (k * 4) None None 0 \<noteq> []" by blast
    with True show ?thesis
      using sma upsert_forecast_eq [OF assms(2) node] assms(3)
      by (simp add: visit_node_def forecast_after_def Let_def)
  next
    case False
    then have "c_db c = (c_db c)\<lparr>g_forecasts := (g_forecasts (c_db c))(nid := forecast_after k env (c_db c) i nid)\<rparr>"
      by (auto simp: forecast_after_def)
    with False show ?thesis
      using sma assms(3) by (auto simp: visit_node_def Let_def)
  qed
qed

text \<open>The nodes a cycle visits before the stop event is seen.\<close>

fun visited :: "cycle_env \<Rightarrow> nat \<Rightarrow> string list \<Rightarrow> string list" where
  "visited env i [] = []"
| "visited env i (nid # nids) = (if e_stop env i then [] else nid # visited env (i + 1) nids)"

lemma set_visited: "set (visited env i nids) \<subseteq> set nids"
  by (induction nids arbitrary: i) auto

lemma visited_all: "\<forall>i. \<not> e_stop env i \<Longrightarrow> visited env i nids = nids"
  by (induction nids arbitrary: i) auto

lemma forecast_after_cong:
  assumes "g_rows db' = g_rows db" and "g_forecasts db' nid = g_forecasts db nid"
  shows "forecast_after k env db' j nid = forecast_after k env db j nid"
  using assms by (simp add: forecast_after_def newest_kwh_def rows_of_def)

lemma visit_nodes_spec:
  assumes "cycle_ok env" and "db_wf (c_db c)" and "c_error c = None" and "distinct nids"
    and "set nids \<subseteq> lr_node ` set (g_rows (c_db c))"
    and "c_error (visit_nodes k env i nids c) = None"
  shows "\<exists>fc. c_db (visit_nodes k env i nids c) = (c_db c)\<lparr>g_forecasts := fc\<rparr> \<and>
    db_wf ((c_db c)\<lparr>g_forecasts := fc\<rparr>) \<and>
    (\<forall>nid. if nid \<in> set (visited env i nids) then \<exists>j. fc nid = forecast_after k env (c_db c) j nid
           else fc nid = g_forecasts (c_db c) nid)"
  using assms
proof (induction nids arbitrary: i c)
  case Nil
  then show ?case by (intro exI [of _ "g_forecasts (c_db c)"]) simp
next
  case (Cons nid nids)
  show ?case
  proof (cases "e_stop env i")
    case True
    with Cons.prems show ?thesis by (intro exI [of _ "g_forecasts (c_db c)"]) simp
  next
    case False
    let ?c = "visit_node k env i nid c"
    let ?fc = "(g_forecasts (c_db c))(nid := forecast_after k env (c_db c) i nid)"
    have c: "c_error ?c = None" "c_db ?c = (c_db c)\<lparr>g_forecasts := ?fc\<rparr>"
      using visit_node_eq [of env c nid k i] Cons.prems by auto
    have "db_wf ((c_db c)\<lparr>g_forecasts := ?fc\<rparr>)"
      using Cons.prems(2,5) by (auto simp: db_wf_def forecast_after_def)
    then have pre: "db_wf (c_db ?c)" "distinct nids" "set nids \<subseteq> lr_node ` set (g_rows (c_db ?c))"
      using Cons.prems(4,5) by (simp_all add: c)
    have ok: "\<not> e_fail env i" "c_error (visit_nodes k env (i + 1) nids ?c) = None"
      using Cons.prems(6) False c(1) by (auto simp: Let_def split: if_splits)
    from Cons.IH [OF Cons.prems(1) pre(1) c(1) pre(2,3) ok(2)] obtain fc where
      fc0: "c_db (visit_nodes k env (i + 1) nids ?c) = (c_db ?c)\<lparr>g_forecasts := fc\<rparr>"
      "db_wf ((c_db ?c)\<lparr>g_forecasts := fc\<rparr>)"
      "\<And>n. if n \<in> set (visited env (i + 1) nids) then \<exists>j. fc n = forecast_after k env (c_db ?c) j n
            else fc n = g_forecasts (c_db ?c) n"
      by blast
    have fc: "c_db (visit_nodes k env (i + 1) nids ?c) = (c_db c)\<lparr>g_forecasts := fc\<rparr>"
      "db_wf ((c_db c)\<lparr>g_forecasts := fc\<rparr>)"
      using fc0 by (simp_all add: c(2))
    have fc4: "if n \<in> set (visited env (i + 1) nids) then \<exists>j. fc n = forecast_after k env (c_db ?c) j n
            else fc n = ?fc n" for n
      using fc0(3) [of n] unfolding c(2) by simp
    have "if n \<in> set (visited env i (nid # nids)) then \<exists>j. fc n = forecast_after k env (c_db c) j n
          else fc n = g_forecasts (c_db c) n" for n
      using fc4 [of n] False Cons.prems(4) set_visited [of env "i + 1" nids]
        forecast_after_cong [of "c_db ?c" "c_db c" n k env] c by (cases "n = nid") (auto split: if_splits)
    with fc False ok c show ?thesis by (intro exI [of _ fc]) (simp add: Let_def)
  qed
qed

text \<open>Without a failure of the database no visit raises.\<close>

lemma visit_nodes_healthy:
  assumes "cycle_ok env" and "\<forall>i. \<not> e_fail env i" and "db_wf (c_db c)" and "c_error c = None"
    and "set nids \<subseteq> lr_node ` set (g_rows (c_db c))"
  shows "c_error (visit_nodes k env i nids c) = None"
  using assms(3-5)
proof (induction nids arbitrary: i c)
  case (Cons nid nids)
  let ?fc = "(g_forecasts (c_db c))(nid := forecast_after k env (c_db c) i nid)"
  have c: "c_error (visit_node k env i nid c) = None" "c_db (visit_node k env i nid c) = (c_db c)\<lparr>g_forecasts := ?fc\<rparr>"
    using visit_node_eq [of env c nid k i] Cons.prems assms(1) by auto
  moreover have "db_wf ((c_db c)\<lparr>g_forecasts := ?fc\<rparr>)"
    using Cons.prems(1,3) by (auto simp: db_wf_def forecast_after_def)
  ultimately show ?case using Cons assms(2) by (simp add: Let_def)
qed simp

text \<open>The nodes of a cycle: those with readings, each once.\<close>

lemma summary_nodes: "map s_node (get_node_summaries groups db) = groups (map lr_node (g_rows db))"
  by (simp add: get_node_summaries_def summary_of_def Let_def comp_def)

lemma cycle_nodes:
  assumes "cycle_ok env"
  shows "distinct (map s_node (get_node_summaries (e_groups env) db))"
    and "set (map s_node (get_node_summaries (e_groups env) db)) \<subseteq> lr_node ` set (g_rows db)"
  using assms group_by.distinct_groups group_by.set_groups unfolding cycle_ok_def summary_nodes by fastforce+

definition healthy :: "cycle_env \<Rightarrow> bool" where
  "healthy env \<longleftrightarrow> \<not> e_down env \<and> (\<forall>i. \<not> e_fail env i) \<and> \<not> e_commit_fails env"

text \<open>
  A worker cycle on well-formed tables, wherever the database may fail: it sleeps after an error exactly when it
  leaves the tables as they were; otherwise it changes nothing but forecasts and keeps the tables well formed, each
  node it visits before a stop event that has at least \<open>k\<close> readings gets the mean of its \<open>k\<close> newest
  readings as forecast, and every other node keeps its forecast. On a healthy database it never fails.
\<close>

theorem worker_cycle_spec:
  assumes "cycle_ok env" and "db_wf (w_db w)" and "0 < k"
  shows "(healthy env \<longrightarrow> \<not> fst (worker_cycle k env w)) \<and>
    (if fst (worker_cycle k env w) then w_db (snd (worker_cycle k env w)) = w_db w
     else \<exists>fc m. worker_cycle k env w = (False, \<lparr>w_db = (w_db w)\<lparr>g_forecasts := fc\<rparr>, w_metrics = m\<rparr>) \<and>
      db_wf ((w_db w)\<lparr>g_forecasts := fc\<rparr>) \<and>
      (\<forall>nid. if nid \<in> set (visited env 0 (map s_node (get_node_summaries (e_groups env) (w_db w))))
                \<and> k \<le> length (rows_of (w_db w) nid)
             then \<exists>t. fc nid = Some \<lparr>f_kwh = sum_list (newest_kwh (e_order env) (w_db w) nid k) / real k,
                                     f_at = t, f_window = k\<rparr>
             else fc nid = g_forecasts (w_db w) nid))"
proof -
  let ?nids = "map s_node (get_node_summaries (e_groups env) (w_db w))"
  let ?c = "\<lparr>c_db = w_db w, c_metrics = w_metrics w, c_processed = 0, c_found = 0, c_error = None\<rparr>"
  have healthy: "healthy env \<longrightarrow> \<not> fst (worker_cycle k env w)"
    using visit_nodes_healthy [of env ?c ?nids k 0] cycle_nodes(2) [OF assms(1)] assms(1,2)
    by (simp add: healthy_def worker_cycle_def Let_def)
  show ?thesis
  proof (cases "fst (worker_cycle k env w)")
    case True
    then show ?thesis using healthy by (auto simp: worker_cycle_def Let_def split: if_splits)
  next
    case False
    then have ok: "\<not> e_down env" "\<not> e_commit_fails env" "c_error (visit_nodes k env 0 ?nids ?c) = None"
      by (auto simp: worker_cycle_def Let_def split: if_splits)
    with visit_nodes_spec [of env ?c ?nids k 0, unfolded cycle.simps] cycle_nodes [OF assms(1)] assms(1,2) obtain fc where
      fc: "c_db (visit_nodes k env 0 ?nids ?c) = (w_db w)\<lparr>g_forecasts := fc\<rparr>"
      "db_wf ((w_db w)\<lparr>g_forecasts := fc\<rparr>)"
      "\<And>n. if n \<in> set (visited env 0 ?nids) then \<exists>j. fc n = forecast_after k env (w_db w) j n
            else fc n = g_forecasts (w_db w) n"
      by blast
    have "if n \<in> set (visited env 0 ?nids) \<and> k \<le> length (rows_of (w_db w) n)
          then \<exists>t. fc n = Some \<lparr>f_kwh = sum_list (newest_kwh (e_order env) (w_db w) n k) / real k,
                               f_at = t, f_window = k\<rparr>
          else fc n = g_forecasts (w_db w) n" for n
      using fc(3) [of n] assms(3) by (auto simp: forecast_after_def split: if_splits)
    with fc(1,2) False ok healthy show ?thesis by (auto simp: worker_cycle_def Let_def)
  qed
qed

definition quiet_env :: cycle_env where
  "quiet_env = \<lparr>e_order = newest_first lr_ts, e_groups = remdups, e_stopping = False,
     e_stop = (\<lambda>_. False), e_clock = int, e_down = False, e_fail = (\<lambda>_. False), e_commit_fails = False\<rparr>"

lemma cycle_ok_quiet: "cycle_ok quiet_env"
  by (simp add: cycle_ok_def quiet_env_def order_desc_newest_first first_seen.group_by_axioms)

theorem worker_cycle_spec_witness:
  "\<exists>t. g_forecasts (w_db (snd (worker_cycle 2 quiet_env
      \<lparr>w_db = three_rows, w_metrics = \<lparr>m_forecast = Map.empty, m_anomalies = (\<lambda>_. 0)\<rparr>\<rparr>))) ''NODE-001'' =
     Some \<lparr>f_kwh = 5, f_at = t, f_window = 2\<rparr>"
proof -
  let ?w = "\<lparr>w_db = three_rows, w_metrics = \<lparr>m_forecast = Map.empty, m_anomalies = (\<lambda>_. 0)\<rparr>\<rparr>"
  have wf: "db_wf (w_db ?w)" by (simp add: db_wf_def three_rows_def)
  have nodes: "''NODE-001'' \<in> set (visited quiet_env 0 (map s_node (get_node_summaries (e_groups quiet_env) (w_db ?w))))"
    by (simp add: visited_all quiet_env_def get_node_summaries_def summary_of_def Let_def three_rows_def)
  have mean: "sum_list (newest_kwh (e_order quiet_env) (w_db ?w) ''NODE-001'' 2) / real 2 = 5"
    and rows: "2 \<le> length (rows_of (w_db ?w) ''NODE-001'')"
    by (simp_all add: three_rows_def rows_of_def newest_kwh_def newest_first_def insort_key_def
        quiet_env_def numeral_2_eq_2 del: One_nat_def)
  have ok: "\<not> fst (worker_cycle 2 quiet_env ?w)"
    using worker_cycle_spec [OF cycle_ok_quiet wf, of 2] by (simp add: healthy_def quiet_env_def)
  then obtain fc m where "worker_cycle 2 quiet_env ?w = (False, \<lparr>w_db = (w_db ?w)\<lparr>g_forecasts := fc\<rparr>, w_metrics = m\<rparr>)"
    and "if ''NODE-001'' \<in> set (visited quiet_env 0 (map s_node (get_node_summaries (e_groups quiet_env) (w_db ?w))))
           \<and> 2 \<le> length (rows_of (w_db ?w) ''NODE-001'')
         then \<exists>t. fc ''NODE-001'' = Some \<lparr>f_kwh = sum_list (newest_kwh (e_order quiet_env) (w_db ?w) ''NODE-001'' 2) / real 2,
                                          f_at = t, f_window = 2\<rparr>
         else fc ''NODE-001'' = g_forecasts (w_db ?w) ''NODE-001''"
    using worker_cycle_spec [OF cycle_ok_quiet wf, of 2] unfolding if_not_P [OF ok] by (meson zero_less_numeral)
  then show ?thesis using nodes rows unfolding mean by simp
qed

section \<open>The loop\<close>

lemma worker_cycle_keeps:
  assumes "cycle_ok env" and "db_wf (w_db w)"
  shows "\<exists>b fc m. worker_cycle k env w = (b, \<lparr>w_db = (w_db w)\<lparr>g_forecasts := fc\<rparr>, w_metrics = m\<rparr>) \<and>
    db_wf ((w_db w)\<lparr>g_forecasts := fc\<rparr>)"
proof (cases "fst (worker_cycle k env w)")
  case True
  then have "w_db (snd (worker_cycle k env w)) = w_db w" by (auto simp: worker_cycle_def Let_def split: if_splits)
  with True assms(2) show ?thesis
    by (intro exI [of _ True] exI [of _ "g_forecasts (w_db w)"] exI [of _ "w_metrics (snd (worker_cycle k env w))"])
      (cases "worker_cycle k env w"; simp)
next
  case False
  let ?nids = "map s_node (get_node_summaries (e_groups env) (w_db w))"
  let ?c = "\<lparr>c_db = w_db w, c_metrics = w_metrics w, c_processed = 0, c_found = 0, c_error = None\<rparr>"
  from False have "c_error (visit_nodes k env 0 ?nids ?c) = None" by (auto simp: worker_cycle_def Let_def split: if_splits)
  then obtain fc where "c_db (visit_nodes k env 0 ?nids ?c) = (w_db w)\<lparr>g_forecasts := fc\<rparr>" "db_wf ((w_db w)\<lparr>g_forecasts := fc\<rparr>)"
    using visit_nodes_spec [of env ?c ?nids k 0, unfolded cycle.simps] cycle_nodes [OF assms(1)] assms by blast
  then show ?thesis using False by (auto simp: worker_cycle_def Let_def split: if_splits)
qed

text \<open>
  The worker loop ends at the first iteration that finds the stop event set, and however many
  cycles it has run, failing ones included, it has added, changed and removed no reading and no
  node, and the tables are well formed.
\<close>

theorem worker_run_safe:
  assumes "\<forall>env\<in>set envs. cycle_ok env" and "db_wf (w_db w)" and "0 < k"
  shows "fst (worker_run k envs w) = length (takeWhile (\<lambda>env. \<not> e_stopping env) envs) \<and>
    db_wf (w_db (snd (worker_run k envs w))) \<and>
    g_rows (w_db (snd (worker_run k envs w))) = g_rows (w_db w) \<and>
    g_nodes (w_db (snd (worker_run k envs w))) = g_nodes (w_db w)"
  using assms
proof (induction envs arbitrary: w)
  case (Cons env envs)
  then obtain b fc m where step: "worker_cycle k env w = (b, \<lparr>w_db = (w_db w)\<lparr>g_forecasts := fc\<rparr>, w_metrics = m\<rparr>)"
    "db_wf ((w_db w)\<lparr>g_forecasts := fc\<rparr>)"
    using worker_cycle_keeps [of env w k] by auto
  with Cons.IH [of "\<lparr>w_db = (w_db w)\<lparr>g_forecasts := fc\<rparr>, w_metrics = m\<rparr>"] Cons.prems show ?case
    by (auto simp: case_prod_unfold Let_def)
qed simp

theorem worker_run_safe_witness:
  "fst (worker_run 2 [quiet_env, quiet_env\<lparr>e_down := True\<rparr>, quiet_env\<lparr>e_stopping := True\<rparr>, quiet_env]
      \<lparr>w_db = three_rows, w_metrics = \<lparr>m_forecast = Map.empty, m_anomalies = (\<lambda>_. 0)\<rparr>\<rparr>) = 2"
proof -
  have "db_wf three_rows" by (simp add: db_wf_def three_rows_def)
  moreover have "cycle_ok (quiet_env\<lparr>e_down := True\<rparr>)" "cycle_ok (quiet_env\<lparr>e_stopping := True\<rparr>)"
    using cycle_ok_quiet by (simp_all add: cycle_ok_def)
  ultimately show ?thesis
    using worker_run_safe [of "[quiet_env, quiet_env\<lparr>e_down := True\<rparr>, quiet_env\<lparr>e_stopping := True\<rparr>, quiet_env]"
        "\<lparr>w_db = three_rows, w_metrics = \<lparr>m_forecast = Map.empty, m_anomalies = (\<lambda>_. 0)\<rparr>\<rparr>" 2] cycle_ok_quiet
    by (simp add: quiet_env_def)
qed

end
