(* ===== verification/Grid_Seed.thy ===== *)
theory Grid_Seed
  imports Grid_Service Iso_Time
begin

text \<open>
  The script that fills the grid load database (\<open>grid_load_forecasting/scripts/seed_db.py\<close>): its node names,
  its synthetic readings, and one transaction for each node. The samples of \<open>random.gauss\<close> and the clock at
  each acceptance are arguments; that the tables exist is \<open>create_all\<close>'s part.
\<close>

section \<open>Node names\<close>

text \<open>The format \<open>03d\<close>: decimal, with zeros in front up to three digits.\<close>

fun decimal :: "nat \<Rightarrow> string" where
  "decimal n = (if n < 10 then [digit n] else decimal (n div 10) @ [digit (n mod 10)])"

declare decimal.simps [simp del]

definition pad3 :: "nat \<Rightarrow> string" where
  "pad3 n = replicate (3 - length (decimal n)) (CHR ''0'') @ decimal n"

definition node_name :: "nat \<Rightarrow> string" where
  "node_name n = ''NODE-'' @ pad3 n"

text \<open>The number a string of digits stands for.\<close>

definition undecimal :: "string \<Rightarrow> nat" where
  "undecimal s = foldl (\<lambda>a c. a * 10 + (of_char c - 48)) 0 s"

lemma undecimal_decimal: "undecimal (decimal n) = n"
proof (induction n rule: decimal.induct)
  case (1 n)
  show ?case
  proof (cases "n < 10")
    case True
    then show ?thesis by (subst decimal.simps) (simp add: undecimal_def of_char_digit)
  next
    case False
    then show ?thesis using 1 by (subst decimal.simps) (simp add: undecimal_def of_char_digit)
  qed
qed

lemma undecimal_zeros: "undecimal (replicate k (CHR ''0'') @ s) = undecimal s"
  by (induction k) (simp_all add: undecimal_def)

lemma node_name_inj: "node_name m = node_name n \<Longrightarrow> m = n"
  using undecimal_zeros undecimal_decimal unfolding node_name_def pad3_def by (metis same_append_eq)

lemma length_decimal: "n < 10 ^ k \<Longrightarrow> length (decimal n) \<le> max 1 k"
proof (induction n arbitrary: k rule: decimal.induct)
  case (1 n)
  show ?case
  proof (cases "n < 10")
    case True
    then show ?thesis by (subst decimal.simps) simp
  next
    case False
    with 1(2) obtain j where j: "k = Suc j" by (cases k) auto
    with False 1(2) have "n div 10 < 10 ^ j" by (simp add: div_less_iff_less_mult mult.commute)
    with False 1(1) [of j] have "length (decimal (n div 10)) \<le> max 1 j" by simp
    moreover have "j \<noteq> 0" using False 1(2) j by (cases j) auto
    ultimately show ?thesis using False j by (subst decimal.simps) simp
  qed
qed

lemma decimal_chars: "list_all node_char (decimal n)"
proof (induction n rule: decimal.induct)
  case (1 n)
  have "node_char (digit m)" if "m < 10" for m
    using that by (simp add: node_char_def of_char_digit)
  then show ?case using 1 by (subst decimal.simps) simp
qed

lemma node_name_ok:
  assumes "n < 10 ^ 27"
  shows "3 \<le> length (node_name n) \<and> length (node_name n) \<le> 32 \<and> list_all node_char (node_name n)"
proof -
  have "list_all node_char (replicate k (CHR ''0''))" for k by (induction k) (simp_all add: node_char_def)
  then have "list_all node_char (node_name n)" using decimal_chars by (simp add: node_name_def pad3_def node_char_def)
  moreover have "length (node_name n) = 5 + max 3 (length (decimal n))" by (simp add: node_name_def pad3_def)
  moreover have "length (decimal n) \<le> 27" using length_decimal [OF assms] by simp
  ultimately show ?thesis by simp
qed

section \<open>Readings\<close>

text \<open>
  The reading number \<open>i\<close> of \<open>steps\<close>: a quarter of an hour apart, the last one a quarter before \<open>now\<close>, with a
  daily sine around 20 kWh. The clock is UTC, so the hour is that of the day.
\<close>

definition quarter :: int where
  "quarter = 15 * 60 * 1000000"

definition day_hour :: "int \<Rightarrow> real" where
  "day_hour ts = of_int ((ts div 3600000000) mod 24) + of_int ((ts div 60000000) mod 60) / 60"

definition seed_kwh :: "int \<Rightarrow> real \<Rightarrow> real" where
  "seed_kwh ts noise = (let kwh = 20 + 15 * sin (2 * pi * day_hour ts / 24) + noise in round3 (max (1 / 10) kwh))"

definition seed_reading :: "int \<Rightarrow> nat \<Rightarrow> (nat \<Rightarrow> real) \<Rightarrow> string \<Rightarrow> nat \<Rightarrow> load_reading" where
  "seed_reading now steps gauss nid i =
     (let ts = now - quarter * (int steps - int i)
      in \<lparr>r_node = nid, r_ts = ts, r_kwh = seed_kwh ts (gauss i), r_meter = Some Commercial\<rparr>)"

fun add_readings :: "(nat \<Rightarrow> int) \<Rightarrow> nat \<Rightarrow> load_reading list \<Rightarrow> grid_db \<Rightarrow> db_error + grid_db" where
  "add_readings accepted i [] db = Inr db"
| "add_readings accepted i (r # rs) db =
     (case insert_reading (accepted i) db r of
        Inl e \<Rightarrow> Inl e
      | Inr (db', row) \<Rightarrow> add_readings accepted (i + 1) rs db')"

definition seed_node :: "int \<Rightarrow> nat \<Rightarrow> (nat \<Rightarrow> nat \<Rightarrow> real) \<Rightarrow> (nat \<Rightarrow> nat \<Rightarrow> int) \<Rightarrow> nat \<Rightarrow> grid_db \<Rightarrow> db_error + grid_db" where
  "seed_node now steps gauss accepted n db =
     (case insert_node db (node_name (n + 1)) Commercial of
        Inl e \<Rightarrow> Inl e
      | Inr db1 \<Rightarrow> add_readings (accepted n) 0 (map (seed_reading now steps (gauss n) (node_name (n + 1))) [0..<steps]) db1)"

text \<open>Each node is a transaction; the first exception ends the script. The boolean says whether it reached its end.\<close>

fun seed_nodes :: "int \<Rightarrow> nat \<Rightarrow> (nat \<Rightarrow> nat \<Rightarrow> real) \<Rightarrow> (nat \<Rightarrow> nat \<Rightarrow> int) \<Rightarrow> nat list \<Rightarrow> grid_db \<Rightarrow> bool \<times> grid_db" where
  "seed_nodes now steps gauss accepted [] db = (True, db)"
| "seed_nodes now steps gauss accepted (n # ns) db =
     (case seed_node now steps gauss accepted n db of
        Inl e \<Rightarrow> (False, db)
      | Inr db' \<Rightarrow> seed_nodes now steps gauss accepted ns db')"

definition seed_db :: "int \<Rightarrow> int \<Rightarrow> int \<Rightarrow> (nat \<Rightarrow> nat \<Rightarrow> real) \<Rightarrow> (nat \<Rightarrow> nat \<Rightarrow> int) \<Rightarrow> grid_db \<Rightarrow> bool \<times> grid_db" where
  "seed_db now num_nodes num_days gauss accepted db =
     seed_nodes now (nat (num_days * 96)) gauss accepted [0..<nat num_nodes] db"

section \<open>What it stores\<close>

text \<open>A stored row is valid: what the request schema demands, judged when the row was accepted.\<close>

definition row_valid :: "reading_row \<Rightarrow> bool" where
  "row_valid row \<longleftrightarrow> 3 \<le> length (lr_node row) \<and> length (lr_node row) \<le> 32 \<and> list_all node_char (lr_node row) \<and>
     lr_ts row \<le> lr_accepted row + 60 * 1000000 \<and> 0 < lr_kwh row \<and> lr_kwh row \<le> caps (lr_meter row)"

lemma row_valid_of: "reading_ok now r \<Longrightarrow> row_valid (row_of now i r)"
  by (simp add: reading_ok_def row_valid_def row_of_def)

lemma round3_mono_bound: "x \<le> 499 \<Longrightarrow> round3 x \<le> 500"
  using abs_le_D1 [OF round3_close [of x]] by linarith

lemma seed_kwh_bounds:
  assumes "noise \<le> 464"
  shows "1 / 10 \<le> seed_kwh ts noise \<and> seed_kwh ts noise \<le> 500"
proof -
  define kwh where "kwh = max (1 / 10) (20 + 15 * sin (2 * pi * day_hour ts / 24) + noise)"
  have "20 + 15 * sin (2 * pi * day_hour ts / 24) + noise \<le> 499"
    using assms sin_le_one [of "2 * pi * day_hour ts / 24"] by linarith
  then have "kwh \<le> 499" by (simp add: kwh_def)
  moreover have "1 / 10 \<le> kwh" unfolding kwh_def by (rule max.cobounded1)
  then have "of_int 100 \<le> kwh * 1000" by simp
  then have "100 \<le> round_half_even (kwh * 1000)" by (rule round_half_even_ge)
  then have "1 / 10 \<le> round3 kwh" by (simp add: round3_def)
  ultimately show ?thesis using round3_mono_bound by (simp add: seed_kwh_def kwh_def Let_def)
qed

text \<open>The rows of a node, given the first id and the clock at their acceptance.\<close>

fun rows_from :: "(nat \<Rightarrow> int) \<Rightarrow> nat \<Rightarrow> nat \<Rightarrow> load_reading list \<Rightarrow> reading_row list" where
  "rows_from accepted i next [] = []"
| "rows_from accepted i next (r # rs) = row_of (accepted i) next r # rows_from accepted (i + 1) (next + 1) rs"

lemma add_readings_eq:
  assumes "\<forall>r\<in>set rs. g_nodes db (r_node r) \<noteq> None \<and> 0 < r_kwh r"
  shows "add_readings accepted i rs db =
    Inr (db\<lparr>g_rows := g_rows db @ rows_from accepted i (g_next db) rs, g_next := g_next db + length rs\<rparr>)"
  using assms
proof (induction rs arbitrary: i db)
  case (Cons r rs)
  then show ?case by (simp add: insert_reading_def Let_def row_of_def)
qed simp
lemma rows_from_map:
  assumes "\<And>i n r. f (row_of i n r) = g r"
  shows "map f (rows_from accepted i next rs) = map g rs"
  using assms by (induction rs arbitrary: i "next") auto

lemma rows_from_valid:
  assumes "\<forall>r\<in>set rs. \<forall>j. reading_ok (accepted j) r"
  shows "\<forall>row\<in>set (rows_from accepted i next rs). row_valid row"
  using assms by (induction rs arbitrary: i "next") (auto intro: row_valid_of)

lemma rows_from_nodes: "lr_node ` set (rows_from accepted i next rs) = r_node ` set rs"
proof -
  have "map lr_node (rows_from accepted i next rs) = map r_node rs" by (rule rows_from_map) (simp add: row_of_def)
  then show ?thesis by (metis list.set_map)
qed

definition seed_rows :: "int \<Rightarrow> nat \<Rightarrow> (nat \<Rightarrow> nat \<Rightarrow> real) \<Rightarrow> (nat \<Rightarrow> nat \<Rightarrow> int) \<Rightarrow> nat \<Rightarrow> nat \<Rightarrow> reading_row list" where
  "seed_rows now steps gauss accepted n next =
     rows_from (accepted n) 0 next (map (seed_reading now steps (gauss n) (node_name (n + 1))) [0..<steps])"

lemma seed_reading_ok:
  assumes "n < 10 ^ 26" and "i < steps" and "gauss i \<le> 464" and "now \<le> t"
  shows "reading_ok t (seed_reading now steps gauss (node_name (n + 1)) i)"
  using node_name_ok [of "n + 1"] assms seed_kwh_bounds [OF assms(3), of "now - quarter * (int steps - int i)"]
  by (simp add: reading_ok_def seed_reading_def Let_def meter_or_default_def quarter_def)

lemma seed_rows_valid:
  assumes "n < 10 ^ 26" and "\<forall>n i. gauss n i \<le> 464" and "\<forall>n i. now \<le> accepted n i"
  shows "\<forall>row\<in>set (seed_rows now steps gauss accepted n next). row_valid row"
  unfolding seed_rows_def using assms by (intro rows_from_valid) (auto simp del: One_nat_def add_Suc_right simp: seed_reading_ok Suc_eq_plus1)

lemma seed_rows_node: "row \<in> set (seed_rows now steps gauss accepted n next) \<Longrightarrow> lr_node row = node_name (n + 1)"
proof -
  have "lr_node ` set (seed_rows now steps gauss accepted n next) \<subseteq> {node_name (n + 1)}"
    unfolding seed_rows_def rows_from_nodes by (auto simp: seed_reading_def Let_def)
  then show "row \<in> set (seed_rows now steps gauss accepted n next) \<Longrightarrow> lr_node row = node_name (n + 1)" by auto
qed

lemma seed_rows_ts:
  "map lr_ts (seed_rows now steps gauss accepted n next) = map (\<lambda>i. now - quarter * (int steps - int i)) [0..<steps]"
proof -
  have "map lr_ts (seed_rows now steps gauss accepted n next) =
      map r_ts (map (seed_reading now steps (gauss n) (node_name (n + 1))) [0..<steps])"
    unfolding seed_rows_def by (rule rows_from_map) (simp add: row_of_def)
  then show ?thesis by (simp add: seed_reading_def Let_def)
qed

lemma seed_node_eq:
  assumes "g_nodes db (node_name (n + 1)) = None" and "\<forall>n i. gauss n i \<le> 464"
  shows "seed_node now steps gauss accepted n db =
    Inr (db\<lparr>g_nodes := (g_nodes db)(node_name (n + 1) \<mapsto> Commercial),
            g_rows := g_rows db @ seed_rows now steps gauss accepted n (g_next db), g_next := g_next db + steps\<rparr>)"
proof -
  have "0 < r_kwh (seed_reading now steps (gauss n) nid i)" for nid i
    using seed_kwh_bounds [of "gauss n i" "now - quarter * (int steps - int i)"] assms(2)
    by (auto simp: seed_reading_def Let_def intro: less_le_trans [of 0 "1 / 10"])
  then show ?thesis using assms(1)
    by (auto simp: seed_node_def insert_node_def seed_rows_def add_readings_eq seed_reading_def [of now steps "gauss n" _ for i] Let_def)
qed

lemma add_readings_wf: "db_wf db \<Longrightarrow> add_readings accepted i rs db = Inr db' \<Longrightarrow> db_wf db'"
  by (induction rs arbitrary: i db) (auto intro: db_wf_insert_reading split: sum.splits)

lemma seed_node_wf: "db_wf db \<Longrightarrow> seed_node now steps gauss accepted n db = Inr db' \<Longrightarrow> db_wf db'"
  by (auto simp: seed_node_def intro: add_readings_wf db_wf_insert_node split: sum.splits)

text \<open>The nodes of a run whose names are free, one after the other.\<close>

lemma seed_nodes_run:
  assumes "distinct ns" and "\<forall>n\<in>set ns. g_nodes db (node_name (n + 1)) = None" and "\<forall>n i. gauss n i \<le> 464"
    and "\<forall>n\<in>set ns. rows_of db (node_name (n + 1)) = []"
  shows "\<exists>db'. seed_nodes now steps gauss accepted ns db = (True, db') \<and>
    dom (g_nodes db') = dom (g_nodes db) \<union> (\<lambda>n. node_name (n + 1)) ` set ns \<and>
    (\<forall>n\<in>set ns. map lr_ts (rows_of db' (node_name (n + 1))) = map (\<lambda>i. now - quarter * (int steps - int i)) [0..<steps]) \<and>
    (\<forall>nid. nid \<notin> (\<lambda>n. node_name (n + 1)) ` set ns \<longrightarrow> rows_of db' nid = rows_of db nid)"
  using assms(1,2,4)
proof (induction ns arbitrary: db)
  case (Cons n ns)
  let ?nid = "node_name (n + 1)" and ?rows = "seed_rows now steps gauss accepted n (g_next db)"
  let ?db = "db\<lparr>g_nodes := (g_nodes db)(?nid \<mapsto> Commercial), g_rows := g_rows db @ ?rows, g_next := g_next db + steps\<rparr>"
  have step: "seed_node now steps gauss accepted n db = Inr ?db" using Cons.prems(2) by (intro seed_node_eq assms(3)) simp
  have other: "node_name (m + 1) \<noteq> ?nid" if "m \<noteq> n" for m using node_name_inj that by fastforce
  have rows: "rows_of ?db ?nid = ?rows" "\<And>nid. nid \<noteq> ?nid \<Longrightarrow> rows_of ?db nid = rows_of db nid"
    using Cons.prems(3) seed_rows_node by (auto simp: rows_of_def filter_empty_conv intro!: filter_True)
  have ns: "distinct ns" "n \<notin> set ns" using Cons.prems(1) by auto
  have nid: "node_name (m + 1) \<noteq> ?nid" if "m \<in> set ns" for m
    using ns(2) that by (intro other) auto
  have free: "\<forall>m\<in>set ns. g_nodes ?db (node_name (m + 1)) = None" using Cons.prems(2) nid by simp
  have empty: "\<forall>m\<in>set ns. rows_of ?db (node_name (m + 1)) = []" using Cons.prems(3) rows(2) nid by simp
  obtain db' where
    db': "seed_nodes now steps gauss accepted ns ?db = (True, db')"
      "dom (g_nodes db') = dom (g_nodes ?db) \<union> (\<lambda>n. node_name (n + 1)) ` set ns"
      "\<forall>n\<in>set ns. map lr_ts (rows_of db' (node_name (n + 1))) = map (\<lambda>i. now - quarter * (int steps - int i)) [0..<steps]"
      "\<forall>nid. nid \<notin> (\<lambda>n. node_name (n + 1)) ` set ns \<longrightarrow> rows_of db' nid = rows_of ?db nid"
    using Cons.IH [OF ns(1) free empty] by blast
  have "?nid \<notin> (\<lambda>n. node_name (n + 1)) ` set ns" using nid by (auto simp del: add_Suc_right One_nat_def dest: sym)
  then have "map lr_ts (rows_of db' ?nid) = map (\<lambda>i. now - quarter * (int steps - int i)) [0..<steps]"
    using db'(4) rows(1) seed_rows_ts by metis
  then show ?case using step db' rows(2) by (intro exI [of _ db']) auto
qed simp

lemma ball_upt: "(\<forall>n\<in>set [0..<k]. P n) \<longleftrightarrow> (\<forall>n<k. P n)"
  by auto

lemma seed_nodes_wf: "db_wf db \<Longrightarrow> db_wf (snd (seed_nodes now steps gauss accepted ns db))"
  by (induction ns arbitrary: db) (auto intro: seed_node_wf split: sum.split)

lemma db_wf_no_rows: "db_wf db \<Longrightarrow> g_nodes db nid = None \<Longrightarrow> rows_of db nid = []"
  by (auto simp: db_wf_def rows_of_def filter_empty_conv)

text \<open>
  Seeding a database that has none of the names: the script reaches its end, has added exactly the
  nodes asked for, each with 96 readings for each day, a quarter of an hour apart up to a quarter before the start,
  left the readings of all other nodes alone, and kept the tables well formed. A second run stops at its first
  node and changes nothing.
\<close>

theorem seed_db_spec:
  assumes "db_wf db" and "\<forall>n<nat nodes. g_nodes db (node_name (n + 1)) = None" and "\<forall>n i. gauss n i \<le> 464"
  shows "\<exists>db'. seed_db now nodes days gauss accepted db = (True, db') \<and> db_wf db' \<and>
    dom (g_nodes db') = dom (g_nodes db) \<union> (\<lambda>n. node_name (n + 1)) ` {..<nat nodes} \<and>
    (\<forall>n<nat nodes. map lr_ts (rows_of db' (node_name (n + 1))) =
       map (\<lambda>i. now - quarter * (int (nat (days * 96)) - int i)) [0..<nat (days * 96)]) \<and>
    (\<forall>nid. nid \<notin> (\<lambda>n. node_name (n + 1)) ` {..<nat nodes} \<longrightarrow> rows_of db' nid = rows_of db nid) \<and>
    (0 < nodes \<longrightarrow> seed_db now' nodes days' gauss' accepted' db' = (False, db'))"
proof -
  have "\<forall>n\<in>set [0..<nat nodes]. rows_of db (node_name (n + 1)) = []"
    using assms(1,2) by (intro ballI db_wf_no_rows) auto
  moreover have "\<forall>n\<in>set [0..<nat nodes]. g_nodes db (node_name (n + 1)) = None" using assms(2) by simp
  ultimately obtain db' where
    db': "seed_db now nodes days gauss accepted db = (True, db')"
      "dom (g_nodes db') = dom (g_nodes db) \<union> (\<lambda>n. node_name (n + 1)) ` {..<nat nodes}"
      "\<forall>n<nat nodes. map lr_ts (rows_of db' (node_name (n + 1))) =
        map (\<lambda>i. now - quarter * (int (nat (days * 96)) - int i)) [0..<nat (days * 96)]"
      "\<forall>nid. nid \<notin> (\<lambda>n. node_name (n + 1)) ` {..<nat nodes} \<longrightarrow> rows_of db' nid = rows_of db nid"
    using seed_nodes_run [OF distinct_upt _ assms(3), of 0 "nat nodes" db now "nat (days * 96)" accepted]
    unfolding seed_db_def atLeast_upt ball_upt by blast
  have "db_wf db'" using seed_nodes_wf [OF assms(1)] db'(1) by (metis seed_db_def snd_conv)
  moreover have "seed_db now' nodes days' gauss' accepted' db' = (False, db')" if "0 < nodes"
  proof -
    have "[0..<nat nodes] = 0 # [1..<nat nodes]" using that by (simp add: upt_conv_Cons)
    moreover have "g_nodes db' (node_name (0 + 1)) \<noteq> None" using db'(2) that by (auto simp: dom_def)
    ultimately show ?thesis by (auto simp: seed_db_def seed_node_def insert_node_def)
  qed
  ultimately show ?thesis using db' by blast
qed

theorem seed_db_spec_witness:
  "\<exists>db'. seed_db 0 2 1 (\<lambda>_ _. 0) (\<lambda>_ _. 0) empty_db = (True, db') \<and>
     seed_db 9 2 1 (\<lambda>_ _. 0) (\<lambda>_ _. 9) db' = (False, db')"
proof -
  have free: "\<forall>n<nat 2. g_nodes empty_db (node_name (n + 1)) = None" by (simp add: empty_db_def)
  have noise: "\<forall>n i. (\<lambda>_ _. 0) (n::nat) (i::nat) \<le> (464::real)" by simp
  have "(0::int) < 2" by simp
  with seed_db_spec [OF db_wf_empty free noise, where days = 1 and now = 0 and accepted = "\<lambda>_ _. 0" and now' = 9 and days' = 1
      and gauss' = "\<lambda>_ _. 0" and accepted' = "\<lambda>_ _. 9"]
  show ?thesis by blast
qed

end
