(* ===== verification/Grid_System.thy ===== *)
theory Grid_System
  imports Grid_Batch Grid_Worker Grid_Seed
begin

text \<open>
  The grid load service as a whole: single readings, batches, cycles of the background worker and the seed script
  all write the same tables. They are one step relation here, and what every reachable state
  satisfies is proved from what each of them keeps.
\<close>

section \<open>The steps\<close>

text \<open>
  A step is what one transaction, or one run of the script, leaves behind. The samples of the script's normal distribution
  (deviation 2) are assumed to stay below 464, and its number of nodes within the length of the key column.
\<close>

inductive grid_step :: "grid_db \<Rightarrow> grid_db \<Rightarrow> bool" where
  Reading: "grid_step db (fst (ingest_reading now db raw))"
| Batch: "ingest_batch now schedule db raws = Some (db', res) \<Longrightarrow> grid_step db db'"
| Cycle: "cycle_ok env \<Longrightarrow> grid_step db (w_db (snd (worker_cycle k env \<lparr>w_db = db, w_metrics = m\<rparr>)))"
| Seed: "nodes \<le> 10 ^ 26 \<Longrightarrow> \<forall>n i. gauss n i \<le> 464 \<Longrightarrow> \<forall>n i. now \<le> accepted n i \<Longrightarrow>
    grid_step db (snd (seed_db now nodes days gauss accepted db))"

section \<open>The invariant\<close>

definition forecast_ok :: "forecast_row \<Rightarrow> bool" where
  "forecast_ok f \<longleftrightarrow> 0 < f_kwh f \<and> f_kwh f \<le> 10000"

definition grid_inv :: "grid_db \<Rightarrow> bool" where
  "grid_inv db \<longleftrightarrow> db_wf db \<and> (\<forall>row\<in>set (g_rows db). row_valid row) \<and>
     (\<forall>nid f. g_forecasts db nid = Some f \<longrightarrow> forecast_ok f)"

lemma grid_inv_empty: "grid_inv empty_db"
  by (simp add: grid_inv_def) (simp add: empty_db_def)

lemma row_valid_kwh: "row_valid row \<Longrightarrow> 0 < lr_kwh row \<and> lr_kwh row \<le> 10000"
  using caps_le [of "lr_meter row"] by (simp add: row_valid_def)

lemma grid_inv_reading:
  assumes "grid_inv db"
  shows "grid_inv (fst (ingest_reading now db raw))"
proof (cases "validate_reading now raw")
  case (Inl es)
  then show ?thesis using assms by (simp add: ingest_reading_def)
next
  case (Inr r)
  then have ok: "reading_ok now r" by (rule validate_reading_ok)
  then have pos: "0 < r_kwh r" by (simp add: reading_ok_def)
  have "db_wf (fst (ingest_reading now db raw))"
    using assms Inr ingest_eq [OF pos, of now db] db_wf_ingest [of db now r] by (simp add: ingest_reading_def grid_inv_def)
  then show ?thesis
    using assms Inr ingest_eq [OF pos, of now db] row_valid_of [OF ok] by (auto simp: ingest_reading_def grid_inv_def)
qed

lemma done_rows_mem: "row \<in># done_rows ts \<Longrightarrow> \<exists>i<length ts. ts ! i = Done row"
proof (induction ts)
  case (Cons t ts)
  have later: "\<exists>i<length (t # ts). (t # ts) ! i = Done row" if "row \<in># done_rows ts"
    using Cons.IH [OF that] by (auto intro: exI [of _ "Suc _"])
  show ?case
  proof (cases "t = Done row")
    case False
    then have "row \<in># done_rows ts" using Cons.prems by (cases t) auto
    then show ?thesis by (rule later)
  qed auto
qed simp

lemma grid_inv_batch_inv:
  assumes "grid_inv db" and "batch_inv now db rs (db', ts)" and "\<forall>r\<in>set rs. reading_ok now r"
  shows "grid_inv db'"
proof -
  have inv: "db_wf db'" "length ts = length rs" "\<forall>i<length rs. task_ok now db' (rs ! i) (ts ! i)"
    "g_forecasts db' = g_forecasts db" "mset (g_rows db') = mset (g_rows db) + done_rows ts"
    using assms(2) by (auto simp: batch_inv_def)
  have "row_valid row" if row: "row \<in># done_rows ts" for row
  proof -
    obtain i where i: "i < length rs" "ts ! i = Done row" using done_rows_mem [OF row] inv(2) by auto
    then have "row = row_of now (lr_id row) (rs ! i)" using inv(3) by auto
    moreover have "row_valid (row_of now (lr_id row) (rs ! i))" using assms(3) i(1) by (intro row_valid_of) simp
    ultimately show ?thesis by metis
  qed
  moreover have "set (g_rows db') = set (g_rows db) \<union> set_mset (done_rows ts)"
    using arg_cong [OF inv(5), of set_mset] by simp
  ultimately show ?thesis using assms(1) inv(1,4) by (auto simp: grid_inv_def)
qed

lemma grid_inv_batch:
  assumes "grid_inv db" and "ingest_batch now schedule db raws = Some (db', res)"
  shows "grid_inv db'"
proof (cases "validate_batch now raws")
  case (Inl es)
  then show ?thesis using assms by (simp add: ingest_batch_def)
next
  case (Inr rs)
  have ok: "\<forall>r\<in>set rs. reading_ok now r" using validate_batch_ok [OF Inr] by simp
  obtain db1 ts where s: "run_schedule now schedule (db, map Lookup rs) = (db1, ts)"
    by (cases "run_schedule now schedule (db, map Lookup rs)")
  have "batch_inv now db rs (db1, ts)"
    using batch_reachable_inv [of now db rs "(db1, ts)"] run_schedule_reachable s assms(1) ok
    by (metis grid_inv_def reading_ok_def)
  then have "grid_inv db1" using grid_inv_batch_inv assms(1) ok by blast
  then show ?thesis using assms Inr s by (auto simp: ingest_batch_def split: if_splits)
qed

text \<open>A forecast is a mean of loads.\<close>

lemma sum_list_le_bound: "\<forall>x\<in>set xs. x \<le> b \<Longrightarrow> sum_list xs \<le> real (length xs) * b"
  by (induction xs) (auto simp: algebra_simps)

lemma sum_list_pos': "xs \<noteq> [] \<Longrightarrow> \<forall>x\<in>set xs. 0 < x \<Longrightarrow> 0 < sum_list (xs :: real list)"
  by (induction xs rule: list_nonempty_induct) (auto intro: add_pos_pos)

lemma forecast_after_ok:
  assumes "cycle_ok env" and "\<forall>row\<in>set (g_rows db). row_valid row" and "forecast_after k env db j nid = Some f"
    and "\<forall>nid f. g_forecasts db nid = Some f \<longrightarrow> forecast_ok f"
  shows "forecast_ok f"
proof (cases "0 < k \<and> k \<le> length (rows_of db nid)")
  case True
  let ?xs = "newest_kwh (e_order env) db nid k"
  have order: "set (e_order env rows) = set rows" "length (e_order env rows) = length rows" for rows
    using assms(1) order_desc.set_order order_desc.length_order unfolding cycle_ok_def by blast+
  have "length ?xs = k" using True order(2) by (simp add: newest_kwh_def)
  moreover have "set ?xs \<subseteq> lr_kwh ` set (rows_of db nid)"
    using set_take_subset [of k "e_order env (rows_of db nid)"] order(1) by (auto simp: newest_kwh_def)
  then have "\<forall>x\<in>set ?xs. 0 < x \<and> x \<le> 10000" using assms(2) row_valid_kwh by (auto simp: rows_of_def)
  ultimately have "0 < sum_list ?xs" "sum_list ?xs \<le> real k * 10000"
    using True sum_list_pos' [of ?xs] sum_list_le_bound [of ?xs 10000] by (cases "?xs = []"; auto)+
  then have "0 < sum_list ?xs / real k" "sum_list ?xs / real k \<le> 10000" using True by (simp_all add: divide_le_eq mult.commute)
  moreover have "f_kwh f = sum_list ?xs / real k" using assms(3) True by (auto simp: forecast_after_def)
  ultimately show ?thesis unfolding forecast_ok_def by simp
next
  case False
  then show ?thesis using assms(3,4) by (auto simp: forecast_after_def split: if_splits)
qed

lemma grid_inv_cycle:
  assumes "grid_inv db" and "cycle_ok env"
  shows "grid_inv (w_db (snd (worker_cycle k env \<lparr>w_db = db, w_metrics = m\<rparr>)))"
proof (cases "fst (worker_cycle k env \<lparr>w_db = db, w_metrics = m\<rparr>)")
  case True
  then show ?thesis using assms(1) by (auto simp: worker_cycle_def Let_def split: if_splits)
next
  case False
  let ?nids = "map s_node (get_node_summaries (e_groups env) db)"
  let ?c = "\<lparr>c_db = db, c_metrics = m, c_processed = 0, c_found = 0, c_error = None\<rparr>"
  from False have ok: "c_error (visit_nodes k env 0 ?nids ?c) = None"
    "w_db (snd (worker_cycle k env \<lparr>w_db = db, w_metrics = m\<rparr>)) = c_db (visit_nodes k env 0 ?nids ?c)"
    by (auto simp: worker_cycle_def Let_def split: if_splits)
  obtain fc where fc: "c_db (visit_nodes k env 0 ?nids ?c) = db\<lparr>g_forecasts := fc\<rparr>" "db_wf (db\<lparr>g_forecasts := fc\<rparr>)"
    "\<And>nid. if nid \<in> set (visited env 0 ?nids) then \<exists>j. fc nid = forecast_after k env db j nid else fc nid = g_forecasts db nid"
    using visit_nodes_spec [of env ?c ?nids k 0, unfolded cycle.simps] cycle_nodes [OF assms(2)] assms ok(1)
    unfolding grid_inv_def by blast
  have "forecast_ok f" if "fc nid = Some f" for nid f
    using fc(3) [of nid] that forecast_after_ok [OF assms(2), of db] assms(1) unfolding grid_inv_def by (metis (no_types))
  then show ?thesis using assms(1) fc(1,2) ok(2) by (simp add: grid_inv_def)
qed

lemma grid_inv_seed_nodes:
  assumes "\<forall>n i. gauss n i \<le> 464" and "\<forall>n i. now \<le> accepted n i" and "\<forall>n\<in>set ns. n < 10 ^ 26" and "grid_inv db"
  shows "grid_inv (snd (seed_nodes now steps gauss accepted ns db))"
  using assms(3,4)
proof (induction ns arbitrary: db)
  case (Cons n ns)
  show ?case
  proof (cases "g_nodes db (node_name (n + 1))")
    case None
    then obtain db1 where db1: "seed_node now steps gauss accepted n db = Inr db1"
      "db1 = db\<lparr>g_nodes := (g_nodes db)(node_name (n + 1) \<mapsto> Commercial),
            g_rows := g_rows db @ seed_rows now steps gauss accepted n (g_next db), g_next := g_next db + steps\<rparr>"
      using seed_node_eq [OF None assms(1)] by blast
    have "db_wf db1" using seed_node_wf db1(1) Cons.prems(2) unfolding grid_inv_def by blast
    moreover have "\<forall>row\<in>set (g_rows db1). row_valid row"
      using Cons.prems seed_rows_valid [OF _ assms(1,2), of n] db1(2) by (auto simp: grid_inv_def)
    ultimately have "grid_inv db1" using Cons.prems(2) db1(2) by (simp add: grid_inv_def)
    then show ?thesis using Cons db1(1) by simp
  next
    case (Some m)
    then show ?thesis using Cons.prems(2) by (simp add: seed_node_def insert_node_def)
  qed
qed simp

lemma grid_inv_step: "grid_step db db' \<Longrightarrow> grid_inv db \<Longrightarrow> grid_inv db'"
proof (induction rule: grid_step.induct)
  case (Seed nodes gauss now accepted db days)
  have "\<forall>n\<in>set [0..<nat nodes]. n < 10 ^ 26" using Seed(1) by auto
  then show ?case using Seed grid_inv_seed_nodes unfolding seed_db_def by blast
qed (blast intro: grid_inv_reading grid_inv_batch grid_inv_cycle)+

lemma grid_reachable_inv: "grid_step\<^sup>*\<^sup>* empty_db db \<Longrightarrow> grid_inv db"
  by (induction rule: rtranclp_induct) (auto intro: grid_inv_empty grid_inv_step)

text \<open>
  C15. Whatever readings, batches (in any interleaving of their coroutines), worker cycles (failing ones included) and seed runs
  happen, in whatever order, from an empty database on: every stored reading is valid (node name, a time
  at most a minute after its acceptance, a load above zero and within the cap of its meter) and belongs to an existing node,
  reading ids are distinct, and every forecast belongs to a node and lies in the range of the loads.
\<close>

theorem grid_reachable_safe:
  assumes "grid_step\<^sup>*\<^sup>* empty_db db"
  shows "(\<forall>row\<in>set (g_rows db). row_valid row \<and> g_nodes db (lr_node row) \<noteq> None) \<and>
    distinct (map lr_id (g_rows db)) \<and>
    (\<forall>nid. case g_forecasts db nid of None \<Rightarrow> True
       | Some f \<Rightarrow> g_nodes db nid \<noteq> None \<and> 0 < f_kwh f \<and> f_kwh f \<le> 10000)"
proof -
  have inv: "db_wf db" "\<forall>row\<in>set (g_rows db). row_valid row" "\<forall>nid f. g_forecasts db nid = Some f \<longrightarrow> forecast_ok f"
    using grid_reachable_inv [OF assms] by (simp_all add: grid_inv_def)
  have "\<forall>nid. case g_forecasts db nid of None \<Rightarrow> True
       | Some f \<Rightarrow> g_nodes db nid \<noteq> None \<and> 0 < f_kwh f \<and> f_kwh f \<le> 10000"
  proof
    fix nid
    show "case g_forecasts db nid of None \<Rightarrow> True | Some f \<Rightarrow> g_nodes db nid \<noteq> None \<and> 0 < f_kwh f \<and> f_kwh f \<le> 10000"
      using inv(1,3) by (fastforce simp: db_wf_def forecast_ok_def split: option.split)
  qed
  then show ?thesis using inv(1,2) by (simp add: db_wf_def)
qed

theorem grid_reachable_safe_witness:
  "distinct (map lr_id (g_rows (snd (seed_db 0 3 2 (\<lambda>_ _. 1) (\<lambda>_ _. 5) empty_db))))"
proof -
  have "grid_step empty_db (snd (seed_db 0 3 2 (\<lambda>_ _. 1) (\<lambda>_ _. 5) empty_db))" by (rule grid_step.Seed) simp_all
  then have "grid_step\<^sup>*\<^sup>* empty_db (snd (seed_db 0 3 2 (\<lambda>_ _. 1) (\<lambda>_ _. 5) empty_db))" by (rule r_into_rtranclp)
  from grid_reachable_safe [OF this] show ?thesis by blast
qed

end
