(* ===== verification/Grid_Shutdown.thy ===== *)
theory Grid_Shutdown
  imports Main
begin

text \<open>
  Starting and stopping the grid forecaster's background task (\<open>ForecastWorker.start\<close>, \<open>stop\<close> and the loop of
  \<open>_run\<close> in \<open>grid_load_forecasting/app/workers/forecaster.py\<close>) under its two hosts: the lifespan handler of
  \<open>app/main.py\<close> and the stand-alone runner \<open>app/workers/standalone.py\<close>. A phase is a place where a task
  waits; what a cycle does to the tables is \<open>Grid_Worker\<close>'s part.
\<close>

section \<open>The worker task\<close>

text \<open>\<open>Cancelled True\<close> is a task cancelled in the middle of a cycle, whose transaction is then rolled back.\<close>

datatype phase = NoTask | Created | InCycle | ErrorSleep | Waiting | Ended | Cancelled bool

datatype host = Serving | Stopping | Closed

record shutdown =
  phase :: phase
  stop_event :: bool
  host :: host
  timed_out :: bool
  begun :: nat
  committed :: nat

definition initial :: shutdown where
  "initial = \<lparr>phase = NoTask, stop_event = False, host = Serving, timed_out = False, begun = 0, committed = 0\<rparr>"

text \<open>\<open>while not self._stop_event.is_set()\<close>\<close>

definition loop_head :: "shutdown \<Rightarrow> shutdown" where
  "loop_head s = (if stop_event s then s\<lparr>phase := Ended\<rparr> else s\<lparr>phase := InCycle, begun := begun s + 1\<rparr>)"

text \<open>
  What ends a wait of the task: its cycle commits or raises, or the time of its pause is over (after an
  error five seconds, which the stop event does not shorten; otherwise the interval, or the stop event).
\<close>

datatype wake = Commit | Raise | Resume

definition wake_task :: "wake \<Rightarrow> shutdown \<Rightarrow> shutdown" where
  "wake_task e s =
     (case (phase s, e) of
        (Created, Resume) \<Rightarrow> loop_head s
      | (InCycle, Commit) \<Rightarrow> s\<lparr>phase := Waiting, committed := committed s + 1\<rparr>
      | (InCycle, Raise) \<Rightarrow> s\<lparr>phase := ErrorSleep\<rparr>
      | (ErrorSleep, Resume) \<Rightarrow> loop_head s
      | (Waiting, Resume) \<Rightarrow> loop_head s
      | _ \<Rightarrow> s)"

text \<open>\<open>CancelledError\<close> is not an \<open>Exception\<close>: it ends the task wherever it waits.\<close>

definition over :: "phase \<Rightarrow> bool" where
  "over p \<longleftrightarrow> (case p of NoTask \<Rightarrow> True | Ended \<Rightarrow> True | Cancelled _ \<Rightarrow> True | _ \<Rightarrow> False)"

definition cancel_task :: "shutdown \<Rightarrow> shutdown" where
  "cancel_task s = (if over (phase s) then s else s\<lparr>phase := Cancelled (phase s = InCycle)\<rparr>)"

definition start_worker :: "shutdown \<Rightarrow> shutdown" where
  "start_worker s = s\<lparr>stop_event := False, phase := Created\<rparr>"

text \<open>
  \<open>stop\<close> sets the event and waits for the task, for at most the interval and five seconds; then it cancels it.
\<close>

definition stop_begin :: "shutdown \<Rightarrow> shutdown" where
  "stop_begin s = s\<lparr>stop_event := True, host := Stopping\<rparr>"

definition stop_end :: "shutdown \<Rightarrow> shutdown" where
  "stop_end s = s\<lparr>host := Closed\<rparr>"

definition stop_timeout :: "shutdown \<Rightarrow> shutdown" where
  "stop_timeout s = (cancel_task s)\<lparr>host := Closed, timed_out := True\<rparr>"

section \<open>The two hosts\<close>

text \<open>The application starts the worker, serves, and awaits \<open>stop\<close> when it shuts down.\<close>

inductive service_step :: "shutdown \<Rightarrow> shutdown \<Rightarrow> bool" where
  Start: "host s = Serving \<Longrightarrow> phase s = NoTask \<Longrightarrow> service_step s (start_worker s)"
| Task: "host s \<noteq> Closed \<Longrightarrow> service_step s (wake_task e s)"
| Shutdown: "host s = Serving \<Longrightarrow> phase s \<noteq> NoTask \<Longrightarrow> service_step s (stop_begin s)"
| Stopped: "host s = Stopping \<Longrightarrow> over (phase s) \<Longrightarrow> service_step s (stop_end s)"
| Timeout: "host s = Stopping \<Longrightarrow> \<not> over (phase s) \<Longrightarrow> service_step s (stop_timeout s)"

text \<open>
  The stand-alone runner: a signal starts \<open>stop\<close> as a task of its own, while \<open>main\<close> waits for the event
  only; when \<open>main\<close> returns, \<open>asyncio.run\<close> cancels the tasks that are left.
\<close>

inductive standalone_step :: "shutdown \<Rightarrow> shutdown \<Rightarrow> bool" where
  Start: "host s = Serving \<Longrightarrow> phase s = NoTask \<Longrightarrow> standalone_step s (start_worker s)"
| Task: "host s \<noteq> Closed \<Longrightarrow> standalone_step s (wake_task e s)"
| Signal: "host s = Serving \<Longrightarrow> phase s \<noteq> NoTask \<Longrightarrow> standalone_step s (stop_begin s)"
| Timeout: "host s = Stopping \<Longrightarrow> \<not> over (phase s) \<Longrightarrow> standalone_step s ((cancel_task s)\<lparr>timed_out := True\<rparr>)"
| Main: "stop_event s \<Longrightarrow> host s \<noteq> Closed \<Longrightarrow> standalone_step s ((cancel_task s)\<lparr>host := Closed\<rparr>)"

section \<open>What a shutdown does to a cycle\<close>

definition shutdown_inv :: "shutdown \<Rightarrow> bool" where
  "shutdown_inv s \<longleftrightarrow>
     (host s = Closed \<longrightarrow> over (phase s)) \<and> (phase s = NoTask \<longrightarrow> host s = Serving) \<and>
     (stop_event s \<longleftrightarrow> host s \<noteq> Serving) \<and> (phase s = Ended \<longrightarrow> stop_event s) \<and>
     ((\<exists>b. phase s = Cancelled b) \<longrightarrow> timed_out s) \<and> committed s \<le> begun s \<and>
     (phase s = InCycle \<longrightarrow> committed s < begun s)"

lemma inv_wake: "shutdown_inv s \<Longrightarrow> shutdown_inv (wake_task e s)"
  by (cases "phase s"; cases e; cases "stop_event s") (auto simp: wake_task_def shutdown_inv_def loop_head_def over_def)

lemma service_step_inv: "service_step s t \<Longrightarrow> shutdown_inv s \<Longrightarrow> shutdown_inv t"
proof (induction rule: service_step.induct)
  case (Task s e)
  then show ?case by (blast intro: inv_wake)
next
  case (Start s)
  then show ?case by (auto simp: shutdown_inv_def start_worker_def over_def)
next
  case (Shutdown s)
  then show ?case by (auto simp: shutdown_inv_def stop_begin_def)
next
  case (Stopped s)
  then show ?case by (auto simp: shutdown_inv_def stop_end_def over_def)
next
  case (Timeout s)
  then show ?case by (auto simp: shutdown_inv_def stop_timeout_def cancel_task_def over_def)
qed

lemma shutdown_inv_initial: "shutdown_inv initial"
  by (simp add: shutdown_inv_def initial_def)

lemma service_reachable_inv: "service_step\<^sup>*\<^sup>* initial s \<Longrightarrow> shutdown_inv s"
  by (induction rule: rtranclp_induct) (auto intro: service_step_inv shutdown_inv_initial)

text \<open>After the stop event the task needs at most two wakes to end: of a cycle that raises and of its pause.\<close>

lemma ends_soon:
  assumes "stop_event s" and "phase s \<in> {Created, InCycle, ErrorSleep, Waiting}"
  shows "phase (wake_task Resume (wake_task Raise s)) = Ended \<and> phase (wake_task Resume (wake_task Commit s)) = Ended"
  using assms by (auto simp: wake_task_def loop_head_def)

text \<open>
  C30. Under the application, a worker is cancelled only when the wait of \<open>stop\<close> has timed out; the shutdown is over only when the task
  is; and from the stop event on no cycle begins and the task ends by itself within two wakes. The
  stand-alone runner gives no such guarantee: it can cancel the task in the middle of its first cycle
  as soon as a signal arrives, without any timeout, and nothing of the cycle is stored.
\<close>

theorem shutdown_spec:
  assumes "service_step\<^sup>*\<^sup>* initial s"
  shows "((\<exists>b. phase s = Cancelled b) \<longrightarrow> timed_out s) \<and> (host s = Closed \<longrightarrow> over (phase s)) \<and>
    (stop_event s \<longrightarrow> begun (wake_task e s) = begun s) \<and>
    (stop_event s \<and> \<not> over (phase s) \<longrightarrow>
       phase (wake_task Resume (wake_task Raise s)) = Ended \<and> phase (wake_task Resume (wake_task Commit s)) = Ended) \<and>
    standalone_step\<^sup>*\<^sup>* initial \<lparr>phase = Cancelled True, stop_event = True, host = Closed, timed_out = False, begun = 1, committed = 0\<rparr>"
proof -
  have inv: "shutdown_inv s" by (rule service_reachable_inv [OF assms])
  have "begun (wake_task e s) = begun s" if "stop_event s"
    using that by (cases "phase s"; cases e) (auto simp: wake_task_def loop_head_def)
  moreover have "phase s \<in> {Created, InCycle, ErrorSleep, Waiting}" if "\<not> over (phase s)"
    using that by (cases "phase s") (auto simp: over_def)
  moreover have "standalone_step\<^sup>*\<^sup>* initial
      \<lparr>phase = Cancelled True, stop_event = True, host = Closed, timed_out = False, begun = 1, committed = 0\<rparr>"
  proof -
    let ?s1 = "start_worker initial"
    let ?s2 = "wake_task Resume ?s1"
    let ?s3 = "stop_begin ?s2"
    have "standalone_step initial ?s1" by (rule standalone_step.Start) (simp_all add: initial_def)
    moreover have "standalone_step ?s1 ?s2" by (rule standalone_step.Task) (simp add: initial_def start_worker_def)
    moreover have "standalone_step ?s2 ?s3"
      by (rule standalone_step.Signal) (simp_all add: wake_task_def initial_def start_worker_def loop_head_def)
    moreover have "standalone_step ?s3 ((cancel_task ?s3)\<lparr>host := Closed\<rparr>)"
      by (rule standalone_step.Main) (simp_all add: wake_task_def initial_def start_worker_def loop_head_def stop_begin_def)
    moreover have "(cancel_task ?s3)\<lparr>host := Closed\<rparr> =
        \<lparr>phase = Cancelled True, stop_event = True, host = Closed, timed_out = False, begun = 1, committed = 0\<rparr>"
      by (simp add: wake_task_def initial_def start_worker_def loop_head_def stop_begin_def cancel_task_def over_def)
    ultimately show ?thesis by (metis (no_types, lifting) converse_rtranclp_into_rtranclp rtranclp.rtrancl_refl)
  qed
  ultimately show ?thesis using inv ends_soon by (auto simp: shutdown_inv_def)
qed

theorem shutdown_spec_witness:
  "let s = stop_begin (wake_task Resume (start_worker initial))
   in phase (wake_task Resume (wake_task Raise s)) = Ended \<and> begun (wake_task Commit s) = begun s"
proof -
  let ?s1 = "start_worker initial"
  let ?s2 = "wake_task Resume ?s1"
  have "service_step initial ?s1" by (rule service_step.Start) (simp_all add: initial_def)
  moreover have "service_step ?s1 ?s2" by (rule service_step.Task) (simp add: initial_def start_worker_def)
  moreover have "service_step ?s2 (stop_begin ?s2)"
    by (rule service_step.Shutdown) (simp_all add: wake_task_def initial_def start_worker_def loop_head_def)
  ultimately have "service_step\<^sup>*\<^sup>* initial (stop_begin ?s2)"
    by (meson converse_rtranclp_into_rtranclp rtranclp.rtrancl_refl)
  moreover have "stop_event (stop_begin ?s2)" "\<not> over (phase (stop_begin ?s2))"
    by (simp_all add: wake_task_def initial_def start_worker_def loop_head_def stop_begin_def over_def)
  ultimately show ?thesis using shutdown_spec [of "stop_begin ?s2" Commit] by (simp add: Let_def)
qed

end
