(* ===== verification/Ev_Api.thy ===== *)
theory Ev_Api
  imports Ev_Sequences
begin

text \<open>
  The orchestrator's HTTP interface (\<open>ev_battery_hil/orchestrator/app/main.py\<close>), the fault injector
  (\<open>app/fault_injector.py\<close>) and the request bodies (\<open>app/models.py\<close>). The three globals are set
  together by the lifespan handler: \<open>a_up\<close>. The client is the engine's.
\<close>

section \<open>The event log\<close>

record log_event =
  l_timestamp :: int
  l_component :: string
  l_event :: string
  l_args :: "(string \<times> cmd_value option) list"

text \<open>\<open>deque(maxlen=1000)\<close> drops from the front.\<close>

definition log_maxlen :: nat where
  "log_maxlen = 1000"

definition deque_append :: "nat \<Rightarrow> 'a list \<Rightarrow> 'a \<Rightarrow> 'a list" where
  "deque_append n xs x = (let ys = xs @ [x] in drop (length ys - n) ys)"

definition record_event ::
  "int \<Rightarrow> string \<Rightarrow> string \<Rightarrow> (string \<times> cmd_value option) list \<Rightarrow> log_event list \<Rightarrow> log_event list" where
  "record_event now component event args entries =
     deque_append log_maxlen entries
       \<lparr>l_timestamp = now, l_component = component, l_event = event, l_args = args\<rparr>"

record app =
  a_up :: bool
  a_engine :: engine
  a_log :: "log_event list"

abbreviation the_client :: "app \<Rightarrow> client" where
  "the_client app \<equiv> e_client (a_engine app)"

definition with_client :: "(client \<Rightarrow> client) \<Rightarrow> app \<Rightarrow> app" where
  "with_client f app = app\<lparr>a_engine := (a_engine app)\<lparr>e_client := f (the_client app)\<rparr>\<rparr>"

definition logged :: "int \<Rightarrow> string \<Rightarrow> (string \<times> cmd_value option) list \<Rightarrow> app \<Rightarrow> app" where
  "logged now event args app = app\<lparr>a_log := record_event now ''api'' event args (a_log app)\<rparr>"

datatype ev_error =
    NoTelemetry | NotConnected | EngineNotReady | InjectorNotReady | NotStarted | Invalid
  | SequenceError seq_error | ServerError

section \<open>Fault injection\<close>

datatype fault_error = UnknownFault | BadDuration

definition thermal_runaway :: message where
  "thermal_runaway = \<lparr>command = ''SET_FAULT'', cvalue = Some (VStr ''THERMAL_RUNAWAY'')\<rparr>"

definition overcurrent :: message where
  "overcurrent = \<lparr>command = ''SET_CURRENT'', cvalue = Some (VNum 300)\<rparr>"

text \<open>
  The dropout: \<open>float(params.get("duration_s", 5))\<close> raises before anything is done; then the client
  is disconnected and the injector sleeps, while \<open>during d\<close> happens to the client.
\<close>

definition sensor_dropout ::
  "(real \<Rightarrow> client \<Rightarrow> client) \<Rightarrow> real field \<Rightarrow> client \<Rightarrow> fault_error + client" where
  "sensor_dropout during duration c =
     (case (case duration of Absent \<Rightarrow> Some 5 | Val d \<Rightarrow> Some d | Bad \<Rightarrow> None) of
        None \<Rightarrow> Inl BadDuration
      | Some d \<Rightarrow> Inr (during d (disconnect c)))"

definition inject ::
  "bool \<Rightarrow> (real \<Rightarrow> client \<Rightarrow> client) \<Rightarrow> string \<Rightarrow> real field \<Rightarrow> client \<Rightarrow> fault_error + client" where
  "inject ok during fault_type duration c =
     (if fault_type = ''THERMAL_RUNAWAY'' then Inr (send_command ok thermal_runaway c)
      else if fault_type = ''SENSOR_DROPOUT'' then sensor_dropout during duration c
      else if fault_type = ''OVERCURRENT'' then Inr (send_command ok overcurrent c)
      else Inl UnknownFault)"

section \<open>The endpoints\<close>

definition get_status :: "app \<Rightarrow> (ev_error, telemetry_frame) response" where
  "get_status app =
     (if \<not> a_up app then Inl (HTTPException 503 NoTelemetry)
      else case last_frame (the_client app) of
             None \<Rightarrow> Inl (HTTPException 503 NoTelemetry)
           | Some f \<Rightarrow> Inr f)"

definition load_commands :: "string list" where
  "load_commands = [''SET_CURRENT'', ''SET_MODE'', ''RESET'', ''SET_FAULT'']"

definition fault_types :: "string list" where
  "fault_types = [''THERMAL_RUNAWAY'', ''SENSOR_DROPOUT'', ''OVERCURRENT'']"

definition post_command :: "int \<Rightarrow> bool \<Rightarrow> message \<Rightarrow> app \<Rightarrow> app \<times> (ev_error, bool) response" where
  "post_command now ok m app =
     (if command m \<notin> set load_commands then (app, Inl (HTTPException 422 Invalid))
      else if \<not> a_up app then (app, Inl (HTTPException 503 NotConnected))
      else (logged now ''command_sent'' [(''command'', Some (VStr (command m))), (''value'', cvalue m)]
              (with_client (send_command ok m) app), Inr True))"

definition post_start ::
  "int \<Rightarrow> string list \<Rightarrow> (string list \<Rightarrow> seq_file option) \<Rightarrow> string \<Rightarrow> app \<Rightarrow> app \<times> (ev_error, string) response" where
  "post_start now dir files sid app =
     (if \<not> a_up app then (app, Inl (HTTPException 503 EngineNotReady))
      else case start_sequence dir files sid (a_engine app) of
             Inl e \<Rightarrow> (app, if e = YamlError then Inl (HTTPException 500 ServerError)
                           else Inl (HTTPException 409 (SequenceError e)))
           | Inr (eng, spec) \<Rightarrow>
               (logged now ''sequence_started'' [(''seq_id'', Some (VStr sid))] (app\<lparr>a_engine := eng\<rparr>), Inr sid))"

definition sequence_status :: "app \<Rightarrow> string \<Rightarrow> (ev_error, bool \<times> real \<times> telemetry_frame option) response" where
  "sequence_status app sid =
     (if \<not> a_up app then Inl (HTTPException 503 EngineNotReady)
      else case Ev_Sequences.status (a_engine app) sid of
             None \<Rightarrow> Inl (HTTPException 404 NotStarted)
           | Some r \<Rightarrow> Inr (is_running r, elapsed_s r, last_telemetry r))"

definition inject_fault ::
  "int \<Rightarrow> bool \<Rightarrow> (real \<Rightarrow> client \<Rightarrow> client) \<Rightarrow> string \<Rightarrow> real field \<Rightarrow> app \<Rightarrow> app \<times> (ev_error, string) response" where
  "inject_fault now ok during fault_type duration app =
     (if fault_type \<notin> set fault_types then (app, Inl (HTTPException 422 Invalid))
      else if \<not> a_up app then (app, Inl (HTTPException 503 InjectorNotReady))
      else case inject ok during fault_type duration (the_client app) of
             Inl _ \<Rightarrow> (app, Inl (HTTPException 500 ServerError))
           | Inr c \<Rightarrow> (logged now ''fault_injected'' [(''fault_type'', Some (VStr fault_type))]
                        (with_client (\<lambda>_. c) app), Inr fault_type))"

text \<open>
  \<open>GET /api/logs\<close>: entries carry a time zone, and comparing one with a naive \<open>since\<close> raises
  \<open>TypeError\<close>.
\<close>

definition get_logs :: "pytime option \<Rightarrow> app \<Rightarrow> (ev_error, log_event list) response" where
  "get_logs since app =
     (case since of
        None \<Rightarrow> Inr (a_log app)
      | Some (Aware t) \<Rightarrow> Inr (filter (\<lambda>e. t \<le> l_timestamp e) (a_log app))
      | Some (Naive t) \<Rightarrow>
          if a_log app = [] then Inr [] else Inl (HTTPException 500 ServerError))"

section \<open>Properties\<close>

lemma deque_appends: "foldl (deque_append n) (drop (length xs - n) xs) ys = drop (length (xs @ ys) - n) (xs @ ys)"
proof (induction ys arbitrary: xs)
  case (Cons y ys)
  have "deque_append n (drop (length xs - n) xs) y = drop (length (xs @ [y]) - n) (xs @ [y])"
    by (cases "length xs < n") (auto simp: deque_append_def Let_def drop_Suc_Cons Suc_diff_le)
  with Cons.IH [of "xs @ [y]"] show ?case by simp
qed simp

definition mk_event :: "int \<times> string \<times> string \<times> (string \<times> cmd_value option) list \<Rightarrow> log_event" where
  "mk_event ev = (let (now, component, event, args) = ev in
     \<lparr>l_timestamp = now, l_component = component, l_event = event, l_args = args\<rparr>)"

lemma recorded_log:
  "foldl (\<lambda>entries (now, component, event, args). record_event now component event args entries) [] evs =
     drop (length evs - 1000) (map mk_event evs)"
proof -
  have "foldl (\<lambda>entries (now, component, event, args). record_event now component event args entries) l evs =
      foldl (deque_append log_maxlen) l (map mk_event evs)" for l
    by (induction evs arbitrary: l) (auto simp: record_event_def mk_event_def)
  then show ?thesis
    using deque_appends [of log_maxlen "[]" "map mk_event evs"] by (simp add: log_maxlen_def)
qed

text \<open>
  The event log holds exactly the last thousand events recorded, oldest first, however many
  there have been.
\<close>

theorem event_log_last_thousand:
  "let entries = foldl (\<lambda>entries (now, component, event, args).
         record_event now component event args entries) [] evs
   in entries = drop (length evs - 1000) (map mk_event evs) \<and> length entries = min 1000 (length evs)"
  unfolding recorded_log Let_def by simp

text \<open>
  Every state-changing endpoint leaves the application untouched when it refuses a request, and
  records exactly one event of its kind when it accepts it. Acceptance of a command does not mean
  delivery: without a connection the command is dropped and the answer is the same.
\<close>

theorem endpoints_audit:
  "(case post_command now ok m app of
      (app', Inl _) \<Rightarrow> app' = app
    | (app', Inr b) \<Rightarrow> b \<and> command m \<in> set load_commands \<and> the_client app' = send_command ok m (the_client app) \<and>
        (\<exists>e. l_event e = ''command_sent'' \<and> a_log app' = deque_append 1000 (a_log app) e)) \<and>
   (case post_start now dir files sid app of
      (app', Inl _) \<Rightarrow> app' = app
    | (app', Inr _) \<Rightarrow> (\<exists>spec. start_sequence dir files sid (a_engine app) = Inr (a_engine app', spec)) \<and>
        (\<exists>e. l_event e = ''sequence_started'' \<and> a_log app' = deque_append 1000 (a_log app) e)) \<and>
   (case inject_fault now ok during ft dur app of
      (app', Inl _) \<Rightarrow> app' = app
    | (app', Inr _) \<Rightarrow> inject ok during ft dur (the_client app) = Inr (the_client app') \<and>
        (\<exists>e. l_event e = ''fault_injected'' \<and> a_log app' = deque_append 1000 (a_log app) e)) \<and>
   (a_up app \<and> command m \<in> set load_commands \<and> writer (the_client app) = None \<longrightarrow>
      snd (post_command now ok m app) = Inr True \<and> the_client (fst (post_command now ok m app)) = the_client app)"
proof -
  have ev: "\<exists>e. l_event e = ev \<and> record_event now ''api'' ev args l = deque_append 1000 l e" for ev args l
    by (rule exI [of _ "\<lparr>l_timestamp = now, l_component = ''api'', l_event = ev, l_args = args\<rparr>"])
       (simp add: record_event_def log_maxlen_def)
  show ?thesis
    using ev
    by (auto simp: post_command_def post_start_def inject_fault_def logged_def with_client_def
        send_command_def [of ok m "the_client app"] split: sum.split)
qed

definition sample_app :: app where
  "sample_app = \<lparr>a_up = True, a_engine = \<lparr>e_runs = Map.empty, e_client = client_init, e_rows = [], e_next = 1\<rparr>,
     a_log = []\<rparr>"

theorem endpoints_audit_witness:
  "snd (post_command 5 True \<lparr>command = ''RESET'', cvalue = None\<rparr> sample_app) = Inr True"
  using endpoints_audit [where app = sample_app and m = "\<lparr>command = ''RESET'', cvalue = None\<rparr>"
      and now = 5 and ok = True]
  by (simp add: sample_app_def load_commands_def client_init_def)

lemma filter_sorted_dropWhile:
  assumes "sorted (map f xs)"
  shows "filter (\<lambda>x. t \<le> f x) xs = dropWhile (\<lambda>x. f x < t) xs"
  using assms
proof (induction xs)
  case (Cons x xs)
  show ?case
  proof (cases "t \<le> f x")
    case True
    with Cons.prems have "\<forall>y\<in>set xs. t \<le> f y" by (auto intro: order_trans)
    then have "filter (\<lambda>x. t \<le> f x) xs = xs" by (simp add: filter_id_conv)
    with True show ?thesis by simp
  qed (use Cons in auto)
qed simp

text \<open>
  \<open>GET /api/logs\<close> after any events recorded by a clock that does not go back: a \<open>since\<close> with a
  time zone cuts the kept log at the first event that is not older, a \<open>since\<close> before all of them
  returns it whole, and a naive \<open>since\<close> fails with 500 as soon as one event has been recorded.
\<close>

theorem get_logs_spec:
  assumes "a_log app = foldl (\<lambda>entries (now, component, event, args).
      record_event now component event args entries) [] evs" and "sorted (map fst evs)"
  shows "get_logs (Some (Aware t)) app =
      Inr (dropWhile (\<lambda>e. l_timestamp e < t) (drop (length evs - 1000) (map mk_event evs))) \<and>
    ((\<forall>ev\<in>set evs. t \<le> fst ev) \<longrightarrow> get_logs (Some (Aware t)) app = get_logs None app) \<and>
    (get_logs (Some (Naive t)) app = Inl (HTTPException 500 ServerError) \<longleftrightarrow> evs \<noteq> [])"
proof -
  have log: "a_log app = drop (length evs - 1000) (map mk_event evs)"
    using assms(1) recorded_log by simp
  have "map l_timestamp (map mk_event evs) = map fst evs"
    by (auto simp: mk_event_def)
  then have "sorted (map l_timestamp (a_log app))"
    using assms(2) by (simp add: log drop_map [symmetric] sorted_wrt_drop del: map_map)
  then have "filter (\<lambda>e. t \<le> l_timestamp e) (a_log app) = dropWhile (\<lambda>e. l_timestamp e < t) (a_log app)"
    by (rule filter_sorted_dropWhile)
  moreover have "filter (\<lambda>e. t \<le> l_timestamp e) (a_log app) = a_log app" if "\<forall>ev\<in>set evs. t \<le> fst ev"
    using that by (force simp: log filter_id_conv mk_event_def dest!: in_set_dropD)
  moreover have "a_log app = [] \<longleftrightarrow> evs = []"
    by (cases evs) (auto simp: log)
  ultimately show ?thesis by (simp add: get_logs_def flip: log)
qed

theorem get_logs_spec_witness:
  "get_logs (Some (Naive 4)) (logged 5 ''x'' [] sample_app) = Inl (HTTPException 500 ServerError)"
  using get_logs_spec [of "logged 5 ''x'' [] sample_app" "[(5, ''api'', ''x'', [])]" 4]
  by (simp add: logged_def sample_app_def)

end
