(* ===== verification/Ev_Lifespan.thy ===== *)
theory Ev_Lifespan
  imports Ev_Api
begin

text \<open>
  Start-up and shutdown of the orchestrator: the lifespan handler of
  \<open>ev_battery_hil/orchestrator/app/main.py\<close> and the systemd watchdog of \<open>app/fault_injector.py\<close>; and what a shutdown does to
  a sequence that is still running, whose task no handler stops: it is cancelled at the end of the event loop.
\<close>

section \<open>The watchdog\<close>

datatype watchdog = NotStarted | Sleeping_10s | Cancelled_watchdog

record orchestrator =
  o_app :: app
  o_addr :: "string \<times> int"
  o_watchdog :: watchdog
  o_pings :: nat

text \<open>
  \<open>_send_watchdog_ping\<close>: nothing without \<open>NOTIFY_SOCKET\<close>; an \<open>OSError\<close> (\<open>ok\<close> false) is only logged.
\<close>

definition send_watchdog_ping :: "string option \<Rightarrow> bool \<Rightarrow> orchestrator \<Rightarrow> orchestrator" where
  "send_watchdog_ping notify_socket ok o' =
     (case notify_socket of
        None \<Rightarrow> o'
      | Some s \<Rightarrow> if s = [] \<or> \<not> ok then o' else o'\<lparr>o_pings := o_pings o' + 1\<rparr>)"

text \<open>One pass of \<open>_watchdog_loop\<close>: ten seconds are over.\<close>

definition watchdog_wake :: "string option \<Rightarrow> bool \<Rightarrow> orchestrator \<Rightarrow> orchestrator" where
  "watchdog_wake notify_socket ok o' =
     (if o_watchdog o' = Sleeping_10s then send_watchdog_ping notify_socket ok o' else o')"

definition injector_start :: "orchestrator \<Rightarrow> orchestrator" where
  "injector_start o' = o'\<lparr>o_watchdog := Sleeping_10s\<rparr>"

definition injector_stop :: "orchestrator \<Rightarrow> orchestrator" where
  "injector_stop o' = (if o_watchdog o' = NotStarted then o' else o'\<lparr>o_watchdog := Cancelled_watchdog\<rparr>)"

section \<open>The lifespan\<close>

definition no_globals :: orchestrator where
  "no_globals =
     \<lparr>o_app = \<lparr>a_up = False, a_engine = \<lparr>e_runs = Map.empty, e_client = client_init, e_rows = [], e_next = 1\<rparr>, a_log = []\<rparr>,
      o_addr = ([], 0), o_watchdog = NotStarted, o_pings = 0\<rparr>"

text \<open>
  Before \<open>yield\<close>: the address from the environment (a port that is no number raises), a new client,
  engine and injector, and their tasks. \<open>int_of\<close> is \<open>int\<close> on strings. The snapshot table is a file and keeps its rows.
\<close>

definition lifespan_start :: "(string \<Rightarrow> int option) \<Rightarrow> string option \<Rightarrow> string option \<Rightarrow> orchestrator \<Rightarrow> orchestrator option" where
  "lifespan_start int_of host_env port_env o' =
     (let host = (case host_env of None \<Rightarrow> ''localhost'' | Some h \<Rightarrow> h)
      in case int_of (case port_env of None \<Rightarrow> ''5555'' | Some p \<Rightarrow> p) of
           None \<Rightarrow> None
         | Some port \<Rightarrow>
             (let eng = (a_engine (o_app o'))\<lparr>e_runs := Map.empty, e_client := start client_init\<rparr>
              in Some (injector_start (o'\<lparr>o_app := (o_app o')\<lparr>a_up := True, a_engine := eng\<rparr>, o_addr := (host, port)\<rparr>))))"

text \<open>After \<open>yield\<close>: injector, then client; \<open>es\<close> is what happens to the client while \<open>stop\<close> waits.\<close>

definition lifespan_stop :: "(string \<Rightarrow> telemetry_frame option) \<Rightarrow> event list \<Rightarrow> orchestrator \<Rightarrow> orchestrator" where
  "lifespan_stop decode es o' =
     (let o' = injector_stop o' in o'\<lparr>o_app := with_client (stop decode es) (o_app o')\<rparr>)"

text \<open>
  The task of a run that is cancelled while it waits: \<open>CancelledError\<close> passes the \<open>except\<close> clause, and the
  \<open>finally\<close> clause runs with the client as it is then.
\<close>

definition cancel_run :: "run_env \<Rightarrow> client \<Rightarrow> exec \<Rightarrow> exec" where
  "cancel_run env c x = exec_finally env (x\<lparr>x_client := c\<rparr>)"

section \<open>Shutdown\<close>

lemma sent_connect_loop [simp]: "sent (connect_loop decode c e) = sent c"
  by (cases "phase c"; cases e) (auto simp: connect_loop_def loop_head_def Let_def split: option.splits)

lemma sent_events [simp]: "sent (foldl (connect_loop decode) c es) = sent c"
  by (induction es arbitrary: c) auto

lemma sent_stop [simp]: "sent (stop decode es c) = sent c"
  by (simp add: stop_def close_writer_def split: option.split)

text \<open>
  C17. A shutdown during a test: the watchdog and the client's task are over and the client holds no
  connection; when the task of a running sequence is then cancelled, its clean-up marks the run as over and
  does call \<open>SET_CURRENT 0\<close>, but the call is dropped: the simulator receives nothing more and keeps
  the last current that was commanded.
\<close>

theorem shutdown_keeps_load:
  fixes o' :: orchestrator and decode and es and env and x
  assumes "client_inv (the_client (o_app o'))" and "phase (the_client (o_app o')) \<noteq> Idle" and "o_watchdog o' = Sleeping_10s"
  defines "down \<equiv> lifespan_stop decode es o'"
  defines "x' \<equiv> cancel_run env (the_client (o_app down)) x"
  shows "watchdog_wake notify ok down = down \<and> writer (the_client (o_app down)) = None \<and>
    phase (the_client (o_app down)) \<in> {Finished, Crashed} \<and>
    \<not> is_running (x_run x') \<and> last (x_calls x') = zero_current \<and>
    sent (x_client x') = sent (the_client (o_app o'))"
proof -
  have down: "the_client (o_app down) = stop decode es (the_client (o_app o'))" "o_watchdog down = Cancelled_watchdog"
    using assms(3) by (simp_all add: down_def lifespan_stop_def injector_stop_def with_client_def Let_def)
  have "writer (the_client (o_app down)) = None" "phase (the_client (o_app down)) \<in> {Finished, Crashed}"
    using client_stop [OF assms(1,2), of decode es] unfolding down(1) by blast+
  moreover have "watchdog_wake notify ok down = down" using down(2) by (simp add: watchdog_wake_def)
  ultimately show ?thesis
    by (auto simp: x'_def cancel_run_def exec_finally_def exec_send_def Let_def send_command_def down(1))
qed

theorem shutdown_keeps_load_witness:
  "let c = send_command True \<lparr>command = ''SET_CURRENT'', cvalue = Some (VNum 200)\<rparr> (connect_loop sample_decode (start client_init) (Connected 3));
       o' = no_globals\<lparr>o_app := with_client (\<lambda>_. c) (o_app no_globals), o_watchdog := Sleeping_10s\<rparr>;
       x' = cancel_run idle_env (the_client (o_app (lifespan_stop sample_decode [] o'))) sample_exec
   in last (x_calls x') = zero_current \<and> sent (x_client x') = [(3, \<lparr>command = ''SET_CURRENT'', cvalue = Some (VNum 200)\<rparr>)]"
proof -
  let ?c = "send_command True \<lparr>command = ''SET_CURRENT'', cvalue = Some (VNum 200)\<rparr> (connect_loop sample_decode (start client_init) (Connected 3))"
  let ?o = "no_globals\<lparr>o_app := with_client (\<lambda>_. ?c) (o_app no_globals), o_watchdog := Sleeping_10s\<rparr>"
  have c: "the_client (o_app ?o) = ?c" by (simp add: with_client_def)
  have sent: "sent ?c = [(3, \<lparr>command = ''SET_CURRENT'', cvalue = Some (VNum 200)\<rparr>)]" and "phase ?c = Reading" "client_inv ?c"
    by (simp_all add: start_def loop_head_def client_init_def connect_loop_def send_command_def client_inv_def)
  then have "client_inv (the_client (o_app ?o))" "phase (the_client (o_app ?o)) \<noteq> Idle" "o_watchdog ?o = Sleeping_10s"
    unfolding c by simp_all
  from shutdown_keeps_load [OF this, where decode = sample_decode and es = "[]" and env = idle_env and x = sample_exec] show ?thesis
    unfolding Let_def c sent by blast
qed

end
