(* ===== verification/Bms_Battery.thy ===== *)
theory Bms_Battery
  imports Prelude
begin

text \<open>
  The battery of the simulator daemon (\<open>ev_battery_hil/bms/src/BatteryModel.h\<close>, \<open>BatteryModel.cpp\<close>): a Thevenin
  model integrated by one Runge-Kutta step of fourth order each millisecond. Doubles are reals.
\<close>

section \<open>State and constants\<close>

datatype fault = NONE | OVERTEMPERATURE | UNDERVOLTAGE | OVERVOLTAGE | OVERCURRENT

definition fault_code_name :: "fault \<Rightarrow> string" where
  "fault_code_name f =
     (case f of
        NONE \<Rightarrow> ''NONE'' | OVERTEMPERATURE \<Rightarrow> ''OVERTEMPERATURE'' | UNDERVOLTAGE \<Rightarrow> ''UNDERVOLTAGE''
      | OVERVOLTAGE \<Rightarrow> ''OVERVOLTAGE'' | OVERCURRENT \<Rightarrow> ''OVERCURRENT'')"

record battery =
  b_soc :: real
  b_v :: real
  b_vrc :: real
  b_i :: real
  b_t :: real
  b_fault :: fault
  b_block :: bool

definition battery_init :: battery where
  "battery_init = \<lparr>b_soc = 1, b_v = 32 / 10, b_vrc = 0, b_i = 0, b_t = 25, b_fault = NONE, b_block = False\<rparr>"

definition R0 :: real where "R0 = 1 / 100"
definition R1 :: real where "R1 = 5 / 1000"
definition C1 :: real where "C1 = 2000"
definition Q_NOM :: real where "Q_NOM = 100"
definition ETA :: real where "ETA = 98 / 100"
definition M_CP :: real where "M_CP = 25000"
definition H_A :: real where "H_A = 10"
definition T_AMB :: real where "T_AMB = 25"
definition I_MAX :: real where "I_MAX = 250"
definition T_FAULT :: real where "T_FAULT = 80"
definition T_WARN :: real where "T_WARN = 60"
definition E_WARN :: real where "E_WARN = 875"
definition E_FAULT :: real where "E_FAULT = 1375"
definition SOC_LOW :: real where "SOC_LOW = 5 / 100"
definition SOC_HIGH :: real where "SOC_HIGH = 95 / 100"
definition DT :: real where "DT = 1 / 1000"

lemmas constants = R0_def R1_def C1_def Q_NOM_def ETA_def M_CP_def H_A_def T_AMB_def I_MAX_def T_FAULT_def T_WARN_def
  E_WARN_def E_FAULT_def SOC_LOW_def SOC_HIGH_def DT_def

definition v_ocv :: "real \<Rightarrow> real" where
  "v_ocv soc = 32 / 10 + 12 / 10 * soc"

section \<open>One step\<close>

record deriv =
  d_soc :: real
  d_v_rc :: real
  d_t_cell :: real

definition derivatives :: "real \<Rightarrow> real \<Rightarrow> real \<Rightarrow> real \<Rightarrow> bool \<Rightarrow> deriv" where
  "derivatives soc v_rc t_cell i block_cool =
     (let p_heat = i * i * R0;
          p_cool = (if block_cool then 0 else H_A * (t_cell - T_AMB))
      in \<lparr>d_soc = - ETA * i / (3600 * Q_NOM), d_v_rc = - v_rc / (R1 * C1) + i / C1, d_t_cell = (p_heat - p_cool) / M_CP\<rparr>)"

definition rk4_sum :: "real \<Rightarrow> real \<Rightarrow> real \<Rightarrow> real \<Rightarrow> real" where
  "rk4_sum k1 k2 k3 k4 = DT / 6 * (k1 + 2 * k2 + 2 * k3 + k4)"

text \<open>The slopes \<open>k1\<close> to \<open>k4\<close>: at the state, twice half a step ahead, and a whole step ahead.\<close>

definition ahead :: "real \<Rightarrow> deriv \<Rightarrow> battery \<Rightarrow> deriv" where
  "ahead h k s = derivatives (b_soc s + h * d_soc k) (b_vrc s + h * d_v_rc k) (b_t s + h * d_t_cell k) (b_i s) (b_block s)"

definition k1 :: "battery \<Rightarrow> deriv" where
  "k1 s = derivatives (b_soc s) (b_vrc s) (b_t s) (b_i s) (b_block s)"

definition k2 :: "battery \<Rightarrow> deriv" where
  "k2 s = ahead (1 / 2 * DT) (k1 s) s"

definition k3 :: "battery \<Rightarrow> deriv" where
  "k3 s = ahead (1 / 2 * DT) (k2 s) s"

definition k4 :: "battery \<Rightarrow> deriv" where
  "k4 s = ahead DT (k3 s) s"

definition integrate :: "battery \<Rightarrow> battery" where
  "integrate s =
     s\<lparr>b_soc := b_soc s + rk4_sum (d_soc (k1 s)) (d_soc (k2 s)) (d_soc (k3 s)) (d_soc (k4 s)),
       b_vrc := b_vrc s + rk4_sum (d_v_rc (k1 s)) (d_v_rc (k2 s)) (d_v_rc (k3 s)) (d_v_rc (k4 s)),
       b_t := b_t s + rk4_sum (d_t_cell (k1 s)) (d_t_cell (k2 s)) (d_t_cell (k3 s)) (d_t_cell (k4 s))\<rparr>"

definition clamp_soc :: "real \<Rightarrow> real" where
  "clamp_soc x = (let y = if x < 0 then 0 else x in if y > 1 then 1 else y)"

text \<open>\<open>BatteryModel::step\<close>: the fault that is found and the new state.\<close>

definition battery_step :: "battery \<Rightarrow> fault \<times> battery" where
  "battery_step s =
     (if \<bar>b_i s\<bar> > I_MAX then (OVERCURRENT, s)
      else
        let s1 = integrate s;
            s2 = s1\<lparr>b_soc := clamp_soc (b_soc s1)\<rparr>;
            s3 = s2\<lparr>b_v := v_ocv (b_soc s2) - b_i s * R0 - b_vrc s2\<rparr>
        in (if b_t s3 > T_FAULT then OVERTEMPERATURE
            else if b_soc s3 < SOC_LOW then UNDERVOLTAGE
            else if b_soc s3 > SOC_HIGH \<and> b_i s < 0 then OVERVOLTAGE
            else NONE, s3))"

section \<open>What the integration computes\<close>

text \<open>
  Each component obeys a linear equation \<open>x' = a * x + b\<close>. On it the fourth-order step is exact up to
  the Taylor polynomial \<open>growth (a * DT)\<close> of the exponential function.
\<close>

definition growth :: "real \<Rightarrow> real" where
  "growth z = 1 + z + z ^ 2 / 2 + z ^ 3 / 6 + z ^ 4 / 24"

lemma rk4_linear:
  fixes a b x k1 k2 k3 k4 :: real
  assumes "a \<noteq> 0" and "k1 = a * x + b" and "k2 = a * (x + 1 / 2 * DT * k1) + b"
    and "k3 = a * (x + 1 / 2 * DT * k2) + b" and "k4 = a * (x + DT * k3) + b"
  shows "x + rk4_sum k1 k2 k3 k4 = - b / a + growth (a * DT) * (x + b / a)"
proof -
  have "a * (x + rk4_sum k1 k2 k3 k4) = - b + growth (a * DT) * (a * x + b)"
    unfolding assms(2-5) rk4_sum_def growth_def by (simp add: field_simps power2_eq_square power3_eq_cube power4_eq_xxxx)
  then have "x + rk4_sum k1 k2 k3 k4 = (- b + growth (a * DT) * (a * x + b)) / a"
    using assms(1) by (simp add: field_simps)
  also have "\<dots> = - b / a + growth (a * DT) * (x + b / a)"
    using assms(1) by (simp add: field_simps)
  finally show ?thesis .
qed

lemmas slopes = k1_def k2_def k3_def k4_def ahead_def

lemma derivatives_v_rc: "d_v_rc (derivatives soc v t i bl) = - 1 / (R1 * C1) * v + i / C1"
  by (simp add: derivatives_def Let_def)

lemma derivatives_t_cell: "d_t_cell (derivatives soc v t i False) = - H_A / M_CP * t + (i * i * R0 + H_A * T_AMB) / M_CP"
  by (simp add: derivatives_def Let_def H_A_def M_CP_def T_AMB_def field_simps)

text \<open>The factors of the two decaying components, and the temperature at which heating and cooling are even.\<close>

definition rc_decay :: real where "rc_decay = growth (- DT / (R1 * C1))"
definition heat_decay :: real where "heat_decay = growth (- DT * H_A / M_CP)"
definition t_even :: "real \<Rightarrow> real" where "t_even i = T_AMB + i * i * R0 / H_A"

lemma integrate_soc: "b_soc (integrate s) = b_soc s - ETA * b_i s / (3600 * Q_NOM) * DT"
  by (simp add: integrate_def slopes derivatives_def rk4_sum_def Let_def field_simps)

lemma integrate_vrc: "b_vrc (integrate s) = b_i s * R1 + rc_decay * (b_vrc s - b_i s * R1)"
proof -
  let ?a = "- 1 / (R1 * C1)" and ?b = "b_i s / C1"
  have "b_vrc (integrate s) = b_vrc s + rk4_sum (d_v_rc (k1 s)) (d_v_rc (k2 s)) (d_v_rc (k3 s)) (d_v_rc (k4 s))"
    by (simp add: integrate_def)
  also have "\<dots> = - ?b / ?a + growth (?a * DT) * (b_vrc s + ?b / ?a)"
    by (rule rk4_linear) (simp_all add: slopes derivatives_v_rc R1_def C1_def)
  finally show ?thesis by (simp add: rc_decay_def R1_def C1_def)
qed

lemma integrate_t:
  "b_t (integrate s) =
     (if b_block s then b_t s + b_i s * b_i s * R0 / M_CP * DT else t_even (b_i s) + heat_decay * (b_t s - t_even (b_i s)))"
proof (cases "b_block s")
  case True
  then show ?thesis by (simp add: integrate_def slopes derivatives_def rk4_sum_def Let_def)
next
  case False
  let ?a = "- H_A / M_CP" and ?b = "(b_i s * b_i s * R0 + H_A * T_AMB) / M_CP"
  have "b_t (integrate s) = b_t s + rk4_sum (d_t_cell (k1 s)) (d_t_cell (k2 s)) (d_t_cell (k3 s)) (d_t_cell (k4 s))"
    by (simp add: integrate_def)
  also have "\<dots> = - ?b / ?a + growth (?a * DT) * (b_t s + ?b / ?a)"
    by (rule rk4_linear) (simp_all add: slopes derivatives_t_cell False H_A_def M_CP_def)
  finally have "b_t (integrate s) = - ?b / ?a + growth (?a * DT) * (b_t s + ?b / ?a)" .
  moreover have "?b / ?a = - t_even (b_i s)" by (simp add: t_even_def H_A_def M_CP_def T_AMB_def field_simps)
  moreover have "growth (?a * DT) = heat_decay" by (simp add: heat_decay_def mult.commute)
  ultimately show ?thesis using False by simp
qed

lemma integrate_keeps [simp]:
  "b_i (integrate s) = b_i s" "b_block (integrate s) = b_block s" "b_fault (integrate s) = b_fault s"
  by (simp_all add: integrate_def Let_def)

lemma decays: "0 < rc_decay" "rc_decay < 1" "0 < heat_decay" "heat_decay < 1" "1 - heat_decay \<le> DT * H_A / M_CP"
  by (simp_all add: rc_decay_def heat_decay_def growth_def constants power2_eq_square power3_eq_cube power4_eq_xxxx)

section \<open>The step\<close>

lemma clamp_soc: "0 \<le> clamp_soc x \<and> clamp_soc x \<le> 1" "0 \<le> x \<Longrightarrow> x \<le> 1 \<Longrightarrow> clamp_soc x = x"
  by (simp_all add: clamp_soc_def)

text \<open>
  One millisecond of the battery, in closed form: the charge falls by the current (Coulomb counting, clamped), the voltage
  of the RC branch moves towards \<open>i * R1\<close>, the temperature towards the even point of heating and cooling,
  or by the whole Joule heat when the cooling is blocked.
\<close>

lemma battery_step_eq:
  assumes "\<bar>b_i s\<bar> \<le> I_MAX" and "battery_step s = (f, s')"
  shows "b_soc s' = clamp_soc (b_soc s - ETA * b_i s / (3600 * Q_NOM) * DT)"
    and "b_vrc s' = b_i s * R1 + rc_decay * (b_vrc s - b_i s * R1)"
    and "b_t s' = (if b_block s then b_t s + b_i s * b_i s * R0 / M_CP * DT else t_even (b_i s) + heat_decay * (b_t s - t_even (b_i s)))"
    and "b_v s' = v_ocv (b_soc s') - b_i s * R0 - b_vrc s'"
    and "b_i s' = b_i s" and "b_block s' = b_block s" and "b_fault s' = b_fault s"
    and "f = (if b_t s' > T_FAULT then OVERTEMPERATURE else if b_soc s' < SOC_LOW then UNDERVOLTAGE
              else if b_soc s' > SOC_HIGH \<and> b_i s < 0 then OVERVOLTAGE else NONE)"
proof -
  have s': "s' = (let s1 = integrate s; s2 = s1\<lparr>b_soc := clamp_soc (b_soc s1)\<rparr>
      in s2\<lparr>b_v := v_ocv (b_soc s2) - b_i s * R0 - b_vrc s2\<rparr>)"
    and f: "f = (if b_t s' > T_FAULT then OVERTEMPERATURE else if b_soc s' < SOC_LOW then UNDERVOLTAGE
              else if b_soc s' > SOC_HIGH \<and> b_i s < 0 then OVERVOLTAGE else NONE)"
    using assms by (auto simp: battery_step_def Let_def)
  show "b_soc s' = clamp_soc (b_soc s - ETA * b_i s / (3600 * Q_NOM) * DT)"
    by (simp add: s' Let_def integrate_soc)
  show "b_vrc s' = b_i s * R1 + rc_decay * (b_vrc s - b_i s * R1)" by (simp add: s' Let_def integrate_vrc)
  show "b_t s' = (if b_block s then b_t s + b_i s * b_i s * R0 / M_CP * DT else t_even (b_i s) + heat_decay * (b_t s - t_even (b_i s)))"
    by (simp add: s' Let_def integrate_t)
  show "b_v s' = v_ocv (b_soc s') - b_i s * R0 - b_vrc s'" "b_i s' = b_i s" "b_block s' = b_block s" "b_fault s' = b_fault s"
    by (simp_all add: s' Let_def)
qed (use assms in \<open>auto simp: battery_step_def Let_def\<close>)

text \<open>A step heats by at most its Joule heat, and never cools below the surroundings.\<close>

lemma battery_step_heat:
  assumes "\<bar>b_i s\<bar> \<le> I_MAX" and "battery_step s = (f, s')" and "T_AMB \<le> b_t s"
  shows "T_AMB \<le> b_t s'" and "M_CP * (b_t s' - b_t s) \<le> b_i s * b_i s * R0 * DT"
proof -
  let ?q = "b_i s * b_i s * R0"
  have q: "0 \<le> ?q" by (simp add: R0_def)
  then have even: "T_AMB \<le> t_even (b_i s)" by (simp add: t_even_def H_A_def)
  have cool: "t_even (b_i s) + heat_decay * (b_t s - t_even (b_i s)) = heat_decay * b_t s + (1 - heat_decay) * t_even (b_i s)"
    by (simp add: algebra_simps)
  have "heat_decay * T_AMB + (1 - heat_decay) * T_AMB \<le> heat_decay * b_t s + (1 - heat_decay) * t_even (b_i s)"
    using decays even assms(3) by (intro add_mono mult_left_mono) auto
  then have "T_AMB \<le> t_even (b_i s) + heat_decay * (b_t s - t_even (b_i s))" unfolding cool by (simp add: algebra_simps)
  moreover have "T_AMB \<le> b_t s + ?q / M_CP * DT" using q assms(3) by (simp add: M_CP_def DT_def add_increasing2)
  ultimately show "T_AMB \<le> b_t s'" using battery_step_eq(3) [OF assms(1,2)] by simp
  have "t_even (b_i s) + heat_decay * (b_t s - t_even (b_i s)) - b_t s = (1 - heat_decay) * (t_even (b_i s) - b_t s)"
    by (simp add: algebra_simps)
  also have "\<dots> \<le> (1 - heat_decay) * (?q / H_A)"
    using decays assms(3) by (intro mult_left_mono) (auto simp: t_even_def)
  also have "\<dots> \<le> DT * H_A / M_CP * (?q / H_A)"
    using decays q by (intro mult_right_mono) (auto simp: H_A_def)
  finally have "t_even (b_i s) + heat_decay * (b_t s - t_even (b_i s)) - b_t s \<le> DT * H_A / M_CP * (?q / H_A)" .
  then show "M_CP * (b_t s' - b_t s) \<le> ?q * DT"
    using battery_step_eq(3) [OF assms(1,2)] by (simp add: M_CP_def H_A_def field_simps)
qed

end
