(* ===== verification/Bms_Fsm.thy ===== *)
theory Bms_Fsm
  imports Bms_Battery
begin

text \<open>
  The battery management state machine of the simulator daemon (\<open>ev_battery_hil/bms/src/BmsStateMachine.h\<close>,
  \<open>BmsStateMachine.cpp\<close>). An update integrates the battery for a millisecond, adds up the Joule heat, and latches a fault
  until a reset.
\<close>

section \<open>State and operations\<close>

datatype bms_state = IDLE | DISCHARGING | CHARGING | FAULT

definition bms_state_name :: "bms_state \<Rightarrow> string" where
  "bms_state_name st =
     (case st of IDLE \<Rightarrow> ''IDLE'' | DISCHARGING \<Rightarrow> ''DISCHARGING'' | CHARGING \<Rightarrow> ''CHARGING'' | FAULT \<Rightarrow> ''FAULT'')"

text \<open>The detail text is kept as what is printed into it: the code and the battery at that moment.\<close>

record bms =
  m_state :: bms_state
  m_fault :: fault
  m_detail :: "(fault \<times> battery) option"
  m_warned :: bool
  m_energy :: real

definition bms_init :: bms where
  "bms_init = \<lparr>m_state = IDLE, m_fault = NONE, m_detail = None, m_warned = False, m_energy = 0\<rparr>"

definition IDLE_THRESHOLD :: real where "IDLE_THRESHOLD = 5"

definition enter_fault :: "fault \<Rightarrow> battery \<Rightarrow> bms \<Rightarrow> bms" where
  "enter_fault fc s m = m\<lparr>m_state := FAULT, m_fault := fc, m_detail := Some (fc, s)\<rparr>"

definition next_state :: "bms_state \<Rightarrow> real \<Rightarrow> bms_state" where
  "next_state st i =
     (case st of
        IDLE \<Rightarrow> if i > IDLE_THRESHOLD then DISCHARGING else if i < - IDLE_THRESHOLD then CHARGING else IDLE
      | DISCHARGING \<Rightarrow> if i \<le> IDLE_THRESHOLD then IDLE else DISCHARGING
      | CHARGING \<Rightarrow> if i \<ge> - IDLE_THRESHOLD then IDLE else CHARGING
      | FAULT \<Rightarrow> FAULT)"

text \<open>The two warnings: by temperature, then by energy.\<close>

definition warn :: "battery \<Rightarrow> bms \<Rightarrow> bms" where
  "warn s m =
     (let m1 = (if \<not> m_warned m \<and> b_t s \<ge> T_WARN then m\<lparr>m_warned := True\<rparr> else m)
      in if \<not> m_warned m1 \<and> m_energy m1 \<ge> E_WARN then m1\<lparr>m_warned := True\<rparr> else m1)"

text \<open>\<open>BmsStateMachine::update\<close>: false when the current was rejected.\<close>

definition bms_update :: "bms \<times> battery \<Rightarrow> bool \<times> bms \<times> battery" where
  "bms_update ms =
     (case ms of (m, s) \<Rightarrow>
        if m_state m = FAULT then (True, m, s)
        else if \<bar>b_i s\<bar> > I_MAX then (False, enter_fault OVERCURRENT s m, s)
        else
          let (fc, s1) = battery_step s;
              m1 = warn s1 (m\<lparr>m_energy := m_energy m + b_i s1 * b_i s1 * R0 * DT\<rparr>)
          in if fc \<noteq> NONE then (True, enter_fault fc s1 m1, s1)
             else if m_energy m1 \<ge> E_FAULT then (True, enter_fault OVERTEMPERATURE s1 m1, s1)
             else (True, m1\<lparr>m_state := next_state (m_state m1) (b_i s1)\<rparr>, s1\<lparr>b_fault := NONE\<rparr>))"

definition bms_reset :: "bms \<times> battery \<Rightarrow> bms \<times> battery" where
  "bms_reset ms =
     (case ms of (m, s) \<Rightarrow>
        (m\<lparr>m_state := IDLE, m_fault := NONE, m_detail := None, m_warned := False, m_energy := 0\<rparr>,
         s\<lparr>b_fault := NONE, b_block := False, b_i := 0\<rparr>))"

lemma warn_sel [simp]:
  "m_state (warn s m) = m_state m" "m_fault (warn s m) = m_fault m" "m_energy (warn s m) = m_energy m"
  "m_warned (warn s m) \<longleftrightarrow> m_warned m \<or> b_t s \<ge> T_WARN \<or> m_energy m \<ge> E_WARN"
  by (auto simp: warn_def Let_def)

lemma enter_fault_sel [simp]:
  "m_state (enter_fault fc s m) = FAULT" "m_fault (enter_fault fc s m) = fc" "m_energy (enter_fault fc s m) = m_energy m"
  "m_warned (enter_fault fc s m) = m_warned m"
  by (simp_all add: enter_fault_def)

lemma next_state_fault [simp]: "next_state st i = FAULT \<longleftrightarrow> st = FAULT"
  by (cases st) (simp_all add: next_state_def)

section \<open>What an update keeps\<close>

text \<open>The Joule heat of one update at the highest current.\<close>

definition E_STEP :: real where "E_STEP = I_MAX * I_MAX * R0 * DT"

text \<open>
  The invariant after at most \<open>n\<close> resets. The heat above the surroundings is paid for by the energy counter, which
  stops below \<open>E_FAULT + E_STEP\<close> and starts anew with each reset.
\<close>

definition bms_inv :: "nat \<Rightarrow> bms \<times> battery \<Rightarrow> bool" where
  "bms_inv n ms = (case ms of (m, s) \<Rightarrow>
     0 \<le> b_soc s \<and> b_soc s \<le> 1 \<and> \<bar>b_vrc s\<bar> \<le> I_MAX * R1 \<and>
     T_AMB \<le> b_t s \<and> M_CP * (b_t s - T_AMB) \<le> m_energy m + real n * (E_FAULT + E_STEP) \<and>
     0 \<le> m_energy m \<and> m_energy m < E_FAULT + E_STEP \<and> (m_state m \<noteq> FAULT \<longrightarrow> m_energy m < E_FAULT) \<and>
     (m_state m = FAULT \<longleftrightarrow> m_fault m \<noteq> NONE) \<and> (m_fault m = OVERTEMPERATURE \<longrightarrow> m_warned m) \<and>
     (m_fault m = OVERTEMPERATURE \<longrightarrow> b_t s > T_FAULT \<or> m_energy m \<ge> E_FAULT) \<and> b_fault s = NONE)"

lemma bms_inv_init: "bms_inv 0 (bms_init, battery_init)"
  by (simp add: bms_inv_def bms_init_def battery_init_def constants E_STEP_def)

lemma bms_inv_reset:
  assumes "bms_inv n ms" shows "bms_inv (n + 1) (bms_reset ms)"
proof -
  obtain m s where ms: "ms = (m, s)" by force
  have "M_CP * (b_t s - T_AMB) \<le> m_energy m + real n * (E_FAULT + E_STEP)" "m_energy m < E_FAULT + E_STEP"
    using assms by (auto simp: bms_inv_def ms)
  then have "M_CP * (b_t s - T_AMB) \<le> real (n + 1) * (E_FAULT + E_STEP)" by (simp add: algebra_simps)
  moreover have "0 < E_FAULT" "0 \<le> E_STEP" by (simp_all add: constants E_STEP_def)
  ultimately show ?thesis using assms by (simp add: bms_inv_def ms bms_reset_def)
qed

lemma bms_inv_command:
  "bms_inv n (m, s) \<Longrightarrow> bms_inv n (m, s\<lparr>b_i := i\<rparr>)" "bms_inv n (m, s) \<Longrightarrow> bms_inv n (m, s\<lparr>b_block := b\<rparr>)"
  by (simp_all add: bms_inv_def)

lemma joule_bounds: "\<bar>i\<bar> \<le> I_MAX \<Longrightarrow> 0 \<le> i * i * R0 * DT \<and> i * i * R0 * DT \<le> E_STEP"
proof -
  assume "\<bar>i\<bar> \<le> I_MAX"
  then have "\<bar>i\<bar> * \<bar>i\<bar> \<le> I_MAX * I_MAX" by (intro mult_mono) (auto simp: I_MAX_def)
  then show ?thesis by (simp add: E_STEP_def R0_def DT_def)
qed

lemma battery_step_keeps:
  assumes "\<bar>b_i s\<bar> \<le> I_MAX" and "battery_step s = (f, s')" and "\<bar>b_vrc s\<bar> \<le> I_MAX * R1"
  shows "0 \<le> b_soc s' \<and> b_soc s' \<le> 1" and "\<bar>b_vrc s'\<bar> \<le> I_MAX * R1"
proof -
  show "0 \<le> b_soc s' \<and> b_soc s' \<le> 1" using battery_step_eq(1) [OF assms(1,2)] clamp_soc(1) by simp
  have "\<bar>b_i s * R1\<bar> \<le> I_MAX * R1" using assms(1) by (simp add: abs_mult R1_def)
  then have "\<bar>(1 - rc_decay) * (b_i s * R1)\<bar> \<le> (1 - rc_decay) * (I_MAX * R1)" "\<bar>rc_decay * b_vrc s\<bar> \<le> rc_decay * (I_MAX * R1)"
    using decays(1,2) assms(3) by (simp_all add: abs_mult mult_left_mono)
  moreover have "b_vrc s' = (1 - rc_decay) * (b_i s * R1) + rc_decay * b_vrc s"
    using battery_step_eq(2) [OF assms(1,2)] by (simp add: algebra_simps)
  moreover have "(1 - rc_decay) * (I_MAX * R1) + rc_decay * (I_MAX * R1) = I_MAX * R1" by (simp add: algebra_simps)
  ultimately show "\<bar>b_vrc s'\<bar> \<le> I_MAX * R1" by linarith
qed

lemma bms_update_cases:
  assumes "bms_update (m, s) = (ok, m', s')"
  obtains (latched) "m_state m = FAULT" "m' = m" "s' = s" "ok"
  | (rejected) "m_state m \<noteq> FAULT" "\<bar>b_i s\<bar> > I_MAX" "m' = enter_fault OVERCURRENT s m" "s' = s" "\<not> ok"
  | (model) fc m1 where "m_state m \<noteq> FAULT" "\<bar>b_i s\<bar> \<le> I_MAX" "battery_step s = (fc, s')" "fc \<noteq> NONE"
      "m1 = warn s' (m\<lparr>m_energy := m_energy m + b_i s * b_i s * R0 * DT\<rparr>)" "m' = enter_fault fc s' m1" "ok"
  | (energy) m1 where "m_state m \<noteq> FAULT" "\<bar>b_i s\<bar> \<le> I_MAX" "battery_step s = (NONE, s')" "m_energy m1 \<ge> E_FAULT"
      "m1 = warn s' (m\<lparr>m_energy := m_energy m + b_i s * b_i s * R0 * DT\<rparr>)" "m' = enter_fault OVERTEMPERATURE s' m1" "ok"
  | (normal) s1 m1 where "m_state m \<noteq> FAULT" "\<bar>b_i s\<bar> \<le> I_MAX" "battery_step s = (NONE, s1)" "m_energy m1 < E_FAULT"
      "m1 = warn s1 (m\<lparr>m_energy := m_energy m + b_i s * b_i s * R0 * DT\<rparr>)" "m' = m1\<lparr>m_state := next_state (m_state m1) (b_i s)\<rparr>"
      "s' = s1\<lparr>b_fault := NONE\<rparr>" "ok"
proof (cases "m_state m = FAULT")
  case True
  with assms show ?thesis by (intro latched) (auto simp: bms_update_def)
next
  case nf: False
  show ?thesis
  proof (cases "\<bar>b_i s\<bar> > I_MAX")
    case True
    with assms nf show ?thesis by (intro rejected) (auto simp: bms_update_def)
  next
    case False
    obtain fc s1 where st: "battery_step s = (fc, s1)" by force
    then have i: "b_i s1 = b_i s" using battery_step_eq(5) [of s] False by simp
    define m1 where "m1 = warn s1 (m\<lparr>m_energy := m_energy m + b_i s * b_i s * R0 * DT\<rparr>)"
    have eq: "bms_update (m, s) = (if fc \<noteq> NONE then (True, enter_fault fc s1 m1, s1)
             else if m_energy m1 \<ge> E_FAULT then (True, enter_fault OVERTEMPERATURE s1 m1, s1)
             else (True, m1\<lparr>m_state := next_state (m_state m1) (b_i s1)\<rparr>, s1\<lparr>b_fault := NONE\<rparr>))"
      unfolding bms_update_def m1_def using nf False by (simp add: Let_def st i)
    consider "fc \<noteq> NONE" | "fc = NONE" "m_energy m1 \<ge> E_FAULT" | "fc = NONE" "m_energy m1 < E_FAULT" by linarith
    then show ?thesis
    proof cases
      case 1
      with assms eq have "s' = s1" "m' = enter_fault fc s1 m1" ok by auto
      then show ?thesis using model [of fc m1] nf False st 1 m1_def by simp
    next
      case 2
      with assms eq have "s' = s1" "m' = enter_fault OVERTEMPERATURE s1 m1" ok by auto
      then show ?thesis using energy [of m1] nf False st 2 m1_def by simp
    next
      case 3
      with assms eq i have "s' = s1\<lparr>b_fault := NONE\<rparr>" "m' = m1\<lparr>m_state := next_state (m_state m1) (b_i s)\<rparr>" ok by auto
      then show ?thesis using normal [of s1 m1] nf False st 3 m1_def by simp
    qed
  qed
qed

lemma bms_inv_update:
  assumes "bms_inv n (m, s)" and "bms_update (m, s) = (ok, m', s')"
  shows "bms_inv n (m', s')"
proof -
  have heat: "T_AMB \<le> b_t s1 \<and> M_CP * (b_t s1 - T_AMB) \<le> m_energy m + b_i s * b_i s * R0 * DT + real n * (E_FAULT + E_STEP)"
    and keeps: "0 \<le> b_soc s1 \<and> b_soc s1 \<le> 1" "\<bar>b_vrc s1\<bar> \<le> I_MAX * R1" "b_fault s1 = NONE"
    if "\<bar>b_i s\<bar> \<le> I_MAX" "battery_step s = (fc, s1)" for fc s1
  proof -
    have "T_AMB \<le> b_t s1" "M_CP * (b_t s1 - b_t s) \<le> b_i s * b_i s * R0 * DT"
      using battery_step_heat [OF that] assms(1) by (simp_all add: bms_inv_def)
    then show "T_AMB \<le> b_t s1 \<and> M_CP * (b_t s1 - T_AMB) \<le> m_energy m + b_i s * b_i s * R0 * DT + real n * (E_FAULT + E_STEP)"
      using assms(1) by (simp add: bms_inv_def algebra_simps)
    show "0 \<le> b_soc s1 \<and> b_soc s1 \<le> 1" "\<bar>b_vrc s1\<bar> \<le> I_MAX * R1"
      using battery_step_keeps [OF that] assms(1) by (simp_all add: bms_inv_def)
    show "b_fault s1 = NONE" using battery_step_eq(7) [OF that] assms(1) by (simp add: bms_inv_def)
  qed
  have hot: "b_t s1 > T_FAULT" if "\<bar>b_i s\<bar> \<le> I_MAX" "battery_step s = (OVERTEMPERATURE, s1)" for s1
    using battery_step_eq(8) [OF that] by (simp split: if_splits)
  have warm: "b_t s1 > T_FAULT \<Longrightarrow> b_t s1 \<ge> T_WARN" for s1 :: battery by (simp add: constants)
  have inv: "0 \<le> m_energy m" "m_state m \<noteq> FAULT \<Longrightarrow> m_energy m < E_FAULT" "E_WARN \<le> E_FAULT"
    using assms(1) by (simp_all add: bms_inv_def constants)
  from assms(2) show ?thesis
  proof (cases rule: bms_update_cases)
    case latched
    then show ?thesis using assms(1) by simp
  next
    case rejected
    then show ?thesis using assms(1) by (simp add: bms_inv_def)
  next
    case (model fc m1)
    then show ?thesis
      using heat [OF model(2,3)] keeps [OF model(2,3)] joule_bounds [OF model(2)] inv hot warm
      by (cases "fc = OVERTEMPERATURE") (auto simp: bms_inv_def)
  next
    case (energy m1)
    then show ?thesis
      using heat [OF energy(2,3)] keeps [OF energy(2,3)] joule_bounds [OF energy(2)] inv by (auto simp: bms_inv_def)
  next
    case (normal s1 m1)
    moreover have "m_fault m = NONE" using assms(1) normal(1) by (simp add: bms_inv_def)
    ultimately show ?thesis
      using heat [OF normal(2,3)] keeps [OF normal(2,3)] joule_bounds [OF normal(2)] inv by (auto simp: bms_inv_def)
  qed
qed

section \<open>A constant load\<close>

definition run_updates :: "nat \<Rightarrow> bms \<times> battery \<Rightarrow> bms \<times> battery" where
  "run_updates n ms = ((\<lambda>ms. snd (bms_update ms)) ^^ n) ms"

lemma run_updates_simps [simp]:
  "run_updates 0 ms = ms" "run_updates (Suc n) ms = snd (bms_update (run_updates n ms))"
  by (simp_all add: run_updates_def)

lemma run_updates_inv: "bms_inv k ms \<Longrightarrow> bms_inv k (run_updates n ms)"
proof (induction n)
  case (Suc n)
  then show ?case
    using bms_inv_update [of k "fst (run_updates n ms)" "snd (run_updates n ms)"] by (metis prod.collapse run_updates_simps(2))
qed simp

lemma bms_update_current:
  assumes "bms_update (m, s) = (ok, m', s')" shows "b_i s' = b_i s"
  using assms by (cases rule: bms_update_cases) (auto dest: battery_step_eq(5))

lemma run_updates_current: "b_i (snd (run_updates n ms)) = b_i (snd ms)"
proof (induction n)
  case (Suc n)
  obtain ok m' s' where "bms_update (run_updates n ms) = (ok, m', s')" by (metis prod.collapse)
  then show ?case using Suc bms_update_current [of "fst (run_updates n ms)" "snd (run_updates n ms)"] by simp
qed simp

text \<open>The Joule heat of one update at a current, and the charge it takes.\<close>

definition joule :: "real \<Rightarrow> real" where "joule i = i * i * R0 * DT"
definition drain :: "real \<Rightarrow> real" where "drain i = ETA * i / (3600 * Q_NOM) * DT"

lemma one_update:
  assumes "bms_update (m, s) = (ok, m', s')" and "\<bar>b_i s\<bar> \<le> I_MAX" and "m_state m \<noteq> FAULT"
  shows "m_energy m' = m_energy m + joule (b_i s)" and "b_soc s' = clamp_soc (b_soc s - drain (b_i s))"
    and "m_state m' = FAULT \<longleftrightarrow> b_t s' > T_FAULT \<or> b_soc s' < SOC_LOW \<or> b_soc s' > SOC_HIGH \<and> b_i s < 0 \<or> m_energy m' \<ge> E_FAULT"
    and "m_state m' = FAULT \<Longrightarrow> m_fault m' = (if b_t s' > T_FAULT then OVERTEMPERATURE else if b_soc s' < SOC_LOW then UNDERVOLTAGE
           else if b_soc s' > SOC_HIGH \<and> b_i s < 0 then OVERVOLTAGE else OVERTEMPERATURE)"
    and "m_warned m' \<longleftrightarrow> m_warned m \<or> b_t s' \<ge> T_WARN \<or> m_energy m' \<ge> E_WARN"
proof -
  obtain fc s1 where st: "battery_step s = (fc, s1)" by force
  note eq = battery_step_eq(1,8) [OF assms(2) st]
  from assms(1) show "m_energy m' = m_energy m + joule (b_i s)"
    by (cases rule: bms_update_cases) (use assms(2,3) in \<open>auto simp: joule_def\<close>)
  from assms(1) show "b_soc s' = clamp_soc (b_soc s - drain (b_i s))"
    by (cases rule: bms_update_cases) (use assms(2,3) st eq in \<open>auto simp: drain_def\<close>)
  from assms(1) show "m_state m' = FAULT \<longleftrightarrow> b_t s' > T_FAULT \<or> b_soc s' < SOC_LOW \<or> b_soc s' > SOC_HIGH \<and> b_i s < 0 \<or> m_energy m' \<ge> E_FAULT"
    by (cases rule: bms_update_cases) (use assms(2,3) st eq in \<open>auto split: if_splits\<close>)
  from assms(1) show "m_warned m' \<longleftrightarrow> m_warned m \<or> b_t s' \<ge> T_WARN \<or> m_energy m' \<ge> E_WARN"
    by (cases rule: bms_update_cases) (use assms(2,3) in auto)
  show "m_fault m' = (if b_t s' > T_FAULT then OVERTEMPERATURE else if b_soc s' < SOC_LOW then UNDERVOLTAGE
           else if b_soc s' > SOC_HIGH \<and> b_i s < 0 then OVERVOLTAGE else OVERTEMPERATURE)" if "m_state m' = FAULT"
    using assms(1) by (cases rule: bms_update_cases) (use assms(2,3) st eq that in \<open>auto split: if_splits\<close>)
qed

lemma bms_inv_temperature:
  assumes "bms_inv n (m, s)"
  shows "b_t s < T_AMB + real (n + 1) * (56 / 1000)"
proof -
  have "M_CP * (b_t s - T_AMB) < real (n + 1) * (E_FAULT + E_STEP)"
    using assms by (simp add: bms_inv_def algebra_simps)
  also have "\<dots> \<le> real (n + 1) * (M_CP * (56 / 1000))"
    by (intro mult_left_mono) (simp_all add: constants E_STEP_def)
  finally show ?thesis by (simp add: M_CP_def field_simps)
qed

lemma run_updates_energy:
  assumes "m_state (fst (run_updates n ms)) \<noteq> FAULT" and "\<bar>b_i (snd ms)\<bar> \<le> I_MAX"
  shows "m_energy (fst (run_updates n ms)) = m_energy (fst ms) + real n * joule (b_i (snd ms))"
  using assms(1)
proof (induction n)
  case (Suc n)
  obtain m s where ms: "run_updates n ms = (m, s)" by force
  obtain ok m' s' where up: "bms_update (m, s) = (ok, m', s')" by (metis prod.collapse)
  have nf: "m_state m \<noteq> FAULT" using Suc.prems up by (auto simp: ms bms_update_def)
  then show ?case
    using Suc.IH up one_update(1) [OF up] assms(2) run_updates_current [of n ms] by (simp add: ms algebra_simps)
qed simp

lemma clamp_drained: "SOC_LOW \<le> x - d \<Longrightarrow> 0 \<le> d \<Longrightarrow> x \<le> 1 \<Longrightarrow> clamp_soc (x - d) = x - d"
  by (simp add: clamp_soc_def SOC_LOW_def)

lemma run_updates_normal:
  assumes "bms_inv 0 ms" and "m_state (fst ms) \<noteq> FAULT" and "m_energy (fst ms) = 0"
    and "0 \<le> b_i (snd ms)" and "b_i (snd ms) \<le> I_MAX"
    and "real n * joule (b_i (snd ms)) < E_FAULT" and "SOC_LOW \<le> b_soc (snd ms) - real n * drain (b_i (snd ms))"
  shows "m_state (fst (run_updates n ms)) \<noteq> FAULT \<and>
    b_soc (snd (run_updates n ms)) = b_soc (snd ms) - real n * drain (b_i (snd ms))"
  using assms(6,7)
proof (induction n)
  case 0
  then show ?case using assms(2) by simp
next
  case (Suc n)
  let ?i = "b_i (snd ms)"
  have pos: "0 \<le> joule ?i" "0 \<le> drain ?i" using assms(4) by (simp_all add: joule_def drain_def constants)
  then have IH: "m_state (fst (run_updates n ms)) \<noteq> FAULT" "b_soc (snd (run_updates n ms)) = b_soc (snd ms) - real n * drain ?i"
    using Suc by (simp_all add: algebra_simps)
  obtain m s where ms: "run_updates n ms = (m, s)" by force
  obtain ok m' s' where up: "bms_update (m, s) = (ok, m', s')" by (metis prod.collapse)
  have i: "b_i s = ?i" using run_updates_current [of n ms] by (simp add: ms)
  note one = one_update [OF up, unfolded i, OF _ IH(1) [unfolded ms fst_conv]]
  have "b_soc s \<le> 1" using run_updates_inv [OF assms(1), of n] by (simp add: ms bms_inv_def)
  then have "clamp_soc (b_soc s - drain ?i) = b_soc s - drain ?i"
    using IH(2) Suc.prems(2) pos(2) by (intro clamp_drained) (simp_all add: ms algebra_simps)
  then have soc: "b_soc s' = b_soc (snd ms) - real (Suc n) * drain ?i"
    using one(2) assms(4,5) IH(2) by (simp add: ms algebra_simps)
  have "b_t s' < T_AMB + 56 / 1000"
    using bms_inv_temperature [of 0 m' s'] run_updates_inv [OF assms(1), of "Suc n"] up by (simp add: ms)
  moreover have "m_energy m' = real (Suc n) * joule ?i"
    using one(1) run_updates_energy [OF IH(1)] assms(3-5) by (simp add: ms algebra_simps)
  ultimately have "m_state m' \<noteq> FAULT"
    using one(3) assms(4,5) soc Suc.prems by (simp add: constants)
  then show ?case using up soc by (simp add: ms)
qed

lemma run_updates_reached:
  assumes "bms_inv 0 ms" and "m_energy (fst ms) = 0" and "\<bar>b_i (snd ms)\<bar> \<le> I_MAX"
    and "E_FAULT \<le> real n * joule (b_i (snd ms))"
  shows "m_state (fst (run_updates n ms)) = FAULT"
proof (rule ccontr)
  assume nf: "m_state (fst (run_updates n ms)) \<noteq> FAULT"
  then have "m_energy (fst (run_updates n ms)) < E_FAULT"
    using run_updates_inv [OF assms(1), of n] by (simp add: bms_inv_def case_prod_beta)
  then show False using run_updates_energy [OF nf assms(3)] assms(2,4) by simp
qed

lemma run_updates_fault:
  assumes "bms_inv 0 ms" and "m_state (fst ms) \<noteq> FAULT" and "m_energy (fst ms) = 0"
    and "0 \<le> b_i (snd ms)" and "b_i (snd ms) \<le> I_MAX"
    and "SOC_LOW \<le> b_soc (snd ms) - real n * drain (b_i (snd ms))"
  shows "m_state (fst (run_updates n ms)) = FAULT \<longrightarrow> m_fault (fst (run_updates n ms)) = OVERTEMPERATURE"
  using assms(6)
proof (induction n)
  case 0
  then show ?case using assms(2) by simp
next
  case (Suc n)
  let ?i = "b_i (snd ms)"
  obtain m s where ms: "run_updates n ms = (m, s)" by force
  obtain ok m' s' where up: "bms_update (m, s) = (ok, m', s')" by (metis prod.collapse)
  have "0 \<le> drain ?i" using assms(4) by (simp add: drain_def constants)
  then have le: "SOC_LOW \<le> b_soc (snd ms) - real n * drain ?i" using Suc.prems by (simp add: algebra_simps)
  show ?case
  proof (cases "m_state m = FAULT")
    case True
    then show ?thesis using up Suc.IH [OF le] by (simp add: ms) (simp add: bms_update_def)
  next
    case False
    then have "real n * joule ?i < E_FAULT"
      using run_updates_reached [OF assms(1,3), of n] assms(4,5) by (force simp: ms)
    then have "b_soc s = b_soc (snd ms) - real n * drain ?i"
      using run_updates_normal [OF assms(1-5) _ le] by (simp add: ms)
    moreover have "b_soc s \<le> 1" using run_updates_inv [OF assms(1), of n] by (simp add: ms bms_inv_def)
    moreover have "b_i s = ?i" using run_updates_current [of n ms] by (simp add: ms)
    moreover have "SOC_LOW \<le> b_soc s - drain ?i" using Suc.prems calculation(1) by (simp add: algebra_simps)
    ultimately have "b_soc s' \<ge> SOC_LOW"
      using one_update(2) [OF up _ False] assms(4,5) \<open>0 \<le> drain ?i\<close> clamp_drained [of "b_soc s" "drain ?i"] by simp
    then show ?thesis
      using one_update(4) [OF up _ False] assms(4,5) up \<open>b_i s = ?i\<close> by (simp add: ms)
  qed
qed

text \<open>
  C22. A constant discharge current on a healthy daemon: when the accumulated Joule heat reaches 1375 J the machine is in
  its fault state, whether the cooling is blocked or not; as long as the charge lasts, it is so exactly then, and reports
  an overtemperature although the cell is less than 0.06 degrees above the surroundings.
\<close>

theorem constant_load_faults:
  assumes "bms_inv 0 (m, s)" and "m_state m \<noteq> FAULT" and "m_energy m = 0" and "0 < b_i s" and "b_i s \<le> I_MAX"
  shows "case run_updates n (m, s) of (m', s') \<Rightarrow>
    (E_FAULT \<le> real n * joule (b_i s) \<longrightarrow> m_state m' = FAULT) \<and>
    (SOC_LOW \<le> b_soc s - real n * drain (b_i s) \<longrightarrow>
      (m_state m' = FAULT \<longleftrightarrow> E_FAULT \<le> real n * joule (b_i s)) \<and>
      (m_state m' = FAULT \<longrightarrow> m_fault m' = OVERTEMPERATURE \<and> b_t s' < T_AMB + 6 / 100))"
proof -
  obtain m' s' where r: "run_updates n (m, s) = (m', s')" by force
  have "bms_inv 0 (m', s')" using run_updates_inv [OF assms(1), of n] r by simp
  then have "b_t s' < T_AMB + 6 / 100" using bms_inv_temperature [of 0 m' s'] by simp
  moreover have "E_FAULT \<le> real n * joule (b_i s) \<Longrightarrow> m_state m' = FAULT"
    using run_updates_reached [OF assms(1), of n] assms(3-5) r by simp
  moreover have "E_FAULT \<le> real n * joule (b_i s)" if "m_state m' = FAULT" "SOC_LOW \<le> b_soc s - real n * drain (b_i s)"
    using run_updates_normal [OF assms(1), of n] assms(2-5) that r by (fastforce simp: not_le [symmetric])
  moreover have "m_fault m' = OVERTEMPERATURE" if "m_state m' = FAULT" "SOC_LOW \<le> b_soc s - real n * drain (b_i s)"
    using run_updates_fault [OF assms(1), of n] assms(2-5) that r by simp
  ultimately show ?thesis using r by auto
qed

text \<open>Fifty amperes from a full battery: 55 seconds.\<close>

theorem constant_load_faults_witness:
  "m_state (fst (run_updates 54999 (bms_init, battery_init\<lparr>b_i := 50\<rparr>))) \<noteq> FAULT \<and>
   m_state (fst (run_updates 55000 (bms_init, battery_init\<lparr>b_i := 50\<rparr>))) = FAULT"
proof -
  have inv: "bms_inv 0 (bms_init, battery_init\<lparr>b_i := 50\<rparr>)" using bms_inv_init bms_inv_command(1) by blast
  have "m_state bms_init \<noteq> FAULT" "m_energy bms_init = 0" "0 < b_i (battery_init\<lparr>b_i := 50\<rparr>)" "b_i (battery_init\<lparr>b_i := 50\<rparr>) \<le> I_MAX"
    by (simp_all add: bms_init_def I_MAX_def)
  note load = constant_load_faults [OF inv this]
  show ?thesis
    using load [of 54999] load [of 55000]
    by (simp add: case_prod_beta joule_def drain_def constants battery_init_def)
qed

end
