(* ===== verification/Json.thy ===== *)
theory Json
  imports Prelude
begin

text \<open>
  Python's \<open>json\<close>: texts as \<open>json.dumps\<close> writes them and the reader \<open>json.loads\<close>. A character stands for a code point
  below 256; an escape of a higher one is read as its UTF-8 bytes. Numbers are read as their exact values, integers and floats
  alike, and the limit of Python's recursion is left out. The reader counts down from the length of its text, which
  is always enough (\<open>scan_fuel\<close>).
\<close>

datatype json =
    JNull | JBool bool | JNum real | JNaN | JInfinity bool | JStr string | JList "json list" | JObj "(string \<times> json) list"

text \<open>The last value of a key counts.\<close>

definition field_of :: "string \<Rightarrow> (string \<times> json) list \<Rightarrow> json option" where
  "field_of key obj = map_of (rev obj) key"

section \<open>Writing a text\<close>

abbreviation quote :: char where "quote \<equiv> CHR 0x22"
abbreviation backslash :: char where "backslash \<equiv> CHR 0x5C"

definition hex4 :: "nat \<Rightarrow> string" where
  "hex4 n = (let d = (\<lambda>k. char_of (if k < 10 then 48 + k else 87 + k :: nat)) in ''00'' @ [d (n div 16), d (n mod 16)])"

definition json_char :: "char \<Rightarrow> string" where
  "json_char c =
     (if c = quote then [backslash, quote]
      else if c = backslash then [backslash, backslash]
      else if c = CHR 0x0A then [backslash, CHR ''n'']
      else if c = CHR 0x0D then [backslash, CHR ''r'']
      else if c = CHR 0x09 then [backslash, CHR ''t'']
      else if c = CHR 0x0C then [backslash, CHR ''f'']
      else if c = CHR 0x08 then [backslash, CHR ''b'']
      else if of_char c < (32::nat) \<or> (126::nat) < of_char c then [backslash, CHR ''u''] @ hex4 (of_char c)
      else [c])"

definition json_string :: "string \<Rightarrow> string" where
  "json_string s = quote # concat (map json_char s) @ [quote]"

text \<open>Integers.\<close>

fun show_nat :: "nat \<Rightarrow> string" where
  "show_nat n = (if n < 10 then [char_of (48 + n)] else show_nat (n div 10) @ [char_of (48 + n mod 10)])"

declare show_nat.simps [simp del]

definition show_int :: "int \<Rightarrow> string" where
  "show_int i = (if i < 0 then ''-'' else []) @ show_nat (nat \<bar>i\<bar>)"

definition plain :: "string \<Rightarrow> bool" where
  "plain s \<longleftrightarrow> list_all (\<lambda>c. c \<noteq> quote \<and> c \<noteq> backslash \<and> 32 \<le> (of_char c :: nat) \<and> (of_char c :: nat) \<le> 126) s"

lemma json_plain: "plain s \<Longrightarrow> json_string s = quote # s @ [quote]"
  by (induction s) (auto simp: plain_def json_string_def json_char_def)

section \<open>Reading a text\<close>

definition hex_value :: "char \<Rightarrow> nat option" where
  "hex_value c =
     (let n = of_char c in
      if 48 \<le> n \<and> n \<le> 57 then Some (n - 48)
      else if 65 \<le> n \<and> n \<le> 70 then Some (n - 55)
      else if 97 \<le> n \<and> n \<le> 102 then Some (n - 87)
      else None)"

fun read_hex4 :: "string \<Rightarrow> (nat \<times> string) option" where
  "read_hex4 (a # b # c # d # s) =
     (case (hex_value a, hex_value b, hex_value c, hex_value d) of
        (Some w, Some x, Some y, Some z) \<Rightarrow> Some (((w * 16 + x) * 16 + y) * 16 + z, s)
      | _ \<Rightarrow> None)"
| "read_hex4 _ = None"

definition utf8 :: "nat \<Rightarrow> string" where
  "utf8 n =
     map char_of
       (if n < 0x800 then [0xC0 + n div 64, 0x80 + n mod 64]
        else if n < 0x10000 then [0xE0 + n div 4096, 0x80 + n div 64 mod 64, 0x80 + n mod 64]
        else [0xF0 + n div 262144, 0x80 + n div 4096 mod 64, 0x80 + n div 64 mod 64, 0x80 + n mod 64])"

definition code_point :: "nat \<Rightarrow> string" where
  "code_point n = (if n < 256 then [char_of n] else utf8 n)"

text \<open>After \<open>\u\<close>: one code unit, or a pair of surrogates.\<close>

definition read_unicode :: "string \<Rightarrow> (string \<times> string) option" where
  "read_unicode s =
     (case read_hex4 s of
        None \<Rightarrow> None
      | Some (u, r) \<Rightarrow>
          if 0xD800 \<le> u \<and> u \<le> 0xDBFF \<and> take 2 r = [backslash, CHR ''u'']
          then (case read_hex4 (drop 2 r) of
                  None \<Rightarrow> None
                | Some (v, r2) \<Rightarrow>
                    if 0xDC00 \<le> v \<and> v \<le> 0xDFFF then Some (code_point (0x10000 + (u - 0xD800) * 1024 + (v - 0xDC00)), r2)
                    else Some (code_point u, r))
          else Some (code_point u, r))"

definition escape_char :: "char \<Rightarrow> char option" where
  "escape_char c =
     (if c = quote \<or> c = backslash \<or> c = CHR ''/'' then Some c
      else if c = CHR ''b'' then Some (CHR 0x08)
      else if c = CHR ''f'' then Some (CHR 0x0C)
      else if c = CHR ''n'' then Some (CHR 0x0A)
      else if c = CHR ''r'' then Some (CHR 0x0D)
      else if c = CHR ''t'' then Some (CHR 0x09)
      else None)"

definition read_escape :: "string \<Rightarrow> (string \<times> string) option" where
  "read_escape s =
     (case s of
        [] \<Rightarrow> None
      | e # r \<Rightarrow> if e = CHR ''u'' then read_unicode r else map_option (\<lambda>c. ([c], r)) (escape_char e))"

lemma read_hex4_shorter: "read_hex4 s = Some (u, r) \<Longrightarrow> length r < length s"
  by (induction s rule: read_hex4.induct) (auto split: option.splits)

lemma read_unicode_shorter: "read_unicode s = Some (x, r) \<Longrightarrow> length r < length s"
  by (auto simp: read_unicode_def split: option.splits prod.splits if_splits dest!: read_hex4_shorter)

lemma read_escape_shorter: "read_escape s = Some (x, r) \<Longrightarrow> length r < length s"
  by (auto simp: read_escape_def split: list.splits if_splits dest!: read_unicode_shorter)

text \<open>A string after its opening quotation mark (\<open>scanstring\<close>, strict): its value, and what follows it.\<close>

function scan_string :: "string \<Rightarrow> (string \<times> string) option" where
  "scan_string [] = None"
| "scan_string (c # s) =
     (if c = quote then Some ([], s)
      else if of_char c < (32::nat) then None
      else if c = backslash
      then (case read_escape s of None \<Rightarrow> None | Some (x, r) \<Rightarrow> map_option (apfst (append x)) (scan_string r))
      else map_option (apfst (Cons c)) (scan_string s))"
  by pat_completeness auto
termination
  by (relation "measure length") (auto dest: read_escape_shorter)

definition is_ws :: "char \<Rightarrow> bool" where
  "is_ws c \<longleftrightarrow> c \<in> {CHR '' '', CHR 0x09, CHR 0x0A, CHR 0x0D}"

definition skip_ws :: "string \<Rightarrow> string" where
  "skip_ws s = dropWhile is_ws s"

definition is_dec :: "char \<Rightarrow> bool" where
  "is_dec c \<longleftrightarrow> 48 \<le> (of_char c :: nat) \<and> (of_char c :: nat) \<le> 57"

definition dec_value :: "string \<Rightarrow> nat" where
  "dec_value ds = foldl (\<lambda>n c. n * 10 + (of_char c - 48)) 0 ds"

text \<open>The parts of a number: sign and digits, fraction, exponent.\<close>

definition read_int :: "string \<Rightarrow> (bool \<times> nat \<times> string) option" where
  "read_int s =
     (let neg = s \<noteq> [] \<and> hd s = CHR ''-''; r = (if neg then tl s else s)
      in case r of
           [] \<Rightarrow> None
         | d # r2 \<Rightarrow>
             if d = CHR ''0'' then Some (neg, 0, r2)
             else if is_dec d then Some (neg, dec_value (takeWhile is_dec r), dropWhile is_dec r)
             else None)"

definition read_frac :: "string \<Rightarrow> real \<times> string" where
  "read_frac s =
     (if 1 < length s \<and> hd s = CHR ''.'' \<and> is_dec (s ! 1)
      then let ds = takeWhile is_dec (tl s) in (real (dec_value ds) / 10 ^ length ds, dropWhile is_dec (tl s))
      else (0, s))"

definition read_exp :: "string \<Rightarrow> real \<times> string" where
  "read_exp s =
     (if s = [] \<or> hd s \<notin> {CHR ''e'', CHR ''E''} then (1, s)
      else let signed = tl s \<noteq> [] \<and> hd (tl s) \<in> {CHR ''+'', CHR ''-''};
               r = (if signed then tl (tl s) else tl s)
           in if r = [] \<or> \<not> is_dec (hd r) then (1, s)
              else let n = dec_value (takeWhile is_dec r)
                   in (if signed \<and> hd (tl s) = CHR ''-'' then 1 / 10 ^ n else 10 ^ n, dropWhile is_dec r))"

definition scan_number :: "string \<Rightarrow> (json \<times> string) option" where
  "scan_number s =
     (case read_int s of
        None \<Rightarrow> None
      | Some (neg, n, r) \<Rightarrow>
          (let (f, r2) = read_frac r; (e, r3) = read_exp r2
           in Some (JNum ((if neg then -1 else 1) * (real n + f) * e), r3)))"

text \<open>The literals, before numbers.\<close>

definition literals :: "(string \<times> json) list" where
  "literals = [(''null'', JNull), (''true'', JBool True), (''false'', JBool False), (''NaN'', JNaN),
     (''Infinity'', JInfinity False), (''-Infinity'', JInfinity True)]"

definition scan_literal :: "string \<Rightarrow> (json \<times> string) option" where
  "scan_literal s =
     (case find (\<lambda>(w, v). take (length w) s = w) literals of
        Some (w, v) \<Rightarrow> Some (v, drop (length w) s)
      | None \<Rightarrow> scan_number s)"

text \<open>
  \<open>scan_once\<close> reads a value, \<open>scan_pairs\<close> the members of an object from the quotation mark of a key, \<open>scan_items\<close> the
  elements of a list from the first one.
\<close>

fun scan_once :: "nat \<Rightarrow> string \<Rightarrow> (json \<times> string) option"
  and scan_pairs :: "nat \<Rightarrow> string \<Rightarrow> ((string \<times> json) list \<times> string) option"
  and scan_items :: "nat \<Rightarrow> string \<Rightarrow> (json list \<times> string) option" where
  "scan_once 0 s = None"
| "scan_once (Suc n) s =
     (case s of
        [] \<Rightarrow> None
      | c # r \<Rightarrow>
          if c = quote then map_option (apfst JStr) (scan_string r)
          else if c = CHR ''{'' then
            (case skip_ws r of
               [] \<Rightarrow> None
             | d # r2 \<Rightarrow> if d = CHR ''}'' then Some (JObj [], r2) else map_option (apfst JObj) (scan_pairs n (d # r2)))
          else if c = CHR ''['' then
            (case skip_ws r of
               [] \<Rightarrow> None
             | d # r2 \<Rightarrow> if d = CHR '']'' then Some (JList [], r2) else map_option (apfst JList) (scan_items n (d # r2)))
          else scan_literal s)"
| "scan_pairs 0 s = None"
| "scan_pairs (Suc n) s =
     (case s of
        [] \<Rightarrow> None
      | q # r \<Rightarrow>
          if q \<noteq> quote then None
          else case scan_string r of
            None \<Rightarrow> None
          | Some (key, r1) \<Rightarrow>
              (case skip_ws r1 of
                 [] \<Rightarrow> None
               | colon # r2 \<Rightarrow>
                   if colon \<noteq> CHR '':'' then None
                   else case scan_once n (skip_ws r2) of
                     None \<Rightarrow> None
                   | Some (v, r3) \<Rightarrow>
                       (case skip_ws r3 of
                          [] \<Rightarrow> None
                        | d # r4 \<Rightarrow>
                            if d = CHR ''}'' then Some ([(key, v)], r4)
                            else if d = CHR '','' then map_option (apfst (Cons (key, v))) (scan_pairs n (skip_ws r4))
                            else None)))"
| "scan_items 0 s = None"
| "scan_items (Suc n) s =
     (case scan_once n s of
        None \<Rightarrow> None
      | Some (v, r) \<Rightarrow>
          (case skip_ws r of
             [] \<Rightarrow> None
           | d # r2 \<Rightarrow>
               if d = CHR '']'' then Some ([v], r2)
               else if d = CHR '','' then map_option (apfst (Cons v)) (scan_items n (skip_ws r2))
               else None))"

text \<open>\<open>None\<close> stands for \<open>JSONDecodeError\<close>.\<close>

definition loads :: "string \<Rightarrow> json option" where
  "loads s =
     (let t = skip_ws s
      in case scan_once (2 * length t + 2) t of
           None \<Rightarrow> None
         | Some (v, r) \<Rightarrow> if skip_ws r = [] then Some v else None)"

section \<open>The reader ends\<close>

lemma skip_ws_length: "length (skip_ws s) \<le> length s"
  by (simp add: skip_ws_def length_dropWhile_le)

lemma skip_ws_Cons: "skip_ws s = d # r \<Longrightarrow> length r < length s"
  using skip_ws_length [of s] by simp

lemma scan_string_shorter: "scan_string s = Some (x, r) \<Longrightarrow> length r < length s"
proof (induction s arbitrary: x r rule: scan_string.induct)
  case (2 c s)
  then show ?case
    by (fastforce split: if_splits option.splits dest: read_escape_shorter intro: less_trans)
qed simp

lemma read_int_shorter: "read_int s = Some (b, n, r) \<Longrightarrow> length r < length s"
proof -
  have *: "is_dec d \<Longrightarrow> length (dropWhile is_dec (d # ds)) \<le> length ds" for d ds
    by (simp add: length_dropWhile_le)
  assume "read_int s = Some (b, n, r)"
  then show ?thesis
    using * by (cases s) (auto simp: read_int_def Let_def less_Suc_eq_le split: list.splits if_splits intro: le_SucI length_dropWhile_le)
qed

lemma read_frac_length: "read_frac s = (f, r) \<Longrightarrow> length r \<le> length s"
  by (cases s) (auto simp: read_frac_def Let_def intro: le_SucI length_dropWhile_le split: if_splits)

lemma read_exp_length: "read_exp s = (f, r) \<Longrightarrow> length r \<le> length s"
  by (cases s; cases "tl s") (auto simp: read_exp_def Let_def intro: le_SucI length_dropWhile_le split: if_splits)

lemma scan_number_shorter: "scan_number s = Some (v, r) \<Longrightarrow> length r < length s"
  by (auto simp: scan_number_def split: option.splits prod.splits
      dest!: read_int_shorter read_frac_length read_exp_length)

lemma scan_literal_shorter: "scan_literal s = Some (v, r) \<Longrightarrow> length r < length s"
  by (cases s) (auto simp: scan_literal_def literals_def
      split: if_splits option.splits prod.splits dest: scan_number_shorter)

lemma scan_shorter:
  "scan_once n s = Some (v, r) \<Longrightarrow> length r < length s"
  "scan_pairs n s = Some (kvs, r) \<Longrightarrow> length r < length s"
  "scan_items n s = Some (vs, r) \<Longrightarrow> length r < length s"
proof (induction n s and n s and n s arbitrary: v r and kvs r and vs r rule: scan_once_scan_pairs_scan_items.induct)
  case (2 n s)
  then show ?case
    by (fastforce split: list.splits if_splits dest!: skip_ws_Cons scan_string_shorter scan_literal_shorter)
next
  case (4 n s)
  from "4.prems" obtain c1 key r1 r2 v r3 d r4 where s: "s = quote # c1" "scan_string c1 = Some (key, r1)"
    "skip_ws r1 = CHR '':'' # r2" "scan_once n (skip_ws r2) = Some (v, r3)" "skip_ws r3 = d # r4"
    and d: "(d = CHR ''}'' \<and> r = r4) \<or> (d = CHR '','' \<and> (\<exists>kvs'. scan_pairs n (skip_ws r4) = Some (kvs', r)))"
    by (auto split: list.splits if_splits option.splits prod.splits)
  have "length r4 < length s"
    using scan_string_shorter [OF s(2)] skip_ws_Cons [OF s(3)] "4.IH"(1) s skip_ws_Cons [OF s(5)] skip_ws_length [of r2]
    by fastforce
  with d show ?case using "4.IH"(2) s skip_ws_length [of r4] by fastforce
next
  case (6 n s)
  from "6.prems" obtain v r1 d r2 where s: "scan_once n s = Some (v, r1)" "skip_ws r1 = d # r2"
    and d: "(d = CHR '']'' \<and> r = r2) \<or> (d = CHR '','' \<and> (\<exists>vs'. scan_items n (skip_ws r2) = Some (vs', r)))"
    by (auto split: list.splits if_splits option.splits prod.splits)
  have "length r2 < length s"
    using "6.IH"(1) [OF s(1)] skip_ws_Cons [OF s(2)] by simp
  with d show ?case using "6.IH"(2) s skip_ws_length [of r2] by fastforce
qed simp_all

lemma scan_fuel_Suc:
  "(\<forall>s. 2 * length s + 1 \<le> n \<longrightarrow> scan_once (Suc n) s = scan_once n s) \<and>
   (\<forall>s. 2 * length s + 1 \<le> n \<longrightarrow> scan_pairs (Suc n) s = scan_pairs n s) \<and>
   (\<forall>s. 2 * length s + 2 \<le> n \<longrightarrow> scan_items (Suc n) s = scan_items n s)"
proof (induction n)
  case (Suc n)
  then have once: "2 * length s + 1 \<le> n \<Longrightarrow> scan_once (Suc n) s = scan_once n s"
    and pairs: "2 * length s + 1 \<le> n \<Longrightarrow> scan_pairs (Suc n) s = scan_pairs n s"
    and items: "2 * length s + 2 \<le> n \<Longrightarrow> scan_items (Suc n) s = scan_items n s" for s
    by blast+
  note simps = scan_once.simps(2) scan_pairs.simps(2) scan_items.simps(2)
  have "scan_once (Suc (Suc n)) s = scan_once (Suc n) s" if "2 * length s + 1 \<le> Suc n" for s
    using that skip_ws_Cons [of "tl s"] pairs items
    by (subst (1 2) simps) (fastforce split: list.split simp del: simps)
  moreover have "scan_items (Suc (Suc n)) s = scan_items (Suc n) s" if "2 * length s + 2 \<le> Suc n" for s
  proof -
    have "scan_items (Suc n) (skip_ws r2) = scan_items n (skip_ws r2)" if "scan_once n s = Some (v, r)" "skip_ws r = d # r2" for v r d r2
      using scan_shorter(1) [OF that(1)] skip_ws_Cons [OF that(2)] skip_ws_length [of r2] \<open>2 * length s + 2 \<le> Suc n\<close>
      by (intro items) linarith
    then show ?thesis using that
      by (subst (1 2) simps, subst once) (simp_all split: list.split option.split del: simps)
  qed
  moreover have "scan_pairs (Suc (Suc n)) s = scan_pairs (Suc n) s" if "2 * length s + 1 \<le> Suc n" for s
  proof (cases "\<exists>c1 key r1 r2. s = quote # c1 \<and> scan_string c1 = Some (key, r1) \<and> skip_ws r1 = CHR '':'' # r2")
    case True
    then obtain c1 key r1 r2 where s: "s = quote # c1" "scan_string c1 = Some (key, r1)" "skip_ws r1 = CHR '':'' # r2"
      by blast
    have r2: "2 * length (skip_ws r2) + 1 \<le> n"
      using scan_string_shorter [OF s(2)] skip_ws_Cons [OF s(3)] skip_ws_length [of r2] s(1) that by simp
    have "scan_pairs (Suc n) (skip_ws r4) = scan_pairs n (skip_ws r4)"
      if "scan_once n (skip_ws r2) = Some (v, r3)" "skip_ws r3 = d # r4" for v r3 d r4
      using scan_shorter(1) [OF that(1)] skip_ws_Cons [OF that(2)] skip_ws_length [of r4] r2 by (intro pairs) linarith
    with once [OF r2] s show ?thesis
      by (subst (1 2) simps) (simp split: list.split option.split del: simps)
  next
    case False
    then show ?thesis by (subst (1 2) simps) (auto split: list.split option.split simp del: simps)
  qed
  ultimately show ?case by blast
qed auto

lemma scan_fuel: "2 * length s + 1 \<le> n \<Longrightarrow> scan_once n s = scan_once (2 * length s + 1) s"
proof (induction n rule: dec_induct)
  case (step n)
  then show ?case using scan_fuel_Suc [of n] by simp
qed simp

section \<open>What is written is read\<close>

lemma hex_digit_value:
  "k < 16 \<Longrightarrow> hex_value (char_of (if k < 10 then 48 + k else 87 + k)) = Some k"
  by (auto simp: hex_value_def)

lemma read_hex4_hex4: "n < 256 \<Longrightarrow> read_hex4 (hex4 n @ s) = Some (n, s)"
  using hex_digit_value [of "n div 16"] hex_digit_value [of "n mod 16"] 
  by (simp add: hex4_def Let_def hex_value_def [of "CHR ''0''"])

lemma scan_string_json_char: "scan_string (json_char c @ s) = map_option (apfst (Cons c)) (scan_string s)"
proof -
  have u: "read_unicode (hex4 (of_char c) @ s) = Some ([c], s)" for c :: char and s
  proof -
    have "\<not> (55296::nat) \<le> of_char c" by (simp add: not_le less_trans [where y = 256])
    then show ?thesis by (simp add: read_unicode_def read_hex4_hex4 code_point_def)
  qed
  have single: "(@) [c] = (#) c" for c :: char by (rule ext) simp
  have escaped: "scan_string (backslash # e # s) = map_option (apfst (Cons c)) (scan_string s)"
    if "e \<noteq> CHR ''u''" and "escape_char e = Some c" for e
    using that by (simp add: read_escape_def single)
  have "scan_string (backslash # CHR ''u'' # hex4 (of_char c) @ s) = map_option (apfst (Cons c)) (scan_string s)"
    by (simp add: read_escape_def u single)
  then show ?thesis
    by (simp add: json_char_def escaped escape_char_def del: scan_string.simps) (simp add: not_less)
qed

lemma scan_json_string: "scan_string (concat (map json_char s) @ quote # r) = Some (s, r)"
  by (induction s) (simp_all add: scan_string_json_char)

lemma scan_plain: "plain s \<Longrightarrow> scan_string (s @ quote # r) = Some (s, r)"
proof -
  assume "plain s"
  then have "concat (map json_char s) = s" using json_plain [of s] by (simp add: json_string_def)
  with scan_json_string [of s r] show ?thesis by simp
qed

lemma plain_no_quote: "plain s \<Longrightarrow> quote \<notin> set s"
  by (auto simp: plain_def list_all_iff)

section \<open>Integers are read back\<close>

lemma is_dec_digit: "(n::nat) < 10 \<Longrightarrow> is_dec (char_of (48 + n))"
  by (simp add: is_dec_def)

lemma show_nat_digits: "show_nat n \<noteq> [] \<and> list_all is_dec (show_nat n)"
proof (induction n rule: show_nat.induct)
  case (1 n)
  then show ?case
    using is_dec_digit [of n] is_dec_digit [of "n mod 10"] by (subst (1 2) show_nat.simps) simp
qed

lemma dec_value_snoc: "dec_value (ds @ [d]) = dec_value ds * 10 + (of_char d - 48)"
  by (simp add: dec_value_def)

lemma dec_value_show_nat: "dec_value (show_nat n) = n"
proof (induction n rule: show_nat.induct)
  case (1 n)
  then show ?case
    by (subst show_nat.simps) (auto simp: dec_value_snoc, simp add: dec_value_def)
qed

lemma digit_ne_zero: "0 < (n::nat) \<Longrightarrow> n < 10 \<Longrightarrow> char_of (48 + n) \<noteq> CHR ''0''"
  by (auto dest: arg_cong [where f = "of_char :: char \<Rightarrow> nat"])

lemma show_nat_hd: "0 < n \<Longrightarrow> hd (show_nat n) \<noteq> CHR ''0''"
proof (induction n rule: show_nat.induct)
  case (1 n)
  show ?case
  proof (cases "n < 10")
    case True
    then show ?thesis using digit_ne_zero [of n] 1(2) by (simp add: show_nat.simps [of n])
  next
    case False
    then show ?thesis using 1 show_nat_digits [of "n div 10"]
      by (subst show_nat.simps) (simp add: hd_append)
  qed
qed

lemma takeWhile_digits:
  "list_all is_dec ds \<Longrightarrow> \<not> is_dec c \<Longrightarrow> takeWhile is_dec (ds @ c # r) = ds \<and> dropWhile is_dec (ds @ c # r) = c # r"
  by (induction ds) auto

lemma read_nat:
  assumes "\<not> is_dec c"
  shows "read_int (show_nat n @ c # r) = Some (False, n, c # r)"
    and "read_int (CHR ''-'' # show_nat n @ c # r) = Some (True, n, c # r)"
proof -
  obtain d ds where d: "show_nat n = d # ds" "is_dec d" "list_all is_dec (d # ds)"
    using show_nat_digits [of n] by (cases "show_nat n") auto
  then have minus: "d \<noteq> CHR ''-''" by (auto simp: is_dec_def)
  have zero: "n = 0 \<and> ds = []" if "d = CHR ''0''"
    using show_nat_hd [of n] d(1) that by (cases "n = 0") (auto simp: show_nat.simps [of 0])
  have tw: "takeWhile is_dec (d # ds @ c # r) = d # ds" "dropWhile is_dec (d # ds @ c # r) = c # r"
    using takeWhile_digits [OF d(3) assms, of r] by simp_all
  show "read_int (show_nat n @ c # r) = Some (False, n, c # r)"
    using minus zero d tw dec_value_show_nat [of n] by (auto simp: read_int_def Let_def)
  show "read_int (CHR ''-'' # show_nat n @ c # r) = Some (True, n, c # r)"
    using minus zero d tw dec_value_show_nat [of n] by (auto simp: read_int_def Let_def)
qed

text \<open>The end of a number in a list or an object.\<close>

lemma scan_show_int:
  assumes "c = CHR '','' \<or> c = CHR ''}'' \<or> c = CHR '']''"
  shows "scan_literal (show_int i @ c # r) = Some (JNum (of_int i), c # r)"
proof -
  have c: "\<not> is_dec c" "c \<noteq> CHR ''.''" "c \<noteq> CHR ''e''" "c \<noteq> CHR ''E''" using assms by (auto simp: is_dec_def)
  obtain d ds where d: "show_nat (nat \<bar>i\<bar>) = d # ds" "is_dec d"
    using show_nat_digits [of "nat \<bar>i\<bar>"] by (cases "show_nat (nat \<bar>i\<bar>)") auto
  then have "d \<notin> set ''ntfNI-''" by (auto simp: is_dec_def)
  then have "find (\<lambda>(w, v). take (length w) (show_int i @ c # r) = w) literals = None"
    by (simp add: literals_def show_int_def d(1))
  moreover have "scan_number (show_int i @ c # r) = Some (JNum (of_int i), c # r)"
    using read_nat [OF c(1)] c by (auto simp: scan_number_def show_int_def read_frac_def read_exp_def)
  ultimately show ?thesis by (simp add: scan_literal_def)
qed

section \<open>Objects are read back\<close>

text \<open>\<open>json.dumps\<close> of a dictionary, from the texts of its values.\<close>

fun dump_members :: "(string \<times> string) list \<Rightarrow> string" where
  "dump_members [] = []"
| "dump_members [(k, t)] = json_string k @ '': '' @ t"
| "dump_members ((k, t) # kts) = json_string k @ '': '' @ t @ '', '' @ dump_members kts"

definition dump_object :: "(string \<times> string) list \<Rightarrow> string" where
  "dump_object kts = ''{'' @ dump_members kts @ ''}''"

text \<open>A text is read as a value, whatever follows in the object.\<close>

definition value_text :: "json \<Rightarrow> string \<Rightarrow> bool" where
  "value_text v t \<longleftrightarrow> t \<noteq> [] \<and> \<not> is_ws (hd t) \<and>
     (\<forall>n c r. c = CHR '','' \<or> c = CHR ''}'' \<longrightarrow> scan_once (Suc n) (t @ c # r) = Some (v, c # r))"

lemma value_text_string: "value_text (JStr s) (json_string s)"
  by (simp add: value_text_def json_string_def is_ws_def scan_json_string)

lemma show_int_hd: "show_int i \<noteq> [] \<and> hd (show_int i) \<notin> {quote, CHR ''{'', CHR ''[''} \<and> \<not> is_ws (hd (show_int i))"
proof -
  obtain d ds where d: "show_nat (nat \<bar>i\<bar>) = d # ds" "is_dec d"
    using show_nat_digits [of "nat \<bar>i\<bar>"] by (cases "show_nat (nat \<bar>i\<bar>)") auto
  then show ?thesis by (auto simp: show_int_def is_dec_def is_ws_def)
qed

lemma value_text_int: "value_text (JNum (of_int i)) (show_int i)"
proof -
  have "scan_once (Suc n) (show_int i @ c # r) = Some (JNum (of_int i), c # r)" if "c = CHR '','' \<or> c = CHR ''}''" for n c r
    using show_int_hd [of i] scan_show_int [of c i r] that by (cases "show_int i") auto
  then show ?thesis using show_int_hd [of i] by (simp add: value_text_def)
qed

lemma skip_ws_value: "value_text v t \<Longrightarrow> skip_ws (CHR '' '' # t @ r) = t @ r"
  by (cases t) (auto simp: value_text_def skip_ws_def is_ws_def)

lemma scan_pairs_member:
  assumes "value_text v t" and "c = CHR '','' \<or> c = CHR ''}''"
  shows "scan_pairs (Suc (Suc n)) (json_string k @ '': '' @ t @ c # r) =
    (if c = CHR ''}'' then Some ([(k, v)], r) else map_option (apfst (Cons (k, v))) (scan_pairs (Suc n) (skip_ws r)))"
proof -
  have v: "scan_once (Suc n) (t @ c # r) = Some (v, c # r)" using assms by (auto simp: value_text_def)
  have c: "skip_ws (c # r) = c # r" using assms(2) by (auto simp: skip_ws_def is_ws_def)
  have key: "scan_string (concat (map json_char k) @ quote # CHR '':'' # CHR '' '' # t @ c # r) = Some (k, CHR '':'' # CHR '' '' # t @ c # r)"
    by (rule scan_json_string)
  have colon: "skip_ws (CHR '':'' # s) = CHR '':'' # s" for s by (simp add: skip_ws_def is_ws_def)
  show ?thesis
    using assms(2) by (subst scan_pairs.simps) (auto simp: json_string_def key colon skip_ws_value [OF assms(1)] v c simp del: scan_once.simps scan_pairs.simps)
qed

lemma scan_dump_members:
  assumes "list_all2 (\<lambda>(k, t) (k', v). k = k' \<and> value_text v t) kts kvs" and "kts \<noteq> []"
  shows "scan_pairs (Suc (length kts + n)) (dump_members kts @ CHR ''}'' # r) = Some (kvs, r)"
  using assms
proof (induction kts arbitrary: kvs rule: dump_members.induct)
  case (2 k t)
  then obtain v where "kvs = [(k, v)]" "value_text v t" by (auto simp: list_all2_Cons1)
  then show ?case using scan_pairs_member [of v t "CHR ''}''" n k r] by simp
next
  case (3 k t kt kts)
  then obtain v kvs' where v: "kvs = (k, v) # kvs'" "value_text v t"
    "list_all2 (\<lambda>(k, t) (k', v). k = k' \<and> value_text v t) (kt # kts) kvs'"
    by (auto simp: list_all2_Cons1)
  obtain m where m: "dump_members (kt # kts) = quote # m" by (cases kt; cases kts) (auto simp: json_string_def)
  have "skip_ws (CHR '' '' # dump_members (kt # kts) @ CHR ''}'' # r) = dump_members (kt # kts) @ CHR ''}'' # r"
    unfolding m by (simp add: skip_ws_def is_ws_def)
  with "3.IH" [OF v(3)] show ?case
    using scan_pairs_member [OF v(2), of "CHR '',''" "length (kt # kts) + n" k "CHR '' '' # dump_members (kt # kts) @ CHR ''}'' # r"] v(1)
    by simp
qed simp

lemma loads_dump_object:
  assumes "list_all2 (\<lambda>(k, t) (k', v). k = k' \<and> value_text v t) kts kvs"
  shows "loads (dump_object kts) = Some (JObj kvs)"
proof (cases "kts = []")
  case True
  with assms show ?thesis by (simp add: dump_object_def loads_def skip_ws_def is_ws_def numeral_eq_Suc)
next
  case False
  then obtain m where m: "dump_members kts = quote # m" by (cases kts rule: dump_members.cases) (auto simp: json_string_def)
  let ?s = "dump_object kts"
  have ws: "skip_ws ?s = ?s" by (simp add: dump_object_def skip_ws_def is_ws_def)
  have "scan_once (2 * length ?s + 2) ?s = scan_once (Suc (Suc (length kts + 2 * length ?s))) ?s"
    using scan_fuel [of ?s "2 * length ?s + 2"] scan_fuel [of ?s "Suc (Suc (length kts + 2 * length ?s))"] by simp
  also have "\<dots> = map_option (apfst JObj) (scan_pairs (Suc (length kts + 2 * length ?s)) (dump_members kts @ ''}''))"
    by (subst scan_once.simps) (simp add: dump_object_def m skip_ws_def is_ws_def del: scan_pairs.simps)
  also have "\<dots> = Some (JObj kvs, [])" using scan_dump_members [OF assms False, of "2 * length ?s" "[]"] by simp
  finally show ?thesis by (simp add: loads_def Let_def ws skip_ws_def [of "[]"])
qed

section \<open>Quotation marks\<close>

lemma hex_value_quote: "hex_value quote = None"
  by (simp add: hex_value_def)

lemma read_hex4_split: "read_hex4 s = Some (u, r) \<Longrightarrow> \<exists>p. s = p @ r \<and> quote \<notin> set p"
proof (induction s rule: read_hex4.induct)
  case (1 a b c d s)
  then have "r = s \<and> quote \<notin> set [a, b, c, d]" using hex_value_quote by (auto split: option.splits)
  then show ?case by (intro exI [of _ "[a, b, c, d]"]) simp
qed simp_all

lemma read_unicode_split:
  assumes "read_unicode s = Some (x, r)"
  shows "\<exists>p. s = p @ r \<and> quote \<notin> set p"
proof -
  from assms obtain u r1 where r1: "read_hex4 s = Some (u, r1)" by (auto simp: read_unicode_def split: option.splits)
  then obtain p1 where p1: "s = p1 @ r1" "quote \<notin> set p1" using read_hex4_split by blast
  show ?thesis
  proof (cases "r = r1")
    case True
    with p1 show ?thesis by blast
  next
    case False
    then obtain v where t: "take 2 r1 = [backslash, CHR ''u'']" and v: "read_hex4 (drop 2 r1) = Some (v, r)"
      using assms r1 by (auto simp: read_unicode_def split: option.splits if_splits prod.splits)
    from read_hex4_split [OF v] obtain p2 where p2: "drop 2 r1 = p2 @ r" "quote \<notin> set p2" by blast
    have "r1 = [backslash, CHR ''u''] @ p2 @ r" using t p2(1) append_take_drop_id [of 2 r1] by simp
    with p1 p2 show ?thesis by (intro exI [of _ "p1 @ [backslash, CHR ''u''] @ p2"]) simp
  qed
qed

text \<open>The only quotation mark that an escape takes is that of \<open>\"\<close>.\<close>

lemma read_escape_split:
  assumes "read_escape s = Some (x, r)"
  shows "\<exists>p. s = p @ r \<and> (quote \<in> set p \<longrightarrow> p = [quote])"
proof (cases s)
  case (Cons e t)
  show ?thesis
  proof (cases "e = CHR ''u''")
    case True
    with assms Cons have "read_unicode t = Some (x, r)" by (simp add: read_escape_def)
    then obtain p where "t = p @ r" "quote \<notin> set p" using read_unicode_split by blast
    with Cons True show ?thesis by (intro exI [of _ "e # p"]) simp
  next
    case False
    with assms Cons have "s = [e] @ r" by (auto simp: read_escape_def)
    then show ?thesis by (intro exI [of _ "[e]"]) simp
  qed
qed (use assms in \<open>simp add: read_escape_def\<close>)

lemma scan_string_quote: "scan_string s = Some (x, r) \<Longrightarrow> quote \<in> set s"
proof (induction s arbitrary: x rule: scan_string.induct)
  case (2 c s)
  then show ?case by (auto split: if_splits option.splits dest: read_escape_split)
qed simp

text \<open>The text between an opening quotation mark and the end of a line that has only one more before its last character.\<close>

lemma scan_string_last:
  "quote \<notin> set m \<Longrightarrow> scan_string (m @ [quote, e]) = Some (x, r) \<Longrightarrow> e \<noteq> quote \<Longrightarrow> r = [e]"
proof (induction "length m" arbitrary: m x rule: less_induct)
  case less
  show ?case
  proof (cases m)
    case Nil
    with less.prems show ?thesis by simp
  next
    case (Cons c m')
    with less.prems have c: "c \<noteq> quote" "quote \<notin> set m'" by auto
    show ?thesis
    proof (cases "c = backslash")
      case False
      with less.prems Cons c obtain y where "scan_string (m' @ [quote, e]) = Some (y, r)"
        by (auto split: if_splits)
      then show ?thesis using less.hyps [of m' y] Cons c less.prems(3) by simp
    next
      case True
      with less.prems Cons c obtain y z t where esc: "read_escape (m' @ [quote, e]) = Some (y, t)"
        and t: "scan_string t = Some (z, r)"
        by (auto split: if_splits option.splits)
      from read_escape_split [OF esc] obtain p where p: "m' @ [quote, e] = p @ t" "quote \<in> set p \<longrightarrow> p = [quote]" by blast
      have "quote \<in> set t" using scan_string_quote [OF t] .
      with p(1) less.prems(3) c obtain q where "m' = p @ q" and tq: "t = q @ [quote, e]"
        by (auto simp: append_eq_append_conv2 append_eq_Cons_conv Cons_eq_append_conv)
      then show ?thesis using less.hyps [of q z] Cons c t less.prems(3) by simp
    qed
  qed
qed

text \<open>An object with a member has two quotation marks.\<close>

lemma loads_object_quotes:
  assumes "loads s = Some (JObj obj)" and "obj \<noteq> []"
  shows "2 \<le> length (filter (\<lambda>c. c = quote) s)"
proof -
  obtain t where t: "t = skip_ws s" and once: "\<exists>r. scan_once (Suc (2 * length t + 1)) t = Some (JObj obj, r)"
    using assms(1) by (auto simp: loads_def Let_def split: option.splits if_splits simp del: scan_once.simps)
  from once assms(2) obtain c r d r2 where "t = c # r" "skip_ws r = d # r2" "\<exists>x r3. scan_string r2 = Some (x, r3)" "d = quote"
    by (auto simp: scan_literal_def literals_def scan_number_def split: list.splits if_splits option.splits prod.splits)
  then have "2 \<le> length (filter (\<lambda>c. c = quote) (c # skip_ws r))" 
    using scan_string_quote by (fastforce simp: filter_empty_conv Suc_le_eq simp flip: length_greater_0_conv)
  moreover have drop: "length (filter P (skip_ws u)) \<le> length (filter P u)" for P :: "char \<Rightarrow> bool" and u
    by (induction u) (auto simp: skip_ws_def le_SucI)
  ultimately have "2 \<le> length (filter (\<lambda>c. c = quote) t)"
    using drop [of "\<lambda>c. c = quote" r] \<open>t = c # r\<close> by (auto intro: order_trans split: if_splits)
  then show ?thesis using drop [of "\<lambda>c. c = quote" s] t by simp
qed

lemma loads_examples:
  "loads (''{'' @ json_string ''a'' @ '': [1.50, -2e1, null]}'') =
     Some (JObj [(''a'', JList [JNum (3 / 2), JNum (- 20), JNull])])"
  by code_simp

end
