(* ===== verification/Bms_Server.thy ===== *)
theory Bms_Server
  imports Bms_Fsm Ev_Api Json
begin

text \<open>
  The TCP side of the simulator daemon (\<open>ev_battery_hil/bms/src/TelemetryServer.cpp\<close>): its keyword parser of command lines and the
  telemetry frames it prints, together with the lines that the orchestrator's client writes
  (\<open>send_command\<close> of \<open>orchestrator/app/client.py\<close>). A command and an update are taken to exclude each other, although the
  main loop does not take the server's mutex. Formatting of a double by Python and its reading by \<open>std::stod\<close> are parameters.
\<close>

section \<open>The command parser\<close>

text \<open>What follows the first occurrence of a text (\<open>std::string::find\<close>).\<close>

fun after :: "string \<Rightarrow> string \<Rightarrow> string option" where
  "after key s =
     (if take (length key) s = key then Some (drop (length key) s)
      else case s of [] \<Rightarrow> None | _ # s' \<Rightarrow> after key s')"

declare after.simps [simp del]

definition extract_str :: "string \<Rightarrow> string \<Rightarrow> string" where
  "extract_str key s =
     (case after key s of
        None \<Rightarrow> []
      | Some r \<Rightarrow>
          (case after [quote] r of
             None \<Rightarrow> []
           | Some r1 \<Rightarrow> if quote \<in> set r1 then takeWhile (\<lambda>c. c \<noteq> quote) r1 else []))"

text \<open>\<open>stod\<close> reads a number off the front of a text; \<open>None\<close> is an exception, which nothing catches.\<close>

definition extract_num :: "(string \<Rightarrow> real option) \<Rightarrow> string \<Rightarrow> string \<Rightarrow> real option" where
  "extract_num stod key s =
     (case after key s of
        None \<Rightarrow> Some 0
      | Some r \<Rightarrow> (case after '':'' r of None \<Rightarrow> Some 0 | Some r1 \<Rightarrow> stod r1))"

definition command_key :: string where "command_key = quote # ''command'' @ [quote]"
definition value_key :: string where "value_key = quote # ''value'' @ [quote]"

text \<open>\<open>None\<close> is the end of the process: the exception leaves the receiving thread (\<open>std::terminate\<close>).\<close>

definition handle_command :: "(string \<Rightarrow> real option) \<Rightarrow> string \<Rightarrow> bms \<times> battery \<Rightarrow> (bms \<times> battery) option" where
  "handle_command stod line ms =
     (let s = takeWhile (\<lambda>c. c \<noteq> CHR 0x00) line;
          cmd = extract_str command_key s
      in case ms of (m, b) \<Rightarrow>
           if cmd = ''SET_CURRENT'' then
             (case extract_num stod value_key s of None \<Rightarrow> None | Some val \<Rightarrow> Some (m, b\<lparr>b_i := val\<rparr>))
           else if cmd = ''SET_FAULT'' then
             (if extract_str value_key s = ''THERMAL_RUNAWAY'' then Some (m, b\<lparr>b_block := True\<rparr>) else Some (m, b))
           else if cmd = ''RESET'' then Some (bms_reset (m, b))
           else Some (m, b))"

section \<open>The lines the client writes\<close>

text \<open>\<open>json.dumps({"command": ..., "value": ...})\<close>, without the value when it is \<open>None\<close>.\<close>

definition command_line :: "(real \<Rightarrow> string) \<Rightarrow> message \<Rightarrow> string" where
  "command_line show msg =
     CHR ''{'' # json_string ''command'' @ '': '' @ json_string (command msg) @
     (case cvalue msg of
        None \<Rightarrow> []
      | Some v \<Rightarrow> '', '' @ json_string ''value'' @ '': '' @ (case v of VStr s \<Rightarrow> json_string s | VNum x \<Rightarrow> show x)) @ ''}''"

section \<open>Telemetry\<close>

definition decimals :: "nat \<Rightarrow> real \<Rightarrow> real" where
  "decimals k x = of_int (round_half_even (x * 10 ^ k)) / 10 ^ k"

text \<open>The frame of \<open>send_telemetry\<close>, with its numbers rounded as \<open>%.4f\<close>, \<open>%.2f\<close> and \<open>%.6f\<close> print them.\<close>

definition telemetry :: "int \<Rightarrow> bms \<times> battery \<Rightarrow> telemetry_frame" where
  "telemetry ts ms =
     (case ms of (m, b) \<Rightarrow>
        \<lparr>ts_us = ts, SoC = decimals 4 (b_soc b), V_terminal = decimals 4 (b_v b), I_load = decimals 2 (b_i b),
         T_cell = decimals 2 (b_t b), V_RC = decimals 6 (b_vrc b), state = bms_state_name (m_state m),
         fault_code = fault_code_name (m_fault m)\<rparr>)"

section \<open>A command arrives as it was sent\<close>

text \<open>What is assumed of \<open>std::stod\<close> and Python's \<open>repr\<close> for one number, and of \<open>stod\<close> before a quotation mark.\<close>

definition reads_back :: "(string \<Rightarrow> real option) \<Rightarrow> (real \<Rightarrow> string) \<Rightarrow> real \<Rightarrow> bool" where
  "reads_back stod show x \<longleftrightarrow> stod ('' '' @ show x @ ''}'') = Some x \<and> set (show x) \<subseteq> set ''+-.0123456789e''"

definition refuses_quotes :: "(string \<Rightarrow> real option) \<Rightarrow> bool" where
  "refuses_quotes stod \<longleftrightarrow> (\<forall>s. stod ('' '' @ quote # s) = None)"

lemma after_here: "after key (key @ s) = Some s"
  by (subst after.simps) simp

lemma after_char: "c \<notin> set p \<Longrightarrow> after [c] (p @ c # s) = Some s"
proof (induction p)
  case Nil
  show ?case by (subst after.simps) simp
next
  case (Cons d p)
  then show ?case by (subst after.simps) auto
qed

text \<open>Skipping a text that does not contain the first character of the key.\<close>

lemma after_prefix: "k \<notin> set p \<Longrightarrow> after (k # key) (p @ s) = after (k # key) s"
proof (induction p)
  case (Cons d p)
  then show ?case by (subst after.simps) auto
qed simp

lemma after_none: "k \<notin> set p \<Longrightarrow> after (k # key) p = None"
proof (induction p)
  case Nil
  show ?case by (subst after.simps) simp
next
  case (Cons d p)
  then show ?case by (subst after.simps) auto
qed

lemma json_char_cases: "plain [c] \<Longrightarrow> json_char c = [c]" "\<not> plain [c] \<Longrightarrow> \<exists>ys. json_char c = CHR 0x5C # ys"
  by (auto simp: json_char_def plain_def not_le)

text \<open>The escaped text up to its first quotation mark is a plain text only if the text was it already.\<close>

lemma escaped_plain:
  "plain t \<Longrightarrow> takeWhile (\<lambda>c. c \<noteq> quote) (concat (map json_char v) @ quote # r) = t \<longleftrightarrow> v = t"
proof (induction v arbitrary: t)
  case Nil
  then show ?case by auto
next
  case (Cons c v)
  show ?case
  proof (cases "plain [c]")
    case True
    then have "c \<noteq> quote" by (simp add: plain_def)
    moreover have "plain (tl t)" using Cons.prems by (cases t) (simp_all add: plain_def)
    ultimately show ?thesis using json_char_cases(1) [OF True] Cons.IH [of "tl t"] by (cases t) auto
  next
    case False
    then obtain ys where "json_char c = CHR 0x5C # ys" using json_char_cases(2) by blast
    moreover have "t \<noteq> CHR 0x5C # zs" "t \<noteq> c # zs" for zs using Cons.prems False by (auto simp: plain_def)
    ultimately show ?thesis by auto
  qed
qed

lemma json_char_no_nul: "CHR 0x00 \<notin> set (json_char c)"
proof (cases "of_char c < (32::nat) \<or> (126::nat) < of_char c")
  case True
  have "of_char c div 16 < (16::nat)" using nat_of_char_less_256 [of c] by (simp add: less_mult_imp_div_less)
  then have "CHR 0x00 \<notin> set (hex4 (of_char c))"
    by (auto simp: hex4_def Let_def dest!: arg_cong [where f = "of_char :: char \<Rightarrow> nat"])
  then show ?thesis by (auto simp: json_char_def)
next
  case False
  then have "c \<noteq> CHR 0x00" by auto
  with False show ?thesis by (simp add: json_char_def)
qed

lemma json_string_no_nul: "CHR 0x00 \<notin> set (json_string s)"
  using json_char_no_nul by (auto simp: json_string_def)

lemma plain_no_nul: "plain s \<Longrightarrow> CHR 0x00 \<notin> set s"
  by (induction s) (auto simp: plain_def)

lemma load_commands_plain: "cmd \<in> set load_commands \<Longrightarrow> plain cmd"
  by (auto simp: load_commands_def plain_def)

lemma plain_command: "json_string ''command'' = command_key" "json_string ''value'' = value_key"
  by (simp_all add: json_plain plain_def command_key_def value_key_def)

text \<open>The value part of a line.\<close>

definition value_text :: "(real \<Rightarrow> string) \<Rightarrow> cmd_value option \<Rightarrow> string" where
  "value_text show v =
     (case v of
        None \<Rightarrow> []
      | Some v \<Rightarrow> '', '' @ value_key @ '': '' @ (case v of VStr s \<Rightarrow> json_string s | VNum x \<Rightarrow> show x))"

lemma command_line_eq:
  assumes "command msg \<in> set load_commands"
  shows "command_line show msg = CHR ''{'' # command_key @ '': '' @ quote # command msg @ quote # value_text show (cvalue msg) @ ''}''"
  using json_plain [OF load_commands_plain [OF assms]]
  by (simp add: command_line_def value_text_def plain_command split: option.split)

lemma extract_command:
  assumes "plain cmd" shows "extract_str command_key (CHR ''{'' # command_key @ '': '' @ quote # cmd @ quote # r) = cmd"
proof -
  have "after command_key (CHR ''{'' # command_key @ '': '' @ quote # cmd @ quote # r) = Some ('': '' @ quote # cmd @ quote # r)"
    using after_prefix [of quote "''{''" "''command'' @ [quote]"] after_here [of command_key] by (simp add: command_key_def)
  moreover have "after [quote] ('': '' @ quote # cmd @ quote # r) = Some (cmd @ quote # r)"
    by (rule after_char) simp
  moreover have "takeWhile (\<lambda>c. c \<noteq> quote) (cmd @ quote # r) = cmd"
    using assms by (intro takeWhile_tail [THEN trans]) (auto simp: plain_def list_all_iff)
  ultimately show ?thesis by (simp add: extract_str_def)
qed

lemma after_value:
  assumes "cmd \<in> set load_commands"
  shows "after value_key (CHR ''{'' # command_key @ '': '' @ quote # cmd @ quote # r) = after value_key (quote # r)"
  using assms by (auto simp: load_commands_def command_key_def value_key_def after.simps)

lemma value_none: "after value_key (quote # ''}'') = None"
  by (simp add: value_key_def after.simps)

lemma value_some: "after value_key (quote # '', '' @ value_key @ r) = Some r"
proof -
  have "after value_key (quote # '', '' @ value_key @ r) = after value_key (value_key @ r)"
    by (simp add: value_key_def after.simps)
  then show ?thesis by (simp add: after_here)
qed

lemma reads_back_chars: "reads_back stod show x \<Longrightarrow> CHR 0x00 \<notin> set (show x) \<and> quote \<notin> set (show x)"
  by (auto simp: reads_back_def)

lemma line_chars:
  assumes "command msg \<in> set load_commands" and "\<And>x. cvalue msg = Some (VNum x) \<Longrightarrow> CHR 0x00 \<notin> set (show x)"
  shows "takeWhile (\<lambda>c. c \<noteq> CHR 0x00) (command_line show msg) = command_line show msg"
proof -
  have "CHR 0x00 \<notin> set (value_text show (cvalue msg))"
  proof (cases "cvalue msg")
    case (Some v)
    then show ?thesis
    proof (cases v)
      case (VStr t)
      with Some show ?thesis using json_string_no_nul [of t] by (simp add: value_text_def value_key_def)
    next
      case (VNum x)
      with Some show ?thesis using assms(2) by (simp add: value_text_def value_key_def)
    qed
  qed (simp add: value_text_def)
  moreover have "CHR 0x00 \<notin> set (command msg)" using plain_no_nul [OF load_commands_plain [OF assms(1)]] .
  ultimately have "CHR 0x00 \<notin> set (command_line show msg)"
    unfolding command_line_eq [OF assms(1)] by (simp add: command_key_def)
  then show ?thesis unfolding takeWhile_eq_all_conv by metis
qed

lemma line_value:
  assumes "command msg \<in> set load_commands"
  shows "after value_key (command_line show msg) = (case cvalue msg of
      None \<Rightarrow> None | Some (VStr s) \<Rightarrow> Some ('': '' @ json_string s @ ''}'') | Some (VNum x) \<Rightarrow> Some ('': '' @ show x @ ''}''))"
  unfolding command_line_eq [OF assms] after_value [OF assms] using value_none value_some
  by (auto simp: value_text_def split: option.split cmd_value.split)

lemma line_thermal:
  assumes "command msg \<in> set load_commands" and "\<And>x. cvalue msg = Some (VNum x) \<Longrightarrow> quote \<notin> set (show x)"
  shows "extract_str value_key (command_line show msg) = ''THERMAL_RUNAWAY'' \<longleftrightarrow> cvalue msg = Some (VStr ''THERMAL_RUNAWAY'')"
proof (cases "cvalue msg")
  case None
  then show ?thesis by (simp add: extract_str_def line_value [OF assms(1)])
next
  case (Some v)
  show ?thesis
  proof (cases v)
    case (VStr s)
    have "after [quote] ('': '' @ json_string s @ ''}'') = Some (concat (map json_char s) @ quote # ''}'')"
      using after_char [of quote "'': ''"] by (simp add: json_string_def)
    moreover have "plain ''THERMAL_RUNAWAY''" by (simp add: plain_def)
    ultimately show ?thesis
      using Some VStr escaped_plain [of "''THERMAL_RUNAWAY''" s "''}''"] by (simp add: extract_str_def line_value [OF assms(1)])
  next
    case (VNum x)
    have "quote \<notin> set ('': '' @ show x @ ''}'')" using assms(2) Some VNum by simp
    then have "after [quote] ('': '' @ show x @ ''}'') = None" using after_none [of quote _ "[]"] by blast
    then show ?thesis using Some VNum by (simp add: extract_str_def line_value [OF assms(1)])
  qed
qed

text \<open>
  C23. The two programs agree on the command lines, for every request that the API accepts: a current arrives as the number
  that was sent, a missing value as zero, the fault and the reset as themselves, and everything else changes nothing.
  A current that is given as a text, which the API accepts too, ends the simulator process.
\<close>

theorem command_effect:
  assumes "command msg \<in> set load_commands" and "refuses_quotes stod"
    and "\<And>x. cvalue msg = Some (VNum x) \<Longrightarrow> reads_back stod show x"
  shows "handle_command stod (command_line show msg) (m, b) =
    (if command msg = ''SET_CURRENT'' then
       (case cvalue msg of
          None \<Rightarrow> Some (m, b\<lparr>b_i := 0\<rparr>)
        | Some (VNum x) \<Rightarrow> Some (m, b\<lparr>b_i := x\<rparr>)
        | Some (VStr s) \<Rightarrow> None)
     else if command msg = ''SET_FAULT'' then
       Some (m, if cvalue msg = Some (VStr ''THERMAL_RUNAWAY'') then b\<lparr>b_block := True\<rparr> else b)
     else if command msg = ''RESET'' then Some (bms_reset (m, b))
     else Some (m, b))"
proof -
  let ?line = "command_line show msg"
  have chars: "CHR 0x00 \<notin> set (show x)" "quote \<notin> set (show x)" if "cvalue msg = Some (VNum x)" for x
    using reads_back_chars [OF assms(3) [OF that]] by simp_all
  have s: "takeWhile (\<lambda>c. c \<noteq> CHR 0x00) ?line = ?line" by (rule line_chars [OF assms(1) chars(1)])
  have cmd: "extract_str command_key ?line = command msg"
    unfolding command_line_eq [OF assms(1)] by (rule extract_command) (rule load_commands_plain [OF assms(1)])
  have colon: "after '':'' ('': '' @ r) = Some ('' '' @ r)" for r by (simp add: after.simps)
  have num: "extract_num stod value_key ?line = (case cvalue msg of None \<Rightarrow> Some 0 | Some (VStr s) \<Rightarrow> None | Some (VNum x) \<Rightarrow> Some x)"
  proof (cases "cvalue msg")
    case None
    then show ?thesis by (simp add: extract_num_def line_value [OF assms(1)])
  next
    case (Some v)
    then show ?thesis
      using assms(2) assms(3) [of "case v of VNum x \<Rightarrow> x | _ \<Rightarrow> 0"]
      by (cases v) (simp_all only: extract_num_def line_value [OF assms(1)] option.case cmd_value.case colon,
        simp_all add: refuses_quotes_def reads_back_def json_string_def)
  qed
  have "extract_str value_key ?line = ''THERMAL_RUNAWAY'' \<longleftrightarrow> cvalue msg = Some (VStr ''THERMAL_RUNAWAY'')"
    by (rule line_thermal [OF assms(1) chars(2)])
  then show ?thesis unfolding handle_command_def s cmd num Let_def
    by (auto split: option.split cmd_value.split)
qed

text \<open>A toy \<open>stod\<close> that reads one number: fifty arrives, and a text ends the process.\<close>

definition toy_stod :: "string \<Rightarrow> real option" where
  "toy_stod s = (if s = '' 50.0}'' then Some 50 else None)"

theorem command_effect_witness:
  "handle_command toy_stod (command_line (\<lambda>_. ''50.0'') \<lparr>command = ''SET_CURRENT'', cvalue = Some (VNum 50)\<rparr>) (bms_init, battery_init) =
     Some (bms_init, battery_init\<lparr>b_i := 50\<rparr>) \<and>
   handle_command toy_stod (command_line (\<lambda>_. ''50.0'') \<lparr>command = ''SET_CURRENT'', cvalue = Some (VStr ''fast'')\<rparr>) (bms_init, battery_init) = None"
proof -
  have q: "refuses_quotes toy_stod" by (simp add: refuses_quotes_def toy_stod_def)
  have r: "reads_back toy_stod (\<lambda>_. ''50.0'') 50" by (simp add: reads_back_def toy_stod_def)
  have c: "''SET_CURRENT'' \<in> set load_commands" by (simp add: load_commands_def)
  show ?thesis
    using command_effect [of "\<lparr>command = ''SET_CURRENT'', cvalue = Some (VNum 50)\<rparr>" toy_stod "\<lambda>_. ''50.0''" bms_init battery_init]
      command_effect [of "\<lparr>command = ''SET_CURRENT'', cvalue = Some (VStr ''fast'')\<rparr>" toy_stod "\<lambda>_. ''50.0''" bms_init battery_init] q r c
    by simp
qed

section \<open>The daemon under any commands\<close>

definition is_reset :: "string \<Rightarrow> bool" where
  "is_reset line \<longleftrightarrow> extract_str command_key (takeWhile (\<lambda>c. c \<noteq> CHR 0x00) line) = ''RESET''"

text \<open>The states that a daemon reaches by updates and command lines, with the number of resets among them.\<close>

inductive bms_reach :: "(string \<Rightarrow> real option) \<Rightarrow> nat \<Rightarrow> bms \<times> battery \<Rightarrow> bool" for stod where
  Start: "bms_reach stod 0 (bms_init, battery_init)"
| Tick: "bms_reach stod n ms \<Longrightarrow> bms_reach stod n (snd (bms_update ms))"
| Command: "bms_reach stod n ms \<Longrightarrow> handle_command stod line ms = Some ms' \<Longrightarrow>
    bms_reach stod (if is_reset line then n + 1 else n) ms'"

lemma handle_command_cases:
  assumes "handle_command stod line (m, b) = Some ms'"
  shows "(is_reset line \<and> ms' = bms_reset (m, b)) \<or> (\<not> is_reset line \<and> (ms' = (m, b) \<or> ms' = (m, b\<lparr>b_block := True\<rparr>) \<or> (\<exists>i. ms' = (m, b\<lparr>b_i := i\<rparr>))))"
  using assms by (auto simp: handle_command_def is_reset_def Let_def split: if_splits option.splits)

lemma bms_reach_inv: "bms_reach stod n ms \<Longrightarrow> bms_inv n ms"
proof (induction rule: bms_reach.induct)
  case Start
  show ?case by (rule bms_inv_init)
next
  case (Tick n ms)
  then show ?case by (metis bms_inv_update prod.collapse)
next
  case (Command n ms line ms')
  then show ?case
    using handle_command_cases [of stod line "fst ms" "snd ms" ms'] bms_inv_reset [of n ms] bms_inv_command
    by (cases ms) auto
qed



end
