(* ===== verification/Ev_Hil.thy ===== *)
theory Ev_Hil
  imports Bms_Server
begin

text \<open>
  The two halves of the battery test bench together: the test sequences that are shipped with the orchestrator
  (\<open>ev_battery_hil/orchestrator/sequences\<close>) on the simulated battery, and the first contact of a fresh daemon and a
  fresh orchestrator over TCP, with the server's accept and send loops (\<open>bms/src/TelemetryServer.cpp\<close>) and the client's
  connection loop as the steps of one relation.
\<close>

section \<open>The shipped sequences\<close>

definition set_current :: "real \<Rightarrow> real \<Rightarrow> seq_step" where
  "set_current i d = \<lparr>st_command = Some ''SET_CURRENT'', st_value = Some (VNum i), st_duration = Val d\<rparr>"

definition acceleration_pulse :: seq_spec where
  "acceleration_pulse = \<lparr>sp_repeat = Val 10, sp_steps = Some [set_current 200 5, set_current 0 5]\<rparr>"

definition capacity_test :: seq_spec where
  "capacity_test = \<lparr>sp_repeat = Absent, sp_steps = Some [set_current 20 18000]\<rparr>"

definition constant_discharge :: seq_spec where
  "constant_discharge = \<lparr>sp_repeat = Absent, sp_steps = Some [set_current 50 1800]\<rparr>"

definition regen_braking :: seq_spec where
  "regen_braking = \<lparr>sp_repeat = Absent, sp_steps = Some [set_current (-50) 2, set_current 0 1]\<rparr>"

definition shipped :: "seq_spec list" where
  "shipped = [acceleration_pulse, capacity_test, constant_discharge, regen_braking]"

text \<open>The daemon under a step: a thousand updates in each second.\<close>

definition under_step :: "seq_step \<Rightarrow> bms \<times> battery \<Rightarrow> bms \<times> battery" where
  "under_step st ms =
     (case (st_value st, ms) of
        (Some (VNum i), (m, b)) \<Rightarrow> run_updates (nat \<lfloor>duration_of st * 1000\<rfloor>) (m, b\<lparr>b_i := i\<rparr>)
      | _ \<Rightarrow> ms)"

lemma run_updates_latched:
  "m_state (fst (run_updates n ms)) = FAULT \<Longrightarrow> n \<le> k \<Longrightarrow> m_state (fst (run_updates k ms)) = FAULT"
proof (induction k)
  case (Suc k)
  show ?case
  proof (cases "n = Suc k")
    case False
    then have "m_state (fst (run_updates k ms)) = FAULT" using Suc by simp
    then show ?thesis by (cases "run_updates k ms") (simp add: bms_update_def)
  qed (use Suc.prems in simp)
qed simp

lemma overvoltage:
  assumes "bms_inv n (m, b)" and "m_state m \<noteq> FAULT" and "SOC_HIGH < b_soc b" and "- I_MAX \<le> b_i b" and "b_i b < 0"
  shows "m_state (fst (run_updates (Suc 0) (m, b))) = FAULT"
proof -
  obtain ok m' b' where up: "bms_update (m, b) = (ok, m', b')" by (metis prod.collapse)
  have "0 \<le> - drain (b_i b)" using assms(5) by (simp add: drain_def constants)
  moreover have "b_soc b \<le> 1" using assms(1) by (simp add: bms_inv_def)
  ultimately have "b_soc b' > SOC_HIGH"
    using one_update(2) [OF up _ assms(2)] assms(3-5) by (simp add: clamp_soc_def Let_def SOC_HIGH_def)
  then show ?thesis using one_update(3) [OF up _ assms(2)] assms(4,5) up by simp
qed

text \<open>
  C20. Each of the shipped sequences, on a healthy daemon with a full battery: the simulator latches a fault within the first step,
  and the orchestrator still reports the run as passed, whatever the telemetry frames say.
\<close>

theorem shipped_sequences_fault:
  assumes "sp \<in> set shipped" and "bms_inv 0 (m, b)" and "m_state m \<noteq> FAULT" and "m_energy m = 0" and "b_soc b = 1"
    and "\<forall>n. v_db env n" and "v_ensure env"
  shows "m_state (fst (under_step (hd (the (sp_steps sp))) (m, b))) = FAULT \<and>
    passed (x_run (exec_run env (Mapping sp) x))"
proof -
  have load: "m_state (fst (run_updates n (m, b\<lparr>b_i := i\<rparr>))) = FAULT" if "\<bar>i\<bar> \<le> I_MAX" "E_FAULT \<le> real n * joule i" for n i
    using run_updates_reached [of "(m, b\<lparr>b_i := i\<rparr>)" n] bms_inv_command(1) [OF assms(2)] assms(4) that by simp
  have "m_state (fst (run_updates (Suc 0) (m, b\<lparr>b_i := -50\<rparr>))) = FAULT"
    using assms(5) by (intro overvoltage [OF bms_inv_command(1) [OF assms(2)] assms(3)]) (simp_all add: constants)
  then have regen: "m_state (fst (run_updates 2000 (m, b\<lparr>b_i := -50\<rparr>))) = FAULT"
    by (rule run_updates_latched) simp
  have "m_state (fst (under_step (hd (the (sp_steps sp))) (m, b))) = FAULT"
    using assms(1) load [of 200 5000] load [of 20 18000000] load [of 50 1800000] regen
    by (auto simp: shipped_def acceleration_pulse_def capacity_test_def constant_discharge_def regen_braking_def
        under_step_def set_current_def duration_of_def joule_def constants)
  moreover have "sp_steps sp = Some (the (sp_steps sp))" "list_all step_ok (the (sp_steps sp))" "sp_repeat sp \<noteq> Bad"
    using assms(1) by (auto simp: shipped_def acceleration_pulse_def capacity_test_def constant_discharge_def regen_braking_def
        set_current_def step_ok_def)
  then have "passed (x_run (exec_run env (Mapping sp) x))" using exec_run_sends assms(6,7) by blast
  ultimately show ?thesis by simp
qed

theorem shipped_sequences_fault_witness:
  "m_state (fst (under_step (set_current 200 5) (bms_init, battery_init))) = FAULT \<and>
   passed (x_run (exec_run idle_env (Mapping acceleration_pulse) sample_exec))"
  using shipped_sequences_fault [OF _ bms_inv_init, of acceleration_pulse idle_env sample_exec]
  by (simp add: shipped_def acceleration_pulse_def bms_init_def battery_init_def idle_env_def)

section \<open>The first contact\<close>

text \<open>
  The bench: the daemon with its kernel's backlog, the connection it serves, the frames on their way and the number
  of those it has sent; the client; all connections so far; and how many lines of the served connection are handled.
\<close>

record hil =
  h_bms :: "bms \<times> battery"
  h_client :: client
  h_conns :: "nat list"
  h_backlog :: "nat list"
  h_served :: "nat option"
  h_wire :: "string list"
  h_frames :: nat
  h_handled :: nat

definition messages :: "nat \<Rightarrow> client \<Rightarrow> message list" where
  "messages w c = map snd (filter (\<lambda>x. fst x = w) (sent c))"

text \<open>
  The steps. \<open>serve_client\<close> leaves its send loop only when the server stops: a connection that is served once is
  served for ever, and \<open>accept\<close> is not called again. Without \<open>early\<close> no line is handled before the first frame is sent,
  which the server sends as soon as it serves a connection. \<open>print\<close> is the text of a frame.
\<close>

inductive hil_step ::
  "(string \<Rightarrow> telemetry_frame option) \<Rightarrow> (telemetry_frame \<Rightarrow> string) \<Rightarrow> (string \<Rightarrow> real option) \<Rightarrow> (real \<Rightarrow> string) \<Rightarrow> bool \<Rightarrow> hil \<Rightarrow> hil \<Rightarrow> bool"
  for decode print stod repr early where
  Update: "hil_step decode print stod repr early s (s\<lparr>h_bms := snd (bms_update (h_bms s))\<rparr>)"
| Connect: "phase (h_client s) = Connecting \<Longrightarrow> w \<notin> set (h_conns s) \<Longrightarrow>
    hil_step decode print stod repr early s
      (s\<lparr>h_client := connect_loop decode (h_client s) (Connected w), h_conns := w # h_conns s, h_backlog := h_backlog s @ [w]\<rparr>)"
| Accept: "h_served s = None \<Longrightarrow> h_backlog s = w # ws \<Longrightarrow>
    hil_step decode print stod repr early s (s\<lparr>h_served := Some w, h_backlog := ws\<rparr>)"
| Send: "h_served s = Some w \<Longrightarrow>
    hil_step decode print stod repr early s
      (s\<lparr>h_wire := h_wire s @ [print (telemetry ts (h_bms s))], h_frames := h_frames s + 1\<rparr>)"
| Read: "phase (h_client s) = Reading \<Longrightarrow> writer (h_client s) = h_served s \<Longrightarrow> h_served s = Some w \<Longrightarrow> h_wire s = l # ls \<Longrightarrow>
    hil_step decode print stod repr early s (s\<lparr>h_client := connect_loop decode (h_client s) (Line l), h_wire := ls\<rparr>)"
| Other: "e \<in> {Refused, Broken, ReadError, Wake, Cancelled, Line []} \<Longrightarrow>
    hil_step decode print stod repr early s (s\<lparr>h_client := connect_loop decode (h_client s) e\<rparr>)"
| Operator: "command msg \<in> set load_commands \<Longrightarrow>
    hil_step decode print stod repr early s (s\<lparr>h_client := send_command ok msg (h_client s)\<rparr>)"
| Dropout: "hil_step decode print stod repr early s (s\<lparr>h_client := disconnect (h_client s)\<rparr>)"
| Handle: "early \<or> 0 < h_frames s \<Longrightarrow> h_served s = Some w \<Longrightarrow> h_handled s < length (messages w (h_client s)) \<Longrightarrow>
    handle_command stod (command_line repr (messages w (h_client s) ! h_handled s)) (h_bms s) = Some ms \<Longrightarrow>
    hil_step decode print stod repr early s (s\<lparr>h_bms := ms, h_handled := h_handled s + 1\<rparr>)"

text \<open>A daemon that has run for \<open>k + 1\<close> milliseconds, and an orchestrator that starts.\<close>

definition hil_start :: "nat \<Rightarrow> hil" where
  "hil_start k =
     \<lparr>h_bms = run_updates (Suc k) (bms_init, battery_init), h_client = start client_init, h_conns = [], h_backlog = [],
      h_served = None, h_wire = [], h_frames = 0, h_handled = 0\<rparr>"

definition idle_battery :: battery where
  "idle_battery = battery_init\<lparr>b_v := 44 / 10\<rparr>"

lemma idle_update:
  assumes "b = battery_init \<or> b = idle_battery"
  shows "bms_update (bms_init, b) = (True, bms_init, idle_battery)"
proof -
  have cur: "b_i b = 0" "b_fault b = NONE" "b_vrc b = 0" "b_t b = 25" "b_soc b = 1" "b_block b = False"
    using assms by (auto simp: idle_battery_def battery_init_def)
  obtain f b' where st: "battery_step b = (f, b')" by force
  note eq = battery_step_eq [OF _ st]
  have "b_soc b' = 1" "b_vrc b' = 0" "b_t b' = 25" "b_v b' = 44 / 10" "b_i b' = 0" "b_block b' = False" "b_fault b' = NONE"
    using eq(1-7) cur by (simp_all add: clamp_soc_def t_even_def v_ocv_def constants)
  then have "b' = idle_battery" by (simp add: idle_battery_def battery_init_def)
  moreover have "f = NONE" using eq(8) cur \<open>b' = idle_battery\<close> by (simp add: idle_battery_def battery_init_def constants)
  ultimately show ?thesis
    using st cur by (simp add: bms_update_def bms_init_def warn_def next_state_def IDLE_THRESHOLD_def constants idle_battery_def battery_init_def)
qed

lemma idle_run: "run_updates (Suc k) (bms_init, battery_init) = (bms_init, idle_battery)"
  by (induction k) (simp_all add: idle_update)

definition refused :: "(string \<Rightarrow> telemetry_frame option) \<Rightarrow> string \<Rightarrow> bool" where
  "refused decode l \<longleftrightarrow> l = [] \<or> validate_frame decode l = None"

definition hil_inv :: "(string \<Rightarrow> telemetry_frame option) \<Rightarrow> hil \<Rightarrow> bool" where
  "hil_inv decode s \<longleftrightarrow>
     last_frame (h_client s) = None \<and>
     (\<forall>w. writer (h_client s) = Some w \<longrightarrow> w \<in> set (h_conns s)) \<and>
     set (h_backlog s) \<subseteq> set (h_conns s) \<and> (\<forall>w. h_served s = Some w \<longrightarrow> w \<in> set (h_conns s)) \<and>
     (h_served s = None \<longrightarrow> h_frames s = 0) \<and>
     (h_frames s = 0 \<longrightarrow> h_wire s = [] \<and> h_bms s = (bms_init, idle_battery)) \<and>
     (0 < h_frames s \<longrightarrow> (h_wire s \<noteq> [] \<and> refused decode (hd (h_wire s))) \<or> writer (h_client s) \<noteq> h_served s)"

lemma idle_refused:
  assumes "decode (print (telemetry ts (bms_init, idle_battery))) \<in> {None, Some (telemetry ts (bms_init, idle_battery))}"
  shows "refused decode (print (telemetry ts (bms_init, idle_battery)))"
proof -
  have "V_terminal (telemetry ts (bms_init, idle_battery)) = 44 / 10"
    by (simp add: telemetry_def idle_battery_def decimals_def round_half_even_def)
  then have "\<not> frame_ok (telemetry ts (bms_init, idle_battery))" by (simp add: frame_ok_def)
  then show ?thesis using assms by (auto simp: refused_def validate_frame_def split: option.split)
qed

text \<open>What the events of the client do to its connection and its last frame.\<close>

lemma connect_loop_other:
  assumes "e \<in> {Refused, Broken, ReadError, Wake, Cancelled, Line []}"
  shows "last_frame (connect_loop decode c e) = last_frame c"
    and "writer (connect_loop decode c e) = writer c \<or> writer (connect_loop decode c e) = None"
    and "sent (connect_loop decode c e) = sent c"
  using assms by (cases "running c"; auto simp: connect_loop_def loop_head_def Let_def split: phase.split)+

lemma connect_loop_refused:
  assumes "refused decode l" and "phase c = Reading"
  shows "last_frame (connect_loop decode c (Line l)) = last_frame c" and "writer (connect_loop decode c (Line l)) = None"
  using assms by (auto simp: connect_loop_def loop_head_def refused_def)

lemma connect_loop_connected:
  assumes "phase c = Connecting"
  shows "last_frame (connect_loop decode c (Connected w)) = last_frame c"
    and "writer (connect_loop decode c (Connected w)) = Some w \<or> writer (connect_loop decode c (Connected w)) = None"
    and "sent (connect_loop decode c (Connected w)) = sent c"
  using assms by (auto simp: connect_loop_def loop_head_def Let_def)

lemma send_command_frame:
  "last_frame (send_command ok msg c) = last_frame c" "writer (send_command ok msg c) = writer c"
  "last_frame (disconnect c) = last_frame c" "writer (disconnect c) = writer c" "sent (disconnect c) = sent c"
  by (auto simp: send_command_def disconnect_def close_writer_def split: option.split)

lemma hil_inv_step:
  assumes "hil_step decode print stod repr False s s'" and "hil_inv decode s"
    and "\<And>ts. decode (print (telemetry ts (bms_init, idle_battery))) \<in> {None, Some (telemetry ts (bms_init, idle_battery))}"
  shows "hil_inv decode s'"
  using assms(1)
proof cases
  case Update
  then show ?thesis using assms(2) idle_update by (auto simp: hil_inv_def)
next
  case (Connect w)
  then show ?thesis using assms(2) connect_loop_connected [of "h_client s" decode w] by (auto simp: hil_inv_def)
next
  case (Accept w ws)
  then show ?thesis using assms(2) by (auto simp: hil_inv_def)
next
  case (Send w ts)
  then show ?thesis using assms(2) idle_refused [of decode print ts, OF assms(3)] by (cases "h_wire s") (auto simp: hil_inv_def)
next
  case (Read w l ls)
  then have "0 < h_frames s" "refused decode l" using assms(2) by (auto simp: hil_inv_def)
  then show ?thesis using assms(2) Read connect_loop_refused [of decode l "h_client s"] by (auto simp: hil_inv_def)
next
  case (Other e)
  then show ?thesis using assms(2) connect_loop_other [of e decode "h_client s"] by (auto simp: hil_inv_def)
next
  case (Operator msg ok)
  then show ?thesis using assms(2) send_command_frame by (auto simp: hil_inv_def)
next
  case Dropout
  then show ?thesis using assms(2) send_command_frame by (auto simp: hil_inv_def)
next
  case (Handle w ms)
  then show ?thesis using assms(2) by (auto simp: hil_inv_def)
qed

lemma hil_inv_start: "hil_inv decode (hil_start k)"
  by (simp add: hil_inv_def hil_start_def idle_run start_def loop_head_def client_init_def del: run_updates_simps)

lemma hil_reachable_inv:
  assumes "(hil_step decode print stod repr False)\<^sup>*\<^sup>* (hil_start k) s"
    and "\<And>ts. decode (print (telemetry ts (bms_init, idle_battery))) \<in> {None, Some (telemetry ts (bms_init, idle_battery))}"
  shows "hil_inv decode s"
  using assms(1) by (induction rule: rtranclp_induct) (auto intro: hil_inv_start hil_inv_step [OF _ _ assms(2)])

text \<open>Once the client has lost the connection that is served, nothing it sends is handled.\<close>

definition cut_off :: "nat \<Rightarrow> hil \<Rightarrow> bool" where
  "cut_off w s \<longleftrightarrow> h_served s = Some w \<and> writer (h_client s) \<noteq> Some w \<and> w \<in> set (h_conns s)"

lemma cut_off_step:
  assumes "hil_step decode print stod repr early s s'" and "cut_off w s"
  shows "cut_off w s' \<and> messages w (h_client s') = messages w (h_client s)"
  using assms(1)
proof cases
  case (Connect w')
  then show ?thesis using assms(2) connect_loop_connected [of "h_client s" decode w'] by (auto simp: cut_off_def messages_def)
next
  case (Other e)
  then show ?thesis using assms(2) connect_loop_other [of e decode "h_client s"] by (auto simp: cut_off_def messages_def)
next
  case (Operator msg ok)
  then show ?thesis using assms(2) by (auto simp: cut_off_def messages_def send_command_def split: option.split)
next
  case Dropout
  then show ?thesis using assms(2) send_command_frame by (auto simp: cut_off_def messages_def)
qed (use assms(2) in \<open>auto simp: cut_off_def\<close>)

lemma cut_off_steps:
  assumes "(hil_step decode print stod repr early)\<^sup>*\<^sup>* s s'" and "cut_off w s"
  shows "cut_off w s' \<and> messages w (h_client s') = messages w (h_client s)"
  using assms by (induction rule: rtranclp_induct) (use cut_off_step in \<open>fastforce+\<close>)

text \<open>
  C19. A daemon that has run for a millisecond or more and an orchestrator that starts never come together: a full cell at rest has 4.4 V,
  the frame model admits at most 4.2 V, so the client gives its connection up at the first frame, and the server,
  whose send loop does not notice, never accepts another. Unless a command is handled before that frame is
  sent, no frame is ever accepted, whatever the network, the operator and the injector do; the status endpoint fails; and once the
  client has lost the served connection, no further command reaches the daemon.
\<close>

theorem first_contact_fails:
  assumes "(hil_step decode print stod repr False)\<^sup>*\<^sup>* (hil_start k) s"
    and "\<And>ts. decode (print (telemetry ts (bms_init, idle_battery))) \<in> {None, Some (telemetry ts (bms_init, idle_battery))}"
  shows "last_frame (h_client s) = None \<and>
    (the_client app = h_client s \<longrightarrow> get_status app = Inl (HTTPException 503 NoTelemetry)) \<and>
    (\<forall>w s'. h_served s = Some w \<and> writer (h_client s) \<noteq> Some w \<and> (hil_step decode print stod repr False)\<^sup>*\<^sup>* s s' \<longrightarrow>
       messages w (h_client s') = messages w (h_client s))"
proof -
  have inv: "hil_inv decode s" by (rule hil_reachable_inv [OF assms])
  then have "cut_off w s" if "h_served s = Some w" "writer (h_client s) \<noteq> Some w" for w
    using that by (simp add: cut_off_def hil_inv_def)
  then have "messages w (h_client s') = messages w (h_client s)"
    if "h_served s = Some w" "writer (h_client s) \<noteq> Some w" "(hil_step decode print stod repr False)\<^sup>*\<^sup>* s s'" for w s'
    using cut_off_steps [OF that(3)] that(1,2) by blast
  moreover have "last_frame (h_client s) = None" using inv by (simp add: hil_inv_def)
  moreover from this have "the_client app = h_client s \<longrightarrow> get_status app = Inl (HTTPException 503 NoTelemetry)"
    by (simp add: get_status_def)
  ultimately show ?thesis by blast
qed

text \<open>The run: connect, accept, send, read. The decoder accepts the text and returns the frame of a full cell at rest.\<close>

definition rest_frame :: telemetry_frame where
  "rest_frame = telemetry 7 (bms_init, idle_battery)"

theorem first_contact_fails_witness:
  "\<exists>s. (hil_step (\<lambda>l. if l = ''frame'' then Some rest_frame else None) (\<lambda>f. if f = rest_frame then ''frame'' else ''other'') toy_stod (\<lambda>_. []) False)\<^sup>*\<^sup>*
     (hil_start 0) s \<and> h_frames s = 1 \<and> h_wire s = [] \<and> last_frame (h_client s) = None"
proof -
  let ?d = "\<lambda>l. if l = ''frame'' then Some rest_frame else None" and ?p = "\<lambda>f. if f = rest_frame then ''frame'' else ''other''"
  let ?step = "hil_step ?d ?p toy_stod (\<lambda>_. []) False"
  let ?s0 = "hil_start 0"
  let ?s1 = "?s0\<lparr>h_client := connect_loop ?d (h_client ?s0) (Connected 3), h_conns := 3 # h_conns ?s0, h_backlog := h_backlog ?s0 @ [3]\<rparr>"
  let ?s2 = "?s1\<lparr>h_served := Some 3, h_backlog := []\<rparr>"
  let ?s3 = "?s2\<lparr>h_wire := h_wire ?s2 @ [?p (telemetry 7 (h_bms ?s2))], h_frames := h_frames ?s2 + 1\<rparr>"
  let ?s4 = "?s3\<lparr>h_client := connect_loop ?d (h_client ?s3) (Line ''frame''), h_wire := []\<rparr>"
  have c: "phase (h_client ?s0) = Connecting" "h_conns ?s0 = []" "h_backlog ?s0 = []" "h_served ?s0 = None" "h_wire ?s0 = []"
    "running (h_client ?s0)" "h_bms ?s0 = (bms_init, idle_battery)" "h_frames ?s0 = 0"
    using idle_run [of 0] by (simp_all add: hil_start_def start_def loop_head_def client_init_def)
  have "?step ?s0 ?s1" by (rule hil_step.Connect) (use c in simp_all)
  moreover have "?step ?s1 ?s2" by (rule hil_step.Accept) (use c in simp_all)
  moreover have "?step ?s2 ?s3" by (rule hil_step.Send [where w = 3]) simp
  moreover have "?step ?s3 ?s4"
    by (rule hil_step.Read [where w = 3]) (use c in \<open>simp_all add: connect_loop_def rest_frame_def\<close>)
  ultimately have run: "?step\<^sup>*\<^sup>* ?s0 ?s4" by (meson converse_rtranclp_into_rtranclp rtranclp.rtrancl_refl)
  have "?d (?p (telemetry ts (bms_init, idle_battery))) \<in> {None, Some (telemetry ts (bms_init, idle_battery))}" for ts by auto
  from first_contact_fails [OF run this] have "last_frame (h_client ?s4) = None" by blast
  moreover have "h_frames ?s4 = 1" "h_wire ?s4 = []" using c by simp_all
  ultimately show ?thesis using run by blast
qed

end
