(* ===== verification/Ev_Timeline.thy ===== *)
theory Ev_Timeline
  imports Json
begin

text \<open>
  The plot of a fault from the orchestrator's log: \<open>ev_battery_hil/orchestrator/tools/plot_fault_timeline.py\<close>, with the format
  of the lines that the orchestrator writes (\<open>_setup_logging\<close> of \<open>orchestrator/app/main.py\<close>). A figure is the list of the
  calls that draw it. Reading of a number from a text (\<open>float\<close>) is a parameter.
\<close>

section \<open>The log file\<close>

record log_record =
  lr_time :: string
  lr_level :: string
  lr_name :: string
  lr_msg :: string

definition quoted :: "string \<Rightarrow> string" where
  "quoted s = quote # s @ [quote]"

text \<open>The format string puts the message between quotation marks as it is, without escapes.\<close>

definition format_record :: "log_record \<Rightarrow> string" where
  "format_record r =
     ''{'' @ quoted ''time'' @ '':'' @ quoted (lr_time r) @ '','' @ quoted ''level'' @ '':'' @ quoted (lr_level r) @ '','' @
     quoted ''name'' @ '':'' @ quoted (lr_name r) @ '','' @ quoted ''msg'' @ '':'' @ quoted (lr_msg r) @ ''}''"

definition write_log :: "log_record list \<Rightarrow> string" where
  "write_log records = concat (map (\<lambda>r. format_record r @ [CHR 0x0A]) records)"

text \<open>The lines of a text file: line feed, carriage return and both together end a line.\<close>

definition push :: "char \<Rightarrow> string list \<Rightarrow> string list" where
  "push c ls = (case ls of [] \<Rightarrow> [[c]] | l # ls' \<Rightarrow> (c # l) # ls')"

fun file_lines :: "string \<Rightarrow> string list" where
  "file_lines [] = []"
| "file_lines (c # s) =
     (if c = CHR 0x0A then [] # file_lines s
      else if c = CHR 0x0D then (if s \<noteq> [] \<and> hd s = CHR 0x0A then file_lines s else [] # file_lines s)
      else push c (file_lines s))"

definition load_events :: "string \<Rightarrow> json list" where
  "load_events file =
     List.map_filter (\<lambda>line. let s = py_strip line in if s = [] then None else loads s) (file_lines file)"

section \<open>The series\<close>

record timeline =
  times :: "json list"
  temps :: "json list"
  currents :: "json list"
  socs :: "json list"
  fault_time :: "json option"
  warn_time :: "json option"

definition truthy :: "json \<Rightarrow> bool" where
  "truthy v =
     (case v of JNull \<Rightarrow> False | JBool b \<Rightarrow> b | JNum x \<Rightarrow> x \<noteq> 0 | JNaN \<Rightarrow> True | JInfinity _ \<Rightarrow> True
      | JStr s \<Rightarrow> s \<noteq> [] | JList vs \<Rightarrow> vs \<noteq> [] | JObj obj \<Rightarrow> obj \<noteq> [])"

definition get :: "string \<Rightarrow> json \<Rightarrow> (string \<times> json) list \<Rightarrow> json" where
  "get key dflt obj = (case field_of key obj of Some v \<Rightarrow> v | None \<Rightarrow> dflt)"

definition py_float :: "(string \<Rightarrow> json option) \<Rightarrow> json \<Rightarrow> json option" where
  "py_float float_text v =
     (case v of JNum x \<Rightarrow> Some (JNum x) | JNaN \<Rightarrow> Some JNaN | JInfinity neg \<Rightarrow> Some (JInfinity neg)
      | JBool b \<Rightarrow> Some (JNum (if b then 1 else 0)) | JStr s \<Rightarrow> float_text s | _ \<Rightarrow> None)"

text \<open>\<open>v >= x\<close>; \<open>None\<close> is the \<open>TypeError\<close> of a comparison with anything but a number.\<close>

definition at_least :: "real \<Rightarrow> json \<Rightarrow> bool option" where
  "at_least x v =
     (case v of JNum y \<Rightarrow> Some (x \<le> y) | JBool b \<Rightarrow> Some (x \<le> (if b then 1 else 0)) | JNaN \<Rightarrow> Some False
      | JInfinity neg \<Rightarrow> Some (\<not> neg) | _ \<Rightarrow> None)"

definition empty_timeline :: timeline where
  "empty_timeline = \<lparr>times = [], temps = [], currents = [], socs = [], fault_time = None, warn_time = None\<rparr>"

definition add_snapshot :: "json \<Rightarrow> (string \<times> json) list \<Rightarrow> timeline \<Rightarrow> timeline option" where
  "add_snapshot t tel tml =
     (let tml = tml\<lparr>times := times tml @ [t], temps := temps tml @ [get ''T_cell'' (JNum 0) tel],
                    currents := currents tml @ [get ''I_load'' (JNum 0) tel], socs := socs tml @ [get ''SoC'' (JNum 0) tel]\<rparr>;
          tml = (if field_of ''state'' tel = Some (JStr ''FAULT'') \<and> fault_time tml = None then tml\<lparr>fault_time := Some t\<rparr> else tml)
      in case at_least 60 (get ''T_cell'' (JNum 0) tel) of
           None \<Rightarrow> None
         | Some hot \<Rightarrow> Some (if hot \<and> warn_time tml = None then tml\<lparr>warn_time := Some t\<rparr> else tml))"

text \<open>One event; \<open>None\<close> is an exception, which ends the tool.\<close>

definition scan_event :: "(string \<Rightarrow> json option) \<Rightarrow> json \<Rightarrow> timeline \<Rightarrow> timeline option" where
  "scan_event float_text evt tml =
     (case evt of
        JObj obj \<Rightarrow>
          let tel = get ''telemetry_snapshot'' JNull obj
          in if \<not> truthy tel then Some tml
             else (case (tel, py_float float_text (get ''elapsed_s'' (JNum (real (length (times tml)))) obj)) of
                     (JObj snap, Some t) \<Rightarrow> add_snapshot t snap tml
                   | _ \<Rightarrow> None)
      | _ \<Rightarrow> None)"

fun scan_events :: "(string \<Rightarrow> json option) \<Rightarrow> json list \<Rightarrow> timeline \<Rightarrow> timeline option" where
  "scan_events float_text [] tml = Some tml"
| "scan_events float_text (e # es) tml =
     (case scan_event float_text e tml of None \<Rightarrow> None | Some tml' \<Rightarrow> scan_events float_text es tml')"

section \<open>The figure\<close>

text \<open>\<open>f"{t:.0f}"\<close>\<close>

definition fixed0 :: "json \<Rightarrow> string" where
  "fixed0 v =
     (case v of JNum x \<Rightarrow> (if x < 0 then ''-'' else []) @ show_nat (nat \<bar>round_half_even x\<bar>)
      | JInfinity neg \<Rightarrow> (if neg then ''-inf'' else ''inf'') | _ \<Rightarrow> ''nan'')"

datatype draw =
    Line nat "json list" "json list" string "string option"
  | HLine nat int string string
  | VLine nat json string "string option"
  | YLabel nat string | XLabel nat string | Legend nat | SaveFig string

definition degree :: string where "degree = [CHR 0xB0]"

definition vline :: "nat \<Rightarrow> string \<Rightarrow> (json \<Rightarrow> string option) \<Rightarrow> json option \<Rightarrow> draw list" where
  "vline axis colour label tm = (case tm of None \<Rightarrow> [] | Some t \<Rightarrow> [VLine axis t colour (label t)])"

definition figure :: "string \<Rightarrow> timeline \<Rightarrow> draw list" where
  "figure out tml =
     [Line 0 (times tml) (temps tml) ''r-'' (Some (''T_cell ('' @ degree @ ''C)'')),
      HLine 0 60 ''orange'' (''WARN 60'' @ degree @ ''C''), HLine 0 80 ''darkred'' (''FAULT 80'' @ degree @ ''C'')] @
     vline 0 ''orange'' (\<lambda>_. None) (warn_time tml) @ vline 0 ''darkred'' (\<lambda>_. None) (fault_time tml) @
     [YLabel 0 (''Temperature ('' @ degree @ ''C)''), Legend 0,
      Line 1 (times tml) (currents tml) ''b-'' None, YLabel 1 ''I_load (A)'',
      Line 2 (times tml) (socs tml) ''g-'' None] @
     vline 2 ''darkred'' (\<lambda>t. Some (''FAULT at '' @ fixed0 t @ ''s'')) (fault_time tml) @
     (if fault_time tml \<noteq> None then [Legend 2] else []) @
     [YLabel 2 ''SoC'', XLabel 2 ''Elapsed (s)'', SaveFig out]"

datatype plot_error = NoFile | NoTelemetryData | PyError

definition plot :: "(string \<Rightarrow> json option) \<Rightarrow> (string \<rightharpoonup> string) \<Rightarrow> string \<Rightarrow> string \<Rightarrow> plot_error + draw list" where
  "plot float_text files log_path out =
     (case files log_path of
        None \<Rightarrow> Inl NoFile
      | Some file \<Rightarrow>
          (case scan_events float_text (load_events file) empty_timeline of
             None \<Rightarrow> Inl PyError
           | Some tml \<Rightarrow> if times tml = [] then Inl NoTelemetryData else Inr (figure out tml)))"

text \<open>The command line, with the defaults of its two options.\<close>

definition plot_main ::
  "(string \<Rightarrow> json option) \<Rightarrow> (string \<rightharpoonup> string) \<Rightarrow> string option \<Rightarrow> string option \<Rightarrow> plot_error + draw list" where
  "plot_main float_text files log_arg out_arg =
     plot float_text files (case log_arg of None \<Rightarrow> ''orchestrator.log'' | Some p \<Rightarrow> p)
       (case out_arg of None \<Rightarrow> ''docs/images/thermal-runaway-timeline.png'' | Some p \<Rightarrow> p)"

section \<open>What is drawn\<close>

text \<open>The telemetry of an event, when it has some.\<close>

definition snapshot :: "json \<Rightarrow> (string \<times> json) list option" where
  "snapshot evt =
     (case evt of
        JObj obj \<Rightarrow> (case get ''telemetry_snapshot'' JNull obj of JObj snap \<Rightarrow> if snap = [] then None else Some snap | _ \<Rightarrow> None)
      | _ \<Rightarrow> None)"

definition snapshots :: "json list \<Rightarrow> (string \<times> json) list list" where
  "snapshots es = List.map_filter snapshot es"

text \<open>The first time whose snapshot satisfies a predicate.\<close>

definition first_time :: "((string \<times> json) list \<Rightarrow> bool) \<Rightarrow> json list \<Rightarrow> (string \<times> json) list list \<Rightarrow> json option" where
  "first_time P ts tels = map_option fst (find (\<lambda>(t, s). P s) (zip ts tels))"

definition scan_inv :: "(string \<times> json) list list \<Rightarrow> timeline \<Rightarrow> bool" where
  "scan_inv snaps tml \<longleftrightarrow>
     length (times tml) = length snaps \<and>
     temps tml = map (get ''T_cell'' (JNum 0)) snaps \<and>
     currents tml = map (get ''I_load'' (JNum 0)) snaps \<and>
     socs tml = map (get ''SoC'' (JNum 0)) snaps \<and>
     fault_time tml = first_time (\<lambda>s. field_of ''state'' s = Some (JStr ''FAULT'')) (times tml) snaps \<and>
     warn_time tml = first_time (\<lambda>s. at_least 60 (get ''T_cell'' (JNum 0) s) = Some True) (times tml) snaps"

lemma find_append: "find P (xs @ ys) = (case find P xs of Some x \<Rightarrow> Some x | None \<Rightarrow> find P ys)"
  by (induction xs) auto

lemma first_time_snoc:
  "length ts = length tels \<Longrightarrow> first_time P (ts @ [t]) (tels @ [s]) =
     (case first_time P ts tels of Some x \<Rightarrow> Some x | None \<Rightarrow> if P s then Some t else None)"
  by (simp add: first_time_def find_append split: option.split)

lemma add_snapshot_inv:
  "scan_inv snaps tml \<Longrightarrow> add_snapshot t snap tml = Some tml' \<Longrightarrow> scan_inv (snaps @ [snap]) tml'"
  by (auto simp: scan_inv_def add_snapshot_def first_time_snoc Let_def split: option.splits if_splits)

lemma scan_event_inv:
  "scan_inv snaps tml \<Longrightarrow> scan_event ft e tml = Some tml' \<Longrightarrow>
     scan_inv (snaps @ (case snapshot e of Some snap \<Rightarrow> [snap] | None \<Rightarrow> [])) tml'"
  using add_snapshot_inv [of snaps tml]
  by (auto simp: scan_event_def snapshot_def truthy_def Let_def split: json.splits option.splits if_splits)

lemma scan_events_inv:
  "scan_inv snaps tml \<Longrightarrow> scan_events ft es tml = Some tml' \<Longrightarrow> scan_inv (snaps @ snapshots es) tml'"
proof (induction es arbitrary: snaps tml)
  case (Cons e es)
  then obtain tml1 where "scan_event ft e tml = Some tml1" "scan_events ft es tml1 = Some tml'"
    by (auto split: option.splits)
  with Cons.IH scan_event_inv [OF Cons.prems(1)] show ?case
    by (fastforce simp: snapshots_def map_filter_def split: option.splits)
qed (simp add: snapshots_def map_filter_def)

text \<open>
  A figure shows one point for each telemetry snapshot of the log, in order, with its temperature, current and charge
  (0 when missing); the fault marker stands at the first snapshot in state \<open>FAULT\<close> and the warning marker at the
  first of 60 degrees or more, and each is missing when there is none; the figure is saved last, where it was asked for.
  There is a figure only for a log with telemetry.
\<close>

theorem plot_spec:
  assumes "plot float_text files log_path out = Inr calls"
  shows "\<exists>content tml. files log_path = Some content \<and> calls = figure out tml \<and> snapshots (load_events content) \<noteq> [] \<and>
    scan_inv (snapshots (load_events content)) tml \<and> last calls = SaveFig out"
proof -
  from assms obtain content tml where f: "files log_path = Some content" "scan_events float_text (load_events content) empty_timeline = Some tml"
    and t: "times tml \<noteq> []" "calls = figure out tml"
    by (auto simp: plot_def split: option.splits if_splits)
  have "scan_inv [] empty_timeline" by (simp add: scan_inv_def empty_timeline_def first_time_def)
  from scan_events_inv [OF this f(2)] have "scan_inv (snapshots (load_events content)) tml" by simp
  with f(1) t show ?thesis by (auto simp: scan_inv_def figure_def)
qed

section \<open>The log of the orchestrator\<close>

text \<open>The parts of a record that \<open>logging\<close> fills in are plain; a message is any text without quotation marks.\<close>

definition ordinary :: "log_record \<Rightarrow> bool" where
  "ordinary r \<longleftrightarrow> plain (lr_time r) \<and> plain (lr_level r) \<and> plain (lr_name r) \<and> quote \<notin> set (lr_msg r)"

definition header :: "log_record \<Rightarrow> string" where
  "header r =
     CHR ''{'' # quoted ''time'' @ '':'' @ quoted (lr_time r) @ '','' @ quoted ''level'' @ '':'' @ quoted (lr_level r) @ '','' @
     quoted ''name'' @ '':'' @ quoted (lr_name r) @ '','' @ quoted ''msg'' @ '':'' @ [quote]"

lemma format_header: "format_record r = header r @ lr_msg r @ [quote, CHR ''}'']"
  by (simp add: format_record_def header_def quoted_def)

abbreviation line_end :: "char \<Rightarrow> bool" where "line_end c \<equiv> c = CHR 0x0A \<or> c = CHR 0x0D"

definition one_line :: "string \<Rightarrow> bool" where
  "one_line s \<longleftrightarrow> list_all (\<lambda>c. \<not> line_end c) s"

lemma push_append: "ls \<noteq> [] \<Longrightarrow> push c (ls @ ms) = push c ls @ ms"
  by (cases ls) (simp_all add: push_def)

lemma push_Cons [simp]: "push c (l # ls) = (c # l) # ls"
  by (simp add: push_def)

lemma file_lines_ne: "file_lines (s @ [CHR 0x0A]) \<noteq> []"
  by (induction s) (auto simp: push_def split: list.split)

lemma file_lines_append: "file_lines (s @ CHR 0x0A # t) = file_lines (s @ [CHR 0x0A]) @ file_lines t"
proof (induction s)
  case (Cons c s)
  have "hd (s @ CHR 0x0A # t) = hd (s @ [CHR 0x0A])" by (cases s) simp_all
  with Cons show ?case using push_append [OF file_lines_ne] by simp
qed simp

lemma file_lines_prefix:
  "one_line h \<Longrightarrow> file_lines t = l # ls \<Longrightarrow> file_lines (h @ t) = (h @ l) # ls"
  by (induction h) (auto simp: one_line_def)

text \<open>A message with line breaks is spread over lines; only the last one has a quotation mark.\<close>

definition msg_lines :: "string list \<Rightarrow> bool" where
  "msg_lines ls \<longleftrightarrow> (\<exists>init m. ls = init @ [m @ [quote, CHR ''}'']] \<and> (\<forall>l\<in>set (m # init). quote \<notin> set l))"

lemma msg_lines_push: "msg_lines ls \<Longrightarrow> c \<noteq> quote \<Longrightarrow> msg_lines (push c ls)"
proof -
  assume "msg_lines ls" and c: "c \<noteq> quote"
  then obtain init m where ls: "ls = init @ [m @ [quote, CHR ''}'']]" "\<forall>l\<in>set (m # init). quote \<notin> set l"
    by (auto simp: msg_lines_def)
  show ?thesis
  proof (cases init)
    case Nil
    with ls c have "push c ls = [] @ [(c # m) @ [quote, CHR ''}'']]" by simp
    with ls(2) Nil c show ?thesis unfolding msg_lines_def by (intro exI [of _ "[]"] exI [of _ "c # m"]) simp
  next
    case (Cons l init')
    with ls c have "push c ls = ((c # l) # init') @ [m @ [quote, CHR ''}'']]" by simp
    moreover have "\<forall>l'\<in>set (m # (c # l) # init'). quote \<notin> set l'" using ls(2) Cons c by auto
    ultimately show ?thesis unfolding msg_lines_def by blast
  qed
qed

lemma msg_lines_Cons: "msg_lines ls \<Longrightarrow> msg_lines ([] # ls)"
proof -
  assume "msg_lines ls"
  then obtain init m where ls: "[] # ls = ([] # init) @ [m @ [quote, CHR ''}'']]" "\<forall>l\<in>set (m # [] # init). quote \<notin> set l"
    by (auto simp: msg_lines_def)
  then show ?thesis unfolding msg_lines_def by blast
qed

lemma file_lines_msg: "quote \<notin> set msg \<Longrightarrow> msg_lines (file_lines (msg @ [quote, CHR ''}'', CHR 0x0A]))"
proof (induction msg)
  case Nil
  show ?case unfolding msg_lines_def by (intro exI [of _ "[]"]) simp
next
  case (Cons c msg)
  then show ?case by (auto intro: msg_lines_push msg_lines_Cons)
qed

lemma py_strip_fixed: "h \<noteq> [] \<Longrightarrow> \<not> py_space (hd h) \<Longrightarrow> \<not> py_space (last h) \<Longrightarrow> py_strip (h @ s) = h @ rev (dropWhile py_space (rev s))"
proof -
  assume h: "h \<noteq> []" "\<not> py_space (hd h)" "\<not> py_space (last h)"
  then have "dropWhile py_space (h @ s) = h @ s" by (cases h) simp_all
  moreover have "dropWhile py_space (rev h) = rev h" using h by (cases "rev h") (auto simp: hd_rev [symmetric])
  ultimately show ?thesis by (simp add: py_strip_def dropWhile_append3 dropWhile_append)
qed

lemma py_strip_filter: "length (filter P (py_strip s)) \<le> length (filter P s)"
proof -
  have "length (filter P (dropWhile py_space u)) \<le> length (filter P u)" for u
    by (induction u) auto
  from this [of "rev (dropWhile py_space s)"] this [of s] show ?thesis
    by (simp add: py_strip_def rev_filter [symmetric])
qed

text \<open>An event from which nothing is plotted: it is skipped or ends the tool.\<close>

definition harmless :: "json \<Rightarrow> bool" where
  "harmless evt \<longleftrightarrow> (\<forall>obj. evt = JObj obj \<longrightarrow> field_of ''telemetry_snapshot'' obj = None)"

abbreviation line_event :: "string \<Rightarrow> json option" where
  "line_event line \<equiv> (let s = py_strip line in if s = [] then None else loads s)"

lemma few_quotes:
  assumes "length (filter (\<lambda>c. c = quote) line) \<le> 1" and "line_event line = Some v"
  shows "harmless v"
proof -
  have l: "loads (py_strip line) = Some v" using assms(2) by (simp add: Let_def split: if_splits)
  show ?thesis unfolding harmless_def
  proof (intro allI impI)
    fix obj
    assume v: "v = JObj obj"
    have "obj = []"
    proof (rule ccontr)
      assume "obj \<noteq> []"
      from loads_object_quotes [OF l [unfolded v] this] py_strip_filter [of "\<lambda>c. c = quote" line] assms(1)
      show False by linarith
    qed
    then show "field_of ''telemetry_snapshot'' obj = None" by (simp add: field_of_def)
  qed
qed

lemma header_ends: "header r \<noteq> []" "\<not> py_space (hd (header r))" "\<not> py_space (last (header r))"
  by (simp_all add: header_def py_space_def)

text \<open>The reader on the start of a line.\<close>

lemma scan_member:
  "plain key \<Longrightarrow> plain val \<Longrightarrow>
     scan_pairs (Suc (Suc n)) (quote # key @ quote # CHR '':'' # quote # val @ quote # CHR '','' # quote # r) =
     map_option (apfst (Cons (key, JStr val))) (scan_pairs (Suc n) (quote # r))"
  by (subst scan_pairs.simps) (simp add: scan_plain skip_ws_def is_ws_def del: scan_pairs.simps)

lemma scan_three:
  assumes "plain k1" "plain v1" "plain k2" "plain v2" "plain k3" "plain v3"
  shows "scan_once (Suc (Suc (Suc (Suc (Suc (Suc n))))))
      (CHR ''{'' # quote # k1 @ quote # CHR '':'' # quote # v1 @ quote # CHR '','' # quote #
         k2 @ quote # CHR '':'' # quote # v2 @ quote # CHR '','' # quote #
         k3 @ quote # CHR '':'' # quote # v3 @ quote # CHR '','' # quote # r) =
    map_option (apfst (\<lambda>kvs. JObj ([(k1, JStr v1), (k2, JStr v2), (k3, JStr v3)] @ kvs)))
      (scan_pairs (Suc (Suc n)) (quote # r))"
proof -
  have open_brace: "scan_once (Suc m) (CHR ''{'' # quote # t) = map_option (apfst JObj) (scan_pairs m (quote # t))" for m t
    by (simp add: skip_ws_def is_ws_def)
  show ?thesis
    unfolding open_brace scan_member [OF assms(1,2)] scan_member [OF assms(3,4)] scan_member [OF assms(5,6)]
    by (simp add: option.map_comp comp_def apfst_def map_prod_def split_def)
qed

lemma scan_header:
  assumes "ordinary r"
  shows "scan_once (Suc (Suc (Suc (Suc (Suc (Suc n)))))) (header r @ s) =
    map_option (apfst (\<lambda>kvs. JObj ([(''time'', JStr (lr_time r)), (''level'', JStr (lr_level r)), (''name'', JStr (lr_name r))] @ kvs)))
      (scan_pairs (Suc (Suc n)) (quote # ''msg'' @ quote # CHR '':'' # quote # s))"
proof -
  have plain: "plain ''time''" "plain ''level''" "plain ''name''" "plain (lr_time r)" "plain (lr_level r)" "plain (lr_name r)"
    using assms by (simp_all add: ordinary_def plain_def)
  have h: "header r @ s = CHR ''{'' # quote # ''time'' @ quote # CHR '':'' # quote # lr_time r @ quote # CHR '','' # quote #
      ''level'' @ quote # CHR '':'' # quote # lr_level r @ quote # CHR '','' # quote #
      ''name'' @ quote # CHR '':'' # quote # lr_name r @ quote # CHR '','' # quote # ''msg'' @ quote # CHR '':'' # quote # s"
    by (simp add: header_def quoted_def)
  show ?thesis
    unfolding h by (rule scan_three [OF plain(1) plain(4) plain(2) plain(5) plain(3) plain(6)])
qed

lemma scan_msg:
  "scan_pairs (Suc (Suc n)) (quote # ''msg'' @ quote # CHR '':'' # quote # s) =
     (case scan_string s of
        None \<Rightarrow> None
      | Some (x, t) \<Rightarrow>
          (case skip_ws t of
             [] \<Rightarrow> None
           | d # u \<Rightarrow>
               if d = CHR ''}'' then Some ([(''msg'', JStr x)], u)
               else if d = CHR '','' then map_option (apfst (Cons (''msg'', JStr x))) (scan_pairs (Suc n) (skip_ws u))
               else None))"
proof -
  have "scan_string (''msg'' @ quote # CHR '':'' # quote # s) = Some (''msg'', CHR '':'' # quote # s)"
    by (rule scan_plain) (simp add: plain_def)
  then show ?thesis
    by (subst scan_pairs.simps) (simp add: skip_ws_def is_ws_def del: scan_pairs.simps scan_string.simps split: option.split)
qed

lemma loads_fuel:
  assumes "skip_ws s = s"
  shows "loads s = (case scan_once (Suc (Suc (Suc (Suc (Suc (Suc (2 * length s))))))) s of
     None \<Rightarrow> None | Some (v, r) \<Rightarrow> if skip_ws r = [] then Some v else None)"
  using scan_fuel [of s "2 * length s + 2"] scan_fuel [of s "Suc (Suc (Suc (Suc (Suc (Suc (2 * length s))))))"] assms
  by (simp add: loads_def Let_def del: scan_once.simps)

lemma skip_ws_header: "skip_ws (header r @ s) = header r @ s"
  by (simp add: header_def skip_ws_def is_ws_def)

text \<open>A line that holds its whole message is an object with four members, or no JSON at all.\<close>

definition line_object :: "log_record \<Rightarrow> string \<Rightarrow> json" where
  "line_object r msg = JObj [(''time'', JStr (lr_time r)), (''level'', JStr (lr_level r)), (''name'', JStr (lr_name r)), (''msg'', JStr msg)]"

lemma loads_header:
  assumes "ordinary r"
  shows "scan_string s = None \<Longrightarrow> loads (header r @ s) = None"
    and "scan_string s = Some (x, ''}'') \<Longrightarrow> loads (header r @ s) = Some (line_object r x)"
  unfolding loads_fuel [OF skip_ws_header] scan_header [OF assms] scan_msg
  by (simp_all add: skip_ws_def is_ws_def line_object_def)

text \<open>The start of a message with a line break: its quotation mark is never closed.\<close>

lemma line_start:
  assumes "ordinary r" and "quote \<notin> set f"
  shows "line_event (header r @ f) = None"
proof -
  define f' where "f' = rev (dropWhile py_space (rev f))"
  have "quote \<notin> set f'" using assms(2) by (auto simp: f'_def dest: set_dropWhileD)
  then have "scan_string f' = None" using scan_string_quote by (cases "scan_string f'") auto
  moreover have "py_strip (header r @ f) = header r @ f'"
    unfolding f'_def by (rule py_strip_fixed [OF header_ends])
  ultimately show ?thesis by (simp add: Let_def loads_header(1) [OF assms(1)])
qed

lemma line_whole:
  assumes "ordinary r" and "quote \<notin> set m"
  shows "line_event (header r @ m @ [quote, CHR ''}'']) = map_option (line_object r \<circ> fst) (scan_string (m @ [quote, CHR ''}'']))"
proof -
  have "py_strip ((header r @ m @ [quote, CHR ''}'']) @ []) = (header r @ m @ [quote, CHR ''}'']) @ rev (dropWhile py_space (rev []))"
    by (rule py_strip_fixed) (use header_ends [of r] in \<open>simp_all add: hd_append py_space_def [of "CHR ''}''"]\<close>)
  then have strip: "py_strip (header r @ m @ [quote, CHR ''}'']) = header r @ m @ [quote, CHR ''}'']" by simp
  show ?thesis
  proof (cases "scan_string (m @ [quote, CHR ''}''])")
    case None
    then show ?thesis by (simp add: Let_def strip loads_header(1) [OF assms(1)])
  next
    case (Some p)
    obtain x t where p: "p = (x, t)" by (cases p)
    with Some have "t = ''}''" using scan_string_last [OF assms(2)] by simp
    with Some p show ?thesis by (simp add: Let_def strip loads_header(2) [OF assms(1)])
  qed
qed

lemma line_object_harmless: "harmless (line_object r x)"
  by (simp add: harmless_def line_object_def field_of_def)

text \<open>The lines of one record.\<close>

lemma plain_lines: "plain s \<Longrightarrow> one_line s"
  by (induction s) (auto simp: plain_def one_line_def)

lemma header_lines: "ordinary r \<Longrightarrow> one_line (header r)"
proof -
  assume "ordinary r"
  then have "one_line (lr_time r)" "one_line (lr_level r)" "one_line (lr_name r)"
    by (simp_all add: plain_lines ordinary_def)
  then show ?thesis by (simp add: header_def quoted_def one_line_def)
qed

lemma record_lines_harmless:
  assumes r: "ordinary r" and l: "l \<in> set (file_lines (format_record r @ [CHR 0x0A]))" and v: "line_event l = Some v"
  shows "harmless v"
proof -
  have q: "quote \<notin> set (lr_msg r)" using r by (simp add: ordinary_def)
  from file_lines_msg [OF q] obtain init m where
    ls: "file_lines (lr_msg r @ [quote, CHR ''}'', CHR 0x0A]) = init @ [m @ [quote, CHR ''}'']]"
    and nq: "\<forall>l\<in>set (m # init). quote \<notin> set l"
    unfolding msg_lines_def by blast
  show ?thesis
  proof (cases init)
    case Nil
    then have "l = header r @ m @ [quote, CHR ''}'']"
      using l file_lines_prefix [OF header_lines [OF r]] ls by (simp add: format_header)
    with v line_whole [OF r, of m] nq show ?thesis using line_object_harmless by auto
  next
    case (Cons f init')
    then have "l = header r @ f \<or> l \<in> set init' \<or> l = m @ [quote, CHR ''}'']"
      using l file_lines_prefix [OF header_lines [OF r]] ls by (auto simp: format_header)
    moreover have "quote \<notin> set f" using nq Cons by simp
    moreover have "length (filter (\<lambda>c. c = quote) k) = 0" if "quote \<notin> set k" for k :: string
      using that by (auto simp: filter_empty_conv)
    ultimately show ?thesis using v line_start [OF r] few_quotes [OF _ v] nq Cons by fastforce
  qed
qed

lemma log_harmless:
  assumes "list_all ordinary records" and "v \<in> set (load_events (write_log records))"
  shows "harmless v"
  using assms
proof (induction records)
  case (Cons r rs)
  have "file_lines (write_log (r # rs)) = file_lines (format_record r @ [CHR 0x0A]) @ file_lines (write_log rs)"
    using file_lines_append [of "format_record r" "write_log rs"] by (simp add: write_log_def)
  then consider "v \<in> set (load_events (write_log rs))" | l where "l \<in> set (file_lines (format_record r @ [CHR 0x0A]))" "line_event l = Some v"
    using Cons.prems(2) by (auto simp: load_events_def List.map_filter_def)
  then show ?case using Cons record_lines_harmless [of r] by (cases) auto
qed (simp add: load_events_def write_log_def)


lemma scan_event_harmless:
  "harmless e \<Longrightarrow> scan_event ft e tml = None \<or> scan_event ft e tml = Some tml"
  by (cases e) (simp_all add: harmless_def scan_event_def get_def truthy_def)

lemma scan_harmless:
  "(\<And>v. v \<in> set es \<Longrightarrow> harmless v) \<Longrightarrow> scan_events ft es tml = None \<or> scan_events ft es tml = Some tml"
proof (induction es)
  case (Cons e es)
  then have "scan_event ft e tml = None \<or> scan_event ft e tml = Some tml"
    by (intro scan_event_harmless) simp
  with Cons show ?case by auto
qed simp

lemma whole_lines:
  assumes "list_all (\<lambda>r. ordinary r \<and> one_line (lr_msg r)) records" and "v \<in> set (load_events (write_log records))"
  shows "\<exists>r x. v = line_object r x"
  using assms
proof (induction records)
  case (Cons r rs)
  have "one_line (format_record r)"
    using Cons.prems(1) header_lines [of r] by (simp add: format_header one_line_def)
  then have "file_lines (write_log (r # rs)) = format_record r # file_lines (write_log rs)"
    using file_lines_append [of "format_record r" "write_log rs"] file_lines_prefix [of "format_record r" "[CHR 0x0A]" "[]" "[]"]
    by (simp add: write_log_def)
  then have "v \<in> set (load_events (write_log rs)) \<or> line_event (format_record r) = Some v"
    using Cons.prems(2) by (auto simp: load_events_def List.map_filter_def Let_def split: if_splits)
  then show ?case
    using Cons line_whole [of r "lr_msg r"] by (auto simp: format_header ordinary_def)
qed (simp add: load_events_def write_log_def)

lemma scan_records:
  "(\<And>v. v \<in> set es \<Longrightarrow> \<exists>r x. v = line_object r x) \<Longrightarrow> scan_events ft es tml = Some tml"
  by (induction es) (fastforce simp: scan_event_def line_object_def get_def field_of_def truthy_def)+


definition sample_record :: log_record where
  "sample_record = \<lparr>lr_time = ''2026-05-20 10:01:58,000'', lr_level = ''INFO'', lr_name = ''orchestrator.app.fault_injector'',
     lr_msg = ''Injecting THERMAL_RUNAWAY: blocking cooling vent''\<rparr>"


text \<open>Messages are not escaped: one with quotation marks can bring a snapshot of its own.\<close>

definition quoted_record :: log_record where
  "quoted_record = sample_record\<lparr>lr_msg :=
      [quote] @ '','' @ quoted ''telemetry_snapshot'' @ '':{'' @ quoted ''T_cell'' @ '':60},'' @ quoted ''x'' @ '':'' @ [quote]\<rparr>"

lemma quoted_events:
  "load_events (write_log [quoted_record]) = [JObj [(''time'', JStr (lr_time sample_record)), (''level'', JStr ''INFO''),
     (''name'', JStr (lr_name sample_record)), (''msg'', JStr []), (''telemetry_snapshot'', JObj [(''T_cell'', JNum 60)]), (''x'', JStr [])]]"
  by code_simp

lemma quoted_message_plotted:
  "\<not> isl (plot_main (\<lambda>_. None) [''orchestrator.log'' \<mapsto> write_log [quoted_record]] None None)"
  by (simp add: plot_main_def plot_def quoted_events scan_event_def get_def field_of_def truthy_def py_float_def add_snapshot_def at_least_def empty_timeline_def Let_def)

definition hot_line :: string where
  "hot_line = ''{'' @ quoted ''telemetry_snapshot'' @ '':{'' @ quoted ''T_cell'' @ '':60}}''"

lemma hot_events: "load_events hot_line = [JObj [(''telemetry_snapshot'', JObj [(''T_cell'', JNum 60)])]]"
  by code_simp

theorem plot_spec_witness:
  "\<exists>tml. plot (\<lambda>_. None) [''l'' \<mapsto> hot_line] ''l'' ''o'' = Inr (figure ''o'' tml)"
proof -
  have "\<exists>calls. plot (\<lambda>_. None) [''l'' \<mapsto> hot_line] ''l'' ''o'' = Inr calls"
    by (simp add: plot_def hot_events scan_event_def get_def field_of_def truthy_def py_float_def add_snapshot_def at_least_def empty_timeline_def Let_def)
  with plot_spec show ?thesis by blast
qed

end
