(* ===== verification/Fleet_Geo.thy ===== *)
theory Fleet_Geo
  imports Prelude
begin

text \<open>
  Great-circle distance of the fleet router
  (\<open>fleet_routing_api/app/routing/haversine.py\<close>), over exact reals, and what makes it a distance.
\<close>

definition radians :: "real \<Rightarrow> real" where
  "radians x = x * pi / 180"

definition earth_radius :: real where
  "earth_radius = 6371"

definition haversine_a :: "real \<Rightarrow> real \<Rightarrow> real \<Rightarrow> real \<Rightarrow> real" where
  "haversine_a lat1 lon1 lat2 lon2 =
     (let phi1 = radians lat1; phi2 = radians lat2;
          dphi = radians (lat2 - lat1); dlambda = radians (lon2 - lon1)
      in (sin (dphi / 2))\<^sup>2 + cos phi1 * cos phi2 * (sin (dlambda / 2))\<^sup>2)"

definition haversine :: "real \<Rightarrow> real \<Rightarrow> real \<Rightarrow> real \<Rightarrow> real" where
  "haversine lat1 lon1 lat2 lon2 = 2 * earth_radius * arcsin (sqrt (haversine_a lat1 lon1 lat2 lon2))"

section \<open>The reference: the angle between two points of the sphere\<close>

definition dot :: "real \<Rightarrow> real \<Rightarrow> real \<Rightarrow> real \<Rightarrow> real" where
  "dot lat1 lon1 lat2 lon2 =
     sin (radians lat1) * sin (radians lat2) +
     cos (radians lat1) * cos (radians lat2) * cos (radians (lon2 - lon1))"

lemma radians_diff: "radians (x - y) = radians x - radians y"
  by (simp add: radians_def algebra_simps diff_divide_distrib)

lemma sin_half_sq: "(sin (x / 2))\<^sup>2 = (1 - cos x) / 2" for x :: real
  using cos_double_sin [of "x / 2"] by simp

lemma haversine_a_dot: "haversine_a lat1 lon1 lat2 lon2 = (1 - dot lat1 lon1 lat2 lon2) / 2"
proof -
  have "haversine_a lat1 lon1 lat2 lon2 =
      (1 - cos (radians lat2 - radians lat1)) / 2 +
      cos (radians lat1) * cos (radians lat2) * ((1 - cos (radians (lon2 - lon1))) / 2)"
    by (simp add: haversine_a_def Let_def sin_half_sq radians_diff [of lat2 lat1])
  also have "\<dots> = (1 - dot lat1 lon1 lat2 lon2) / 2"
    by (simp add: dot_def cos_diff field_simps)
  finally show ?thesis .
qed

lemma abs_dot_le: "\<bar>dot lat1 lon1 lat2 lon2\<bar> \<le> 1"
proof -
  let ?s = "sin (radians lat1)" and ?c = "cos (radians lat1)"
    and ?t = "sin (radians lat2)" and ?d = "cos (radians lat2)" and ?l = "cos (radians (lon2 - lon1))"
  have l: "\<bar>?l\<bar> \<le> 1" by (rule abs_cos_le_one)
  have "\<bar>dot lat1 lon1 lat2 lon2\<bar> \<le> \<bar>?s * ?t\<bar> + \<bar>?c * ?d * ?l\<bar>"
    unfolding dot_def by (rule abs_triangle_ineq)
  also have "\<bar>?c * ?d * ?l\<bar> \<le> \<bar>?c * ?d\<bar>"
    using l by (simp add: abs_mult mult_left_le)
  also have "\<bar>?s * ?t\<bar> + \<bar>?c * ?d\<bar> \<le> (?s\<^sup>2 + ?t\<^sup>2) / 2 + (?c\<^sup>2 + ?d\<^sup>2) / 2"
  proof (rule add_mono)
    have sq: "\<bar>x * y\<bar> \<le> (x\<^sup>2 + y\<^sup>2) / 2" for x y :: real
      using zero_le_power2 [of "\<bar>x\<bar> - \<bar>y\<bar>"] by (simp add: power2_diff abs_mult)
    show "\<bar>?s * ?t\<bar> \<le> (?s\<^sup>2 + ?t\<^sup>2) / 2" by (rule sq)
    show "\<bar>?c * ?d\<bar> \<le> (?c\<^sup>2 + ?d\<^sup>2) / 2" by (rule sq)
  qed
  also have "\<dots> = 1" by (simp add: cos_squared_eq field_simps)
  finally show ?thesis by simp
qed

lemma haversine_a_bounds: "0 \<le> haversine_a lat1 lon1 lat2 lon2" "haversine_a lat1 lon1 lat2 lon2 \<le> 1"
  using abs_dot_le [of lat1 lon1 lat2 lon2] by (auto simp: haversine_a_dot abs_le_iff)

lemma haversine_eq: "haversine lat1 lon1 lat2 lon2 = earth_radius * arccos (dot lat1 lon1 lat2 lon2)"
proof -
  let ?d = "dot lat1 lon1 lat2 lon2"
  let ?t = "arccos ?d"
  have d: "-1 \<le> ?d" "?d \<le> 1" using abs_dot_le [of lat1 lon1 lat2 lon2] by (auto simp: abs_le_iff)
  have t: "0 \<le> ?t" "?t \<le> pi" using arccos_bounded [OF d] by auto
  have "cos ?t = ?d" using d by (rule cos_arccos)
  then have "haversine_a lat1 lon1 lat2 lon2 = (sin (?t / 2))\<^sup>2"
    by (simp add: haversine_a_dot sin_half_sq)
  moreover have "0 \<le> sin (?t / 2)" using t by (intro sin_ge_zero) auto
  ultimately have "sqrt (haversine_a lat1 lon1 lat2 lon2) = sin (?t / 2)" by simp
  moreover have "arcsin (sin (?t / 2)) = ?t / 2" using t by (intro arcsin_sin) auto
  ultimately show ?thesis by (simp add: haversine_def)
qed

text \<open>
  For all coordinates, also those outside the geographic ranges, the square root and the arc
  sine are taken within their domains, and the result is the radius times the angle between the
  two points (the spherical law of cosines).
\<close>

theorem haversine_law_of_cosines:
  "0 \<le> haversine_a lat1 lon1 lat2 lon2 \<and> haversine_a lat1 lon1 lat2 lon2 \<le> 1 \<and>
   haversine lat1 lon1 lat2 lon2 = earth_radius * arccos (dot lat1 lon1 lat2 lon2)"
  by (intro conjI haversine_a_bounds haversine_eq)

lemma dot_commute: "dot lat1 lon1 lat2 lon2 = dot lat2 lon2 lat1 lon1"
proof -
  have "cos (radians (lon2 - lon1)) = cos (radians (lon1 - lon2))"
    using cos_minus [of "radians (lon1 - lon2)"] by (simp add: radians_diff)
  then show ?thesis by (simp add: dot_def mult.commute)
qed

lemma dot_self: "dot lat lon lat lon = 1"
  using sin_cos_squared_add [of "radians lat"] by (simp add: dot_def radians_def power2_eq_square)

section \<open>The distance is a metric on directions\<close>

lemma gram_nonneg:
  fixes a1 a2 a3 b1 b2 b3 c1 c2 c3 :: real
  defines "ab \<equiv> a1 * b1 + a2 * b2 + a3 * b3" and "bc \<equiv> b1 * c1 + b2 * c2 + b3 * c3"
    and "ac \<equiv> a1 * c1 + a2 * c2 + a3 * c3"
  assumes "a1\<^sup>2 + a2\<^sup>2 + a3\<^sup>2 = 1" and "b1\<^sup>2 + b2\<^sup>2 + b3\<^sup>2 = 1" and "c1\<^sup>2 + c2\<^sup>2 + c3\<^sup>2 = 1"
  shows "(ac - ab * bc)\<^sup>2 \<le> (1 - ab\<^sup>2) * (1 - bc\<^sup>2)"
proof -
  let ?det = "a1 * (b2 * c3 - b3 * c2) - a2 * (b1 * c3 - b3 * c1) + a3 * (b1 * c2 - b2 * c1)"
  have "?det\<^sup>2 = (a1\<^sup>2 + a2\<^sup>2 + a3\<^sup>2) * (b1\<^sup>2 + b2\<^sup>2 + b3\<^sup>2) * (c1\<^sup>2 + c2\<^sup>2 + c3\<^sup>2) + 2 * ab * bc * ac -
      (a1\<^sup>2 + a2\<^sup>2 + a3\<^sup>2) * bc\<^sup>2 - (b1\<^sup>2 + b2\<^sup>2 + b3\<^sup>2) * ac\<^sup>2 - (c1\<^sup>2 + c2\<^sup>2 + c3\<^sup>2) * ab\<^sup>2"
    unfolding ab_def bc_def ac_def by algebra
  then have "0 \<le> 1 + 2 * ab * bc * ac - bc\<^sup>2 - ac\<^sup>2 - ab\<^sup>2"
    using zero_le_power2 [of ?det] assms(4-6) by simp
  then show ?thesis by (simp add: power2_eq_square algebra_simps)
qed

lemma dot_coordinates:
  "dot lat1 lon1 lat2 lon2 =
     (cos (radians lat1) * cos (radians lon1)) * (cos (radians lat2) * cos (radians lon2)) +
     (cos (radians lat1) * sin (radians lon1)) * (cos (radians lat2) * sin (radians lon2)) +
     sin (radians lat1) * sin (radians lat2)"
  by (simp add: dot_def radians_diff cos_diff algebra_simps)

lemma unit_coordinates:
  "(cos p * cos l)\<^sup>2 + (cos p * sin l)\<^sup>2 + (sin p)\<^sup>2 = 1" for p l :: real
  by (simp add: power_mult_distrib cos_squared_eq algebra_simps)

lemma dot_gram:
  "(dot la lo lc ld - dot la lo lb lp * dot lb lp lc ld)\<^sup>2 \<le>
     (1 - (dot la lo lb lp)\<^sup>2) * (1 - (dot lb lp lc ld)\<^sup>2)"
  unfolding dot_coordinates by (rule gram_nonneg) (rule unit_coordinates)+

lemma arccos_triangle:
  fixes x y z :: real
  assumes "\<bar>x\<bar> \<le> 1" and "\<bar>y\<bar> \<le> 1" and "\<bar>z\<bar> \<le> 1" and "(z - x * y)\<^sup>2 \<le> (1 - x\<^sup>2) * (1 - y\<^sup>2)"
  shows "arccos z \<le> arccos x + arccos y"
proof (cases "arccos x + arccos y \<le> pi")
  case True
  have "z - x * y \<ge> - sqrt ((1 - x\<^sup>2) * (1 - y\<^sup>2))"
    using real_sqrt_le_mono [OF assms(4)] by (simp add: abs_le_iff)
  then have "x * y - sqrt (1 - x\<^sup>2) * sqrt (1 - y\<^sup>2) \<le> z" by (simp add: real_sqrt_mult)
  moreover have "cos (arccos x + arccos y) = x * y - sqrt (1 - x\<^sup>2) * sqrt (1 - y\<^sup>2)"
    using assms(1,2) by (simp add: cos_add sin_arccos_abs abs_le_iff cos_arccos)
  ultimately have "cos (arccos x + arccos y) \<le> z" by simp
  moreover have "0 \<le> arccos x" "0 \<le> arccos y"
    using assms(1,2) by (auto intro!: arccos_lbound simp: abs_le_iff)
  ultimately have "arccos z \<le> arccos (cos (arccos x + arccos y))"
    using assms(3) by (intro arccos_le_arccos) (auto simp: abs_le_iff)
  with True \<open>0 \<le> arccos x\<close> \<open>0 \<le> arccos y\<close> show ?thesis by (simp add: arccos_cos)
next
  case False
  have "arccos z \<le> pi" using assms(3) by (intro arccos_ubound) (auto simp: abs_le_iff)
  with False show ?thesis by simp
qed

lemma haversine_triangle:
  "haversine la lo lc ld \<le> haversine la lo lb lp + haversine lb lp lc ld"
  using arccos_triangle [OF abs_dot_le abs_dot_le abs_dot_le dot_gram, of la lo lc ld lb lp]
  by (simp add: haversine_eq earth_radius_def)

lemma haversine_nonneg: "0 \<le> haversine la lo lb lp"
  using abs_dot_le [of la lo lb lp] by (simp add: haversine_eq earth_radius_def arccos_lbound abs_le_iff)

text \<open>
  The distance is a pseudometric bounded by half the circumference: not negative, at most
  \<open>pi R\<close>, zero from a point to itself, symmetric, and it satisfies the triangle inequality (a detour is
  never shorter).
\<close>

theorem haversine_metric:
  "0 \<le> haversine la lo lb lp \<and> haversine la lo lb lp \<le> pi * earth_radius \<and>
   haversine la lo la lo = 0 \<and> haversine la lo lb lp = haversine lb lp la lo \<and>
   haversine la lo lc ld \<le> haversine la lo lb lp + haversine lb lp lc ld"
proof -
  have "arccos (dot la lo lb lp) \<le> pi"
    using abs_dot_le [of la lo lb lp] by (intro arccos_ubound) (auto simp: abs_le_iff)
  then have "haversine la lo lb lp \<le> pi * earth_radius" by (simp add: haversine_eq earth_radius_def)
  moreover have "haversine la lo la lo = 0" by (simp add: haversine_eq dot_self)
  moreover have "haversine la lo lb lp = haversine lb lp la lo"
    by (simp add: haversine_eq dot_commute [of la lo lb lp])
  ultimately show ?thesis
    using haversine_nonneg [of la lo lb lp] haversine_triangle [of la lo lc ld lb lp] by (intro conjI)
qed

end
