(* ===== verification/Fleet_Auth.thy ===== *)
theory Fleet_Auth
  imports Prelude
begin

text \<open>
  Authentication of the fleet API (\<open>fleet_routing_api/app/auth/jwt.py\<close>, \<open>app/auth/dependencies.py\<close>,
  \<open>app/api/auth.py\<close>) and the delivery endpoints it protects (\<open>app/api/deliveries.py\<close>). The JWT library
  is a parameter: \<open>enc\<close> signs a payload, \<open>dec\<close> verifies a token at a time; expiry is in seconds, the
  clock in microseconds.
\<close>

section \<open>Users and tokens\<close>

definition USERS :: "(string \<times> string \<times> string) list" where
  "USERS = [(''dispatcher1'', ''dispatch123'', ''dispatcher''), (''viewer1'', ''viewer123'', ''viewer'')]"

definition authenticate_user :: "string \<Rightarrow> string \<Rightarrow> (string \<times> string) option" where
  "authenticate_user username password =
     (case map_of USERS username of
        None \<Rightarrow> None
      | Some (pw, role) \<Rightarrow> if pw \<noteq> password then None else Some (username, role))"

record payload =
  sub :: string
  role :: string
  exp_s :: int

datatype jwt_error = ExpiredSignatureError | InvalidTokenError

text \<open>The documented behaviour of signing and verifying with the same key and algorithm.\<close>

definition jwt_laws :: "(payload \<Rightarrow> 't) \<Rightarrow> (int \<Rightarrow> 't \<Rightarrow> jwt_error + payload) \<Rightarrow> bool" where
  "jwt_laws enc dec \<longleftrightarrow>
     (\<forall>now p. dec now (enc p) = (if exp_s p * 1000000 \<le> now then Inl ExpiredSignatureError else Inr p))"

definition create_access_token :: "(payload \<Rightarrow> 't) \<Rightarrow> int \<Rightarrow> int \<Rightarrow> string \<Rightarrow> string \<Rightarrow> 't" where
  "create_access_token enc minutes now s r =
     enc \<lparr>sub = s, role = r, exp_s = (now + minutes * 60 * 1000000) div 1000000\<rparr>"

datatype auth_error =
    InvalidCredentials | NotAuthenticated | TokenExpired | InvalidToken | RoleRequired
  | DeliveryNotFound | Unexpected

definition login ::
  "(payload \<Rightarrow> 't) \<Rightarrow> int \<Rightarrow> int \<Rightarrow> string \<Rightarrow> string \<Rightarrow> (auth_error, 't) response" where
  "login enc minutes now username password =
     (case authenticate_user username password of
        None \<Rightarrow> Inl (HTTPException 401 InvalidCredentials)
      | Some (s, r) \<Rightarrow> Inr (create_access_token enc minutes now s r))"

definition get_current_user ::
  "(int \<Rightarrow> 't \<Rightarrow> jwt_error + payload) \<Rightarrow> int \<Rightarrow> 't option \<Rightarrow> (auth_error, payload) response" where
  "get_current_user dec now credentials =
     (case credentials of
        None \<Rightarrow> Inl (HTTPException 403 NotAuthenticated)
      | Some tok \<Rightarrow>
          (case dec now tok of
             Inl ExpiredSignatureError \<Rightarrow> Inl (HTTPException 401 TokenExpired)
           | Inl InvalidTokenError \<Rightarrow> Inl (HTTPException 401 InvalidToken)
           | Inr p \<Rightarrow> Inr p))"

definition require_dispatcher ::
  "(int \<Rightarrow> 't \<Rightarrow> jwt_error + payload) \<Rightarrow> int \<Rightarrow> 't option \<Rightarrow> (auth_error, payload) response" where
  "require_dispatcher dec now credentials =
     (case get_current_user dec now credentials of
        Inl e \<Rightarrow> Inl e
      | Inr user \<Rightarrow> if role user \<noteq> ''dispatcher'' then Inl (HTTPException 403 RoleRequired) else Inr user)"

section \<open>Deliveries\<close>

record delivery =
  d_id :: nat
  d_description :: string
  d_vehicle :: int
  d_status :: string
  d_created_at :: int

text \<open>
  The table and the vehicles its foreign key refers to. PostgreSQL (\<open>strict\<close>) enforces the key and the
  length of a column; SQLite as it is configured here does neither.
\<close>

record fleet_db =
  vehicles :: "int list"
  deliveries :: "delivery list"
  next_id :: nat
  strict :: bool

record delivery_create =
  dc_description :: string
  dc_vehicle_id :: int

record delivery_read =
  dr_id :: nat
  dr_description :: string
  dr_vehicle_id :: int
  dr_status :: string

definition delivery_read_of :: "delivery \<Rightarrow> delivery_read" where
  "delivery_read_of d = \<lparr>dr_id = d_id d, dr_description = d_description d, dr_vehicle_id = d_vehicle d, dr_status = d_status d\<rparr>"

definition row_refused :: "delivery_create \<Rightarrow> fleet_db \<Rightarrow> bool" where
  "row_refused body db \<longleftrightarrow> strict db \<and> (dc_vehicle_id body \<notin> set (vehicles db) \<or> 256 < length (dc_description body))"

definition create_delivery ::
  "(int \<Rightarrow> 't \<Rightarrow> jwt_error + payload) \<Rightarrow> int \<Rightarrow> 't option \<Rightarrow> delivery_create \<Rightarrow> fleet_db
   \<Rightarrow> fleet_db \<times> (auth_error, delivery_read) response" where
  "create_delivery dec now cred body db =
     (case require_dispatcher dec now cred of
        Inl e \<Rightarrow> (db, Inl e)
      | Inr _ \<Rightarrow>
          if row_refused body db then (db, Inl (HTTPException 500 Unexpected))
          else let d = \<lparr>d_id = next_id db, d_description = dc_description body, d_vehicle = dc_vehicle_id body,
                        d_status = ''pending'', d_created_at = now\<rparr>
               in (db\<lparr>deliveries := deliveries db @ [d], next_id := next_id db + 1\<rparr>, Inr (delivery_read_of d)))"

definition get_delivery ::
  "(int \<Rightarrow> 't \<Rightarrow> jwt_error + payload) \<Rightarrow> int \<Rightarrow> 't option \<Rightarrow> int \<Rightarrow> fleet_db \<Rightarrow> (auth_error, delivery_read) response" where
  "get_delivery dec now cred delivery_id db =
     (case require_dispatcher dec now cred of
        Inl e \<Rightarrow> Inl e
      | Inr _ \<Rightarrow>
          (case find (\<lambda>d. int (d_id d) = delivery_id) (deliveries db) of
             None \<Rightarrow> Inl (HTTPException 404 DeliveryNotFound)
           | Some d \<Rightarrow> Inr (delivery_read_of d)))"

section \<open>Properties\<close>

lemma div_mult_bounds:
  fixes x n :: int
  assumes "0 < n"
  shows "x div n * n \<le> x" and "x < x div n * n + n"
  using assms pos_mod_bound [of n x] pos_mod_sign [of n x] div_mult_mod_eq [of x n] by linarith+

lemma token_window: "t < now + (m * 60 - 1) * 1000000 \<Longrightarrow>
    \<not> (now + m * 60 * 1000000) div 1000000 * 1000000 \<le> t" for now t m :: int
  using div_mult_bounds(2) [of 1000000 "now + m * 60 * 1000000"] by (simp add: algebra_simps)

lemma token_expired: "now + m * 60 * 1000000 \<le> t \<Longrightarrow>
    (now + m * 60 * 1000000) div 1000000 * 1000000 \<le> t" for now t m :: int
  using div_mult_bounds(1) [of 1000000 "now + m * 60 * 1000000"] by linarith

text \<open>
  C37. From login to authorisation: a login succeeds exactly for a listed user with that user's
  password; the token it returns lets its owner through \<open>require_dispatcher\<close> for \<open>m\<close> minutes (to the
  second) exactly when the user's role is dispatcher, and otherwise gets 403; after \<open>m\<close> minutes it
  gets 401.
\<close>

theorem login_authorises:
  assumes "jwt_laws enc dec"
  shows "(\<exists>tok. login enc m now u pw = Inr tok) = ((u, pw) \<in> {(''dispatcher1'', ''dispatch123''), (''viewer1'', ''viewer123'')}) \<and>
    (login enc m now u pw = Inr tok \<and> now \<le> t \<and> t < now + (m * 60 - 1) * 1000000 \<longrightarrow>
       (case require_dispatcher dec t (Some tok) of
          Inl e \<Rightarrow> u = ''viewer1'' \<and> status_code e = 403
        | Inr p \<Rightarrow> u = ''dispatcher1'' \<and> sub p = u)) \<and>
    (login enc m now u pw = Inr tok \<and> now + m * 60 * 1000000 \<le> t \<longrightarrow>
       require_dispatcher dec t (Some tok) = Inl (HTTPException 401 TokenExpired))"
proof (intro conjI impI)
  have laws: "dec t (enc p) = (if exp_s p * 1000000 \<le> t then Inl ExpiredSignatureError else Inr p)" for t p
    using assms by (simp add: jwt_laws_def)
  have users: "authenticate_user u pw = Some (s, r) \<longleftrightarrow> s = u \<and>
      (u = ''dispatcher1'' \<and> pw = ''dispatch123'' \<and> r = ''dispatcher'' \<or>
       u = ''viewer1'' \<and> pw = ''viewer123'' \<and> r = ''viewer'')" for s r
    by (auto simp: authenticate_user_def USERS_def)
  show "(\<exists>tok. login enc m now u pw = Inr tok) =
      ((u, pw) \<in> {(''dispatcher1'', ''dispatch123''), (''viewer1'', ''viewer123'')})"
    by (auto simp: login_def authenticate_user_def USERS_def)
  {
    assume "login enc m now u pw = Inr tok \<and> now \<le> t \<and> t < now + (m * 60 - 1) * 1000000"
    then show "case require_dispatcher dec t (Some tok) of
          Inl e \<Rightarrow> u = ''viewer1'' \<and> status_code e = 403
        | Inr p \<Rightarrow> u = ''dispatcher1'' \<and> sub p = u"
      using token_window [of t now m]
      by (auto simp: login_def users create_access_token_def require_dispatcher_def get_current_user_def laws
          split: option.splits)
  }
  assume "login enc m now u pw = Inr tok \<and> now + m * 60 * 1000000 \<le> t"
  then show "require_dispatcher dec t (Some tok) = Inl (HTTPException 401 TokenExpired)"
    using token_expired [of now m t]
    by (auto simp: login_def users create_access_token_def require_dispatcher_def get_current_user_def laws
        split: option.splits)
qed

text \<open>A codec with the documented behaviour: tokens that carry their payload openly.\<close>

definition plain_dec :: "int \<Rightarrow> payload \<Rightarrow> jwt_error + payload" where
  "plain_dec now p = (if exp_s p * 1000000 \<le> now then Inl ExpiredSignatureError else Inr p)"

lemma jwt_laws_plain: "jwt_laws id plain_dec"
  by (simp add: jwt_laws_def plain_dec_def)

theorem login_authorises_witness:
  "\<exists>tok. login id 60 0 ''dispatcher1'' ''dispatch123'' = Inr tok \<and>
     require_dispatcher plain_dec 3600000000 (Some tok) = Inl (HTTPException 401 TokenExpired) \<and>
     (case require_dispatcher plain_dec 3598999999 (Some tok) of Inl e \<Rightarrow> False | Inr p \<Rightarrow> sub p = ''dispatcher1'')"
proof -
  obtain tok where tok: "login id 60 0 ''dispatcher1'' ''dispatch123'' = Inr tok"
    using login_authorises [OF jwt_laws_plain, of 60 0 "''dispatcher1''" "''dispatch123''"] by auto
  from login_authorises [OF jwt_laws_plain, of 60 0 "''dispatcher1''" "''dispatch123''" tok 3600000000]
    login_authorises [OF jwt_laws_plain, of 60 0 "''dispatcher1''" "''dispatch123''" tok 3598999999] tok
  show ?thesis by (intro exI [of _ tok]) (auto split: sum.splits)
qed

definition fleet_wf :: "fleet_db \<Rightarrow> bool" where
  "fleet_wf db \<longleftrightarrow> distinct (map d_id (deliveries db)) \<and> (\<forall>d\<in>set (deliveries db). d_id d < next_id db) \<and>
     (strict db \<longrightarrow> d_vehicle ` set (deliveries db) \<subseteq> set (vehicles db) \<and>
       (\<forall>d\<in>set (deliveries db). length (d_description d) \<le> 256))"

lemma get_stored:
  assumes "fleet_wf db" and "d \<in> set (deliveries db)" and "require_dispatcher dec now cred = Inr p"
  shows "get_delivery dec now cred (int (d_id d)) db = Inr (delivery_read_of d)"
  using find_distinct [of d_id "deliveries db" d] assms by (simp add: get_delivery_def fleet_wf_def)

text \<open>
  Deliveries: without an authorised dispatcher neither endpoint does anything but return the
  authentication error; with one, creating a delivery for a known vehicle appends a pending delivery
  with a fresh id, which \<open>GET\<close> then returns, and every delivery stored before is still returned as it
  was; PostgreSQL refuses an unknown vehicle and a description of more than 256 characters with 500.
\<close>

theorem delivery_roundtrip:
  assumes "fleet_wf db" and "create_delivery dec now cred body db = (db', res)"
  shows "fleet_wf db' \<and>
    (case res of
       Inl e \<Rightarrow> db' = db \<and> (require_dispatcher dec now cred = Inl e \<or> status_code e = 500 \<and> row_refused body db)
     | Inr d \<Rightarrow> (\<exists>p. require_dispatcher dec now cred = Inr p \<and> role p = ''dispatcher'') \<and>
         dr_status d = ''pending'' \<and> dr_description d = dc_description body \<and> dr_vehicle_id d = dc_vehicle_id body \<and>
         get_delivery dec now cred (int (dr_id d)) db' = Inr d \<and>
         (\<forall>old\<in>set (deliveries db). get_delivery dec now cred (int (d_id old)) db' = Inr (delivery_read_of old) \<and> d_id old \<noteq> dr_id d))"
proof (cases "require_dispatcher dec now cred")
  case (Inl e)
  with assms show ?thesis by (auto simp: create_delivery_def)
next
  case (Inr p)
  then have role: "role p = ''dispatcher''"
    by (auto simp: require_dispatcher_def split: sum.splits if_splits)
  show ?thesis
  proof (cases "row_refused body db")
    case True
    with Inr assms show ?thesis by (auto simp: create_delivery_def)
  next
    case False
    let ?d = "\<lparr>d_id = next_id db, d_description = dc_description body, d_vehicle = dc_vehicle_id body,
      d_status = ''pending'', d_created_at = now\<rparr>"
    have db': "db' = db\<lparr>deliveries := deliveries db @ [?d], next_id := next_id db + 1\<rparr>" and res: "res = Inr (delivery_read_of ?d)"
      using False Inr assms(2) by (auto simp: create_delivery_def Let_def)
    have wf: "fleet_wf db'" using assms(1) False by (auto simp: fleet_wf_def row_refused_def db')
    have "get_delivery dec now cred (int (d_id d)) db' = Inr (delivery_read_of d)" if "d \<in> set (deliveries db')" for d
      using wf that Inr by (rule get_stored)
    then have "get_delivery dec now cred (int (next_id db)) db' = Inr (delivery_read_of ?d)"
      and "\<forall>old\<in>set (deliveries db). get_delivery dec now cred (int (d_id old)) db' = Inr (delivery_read_of old)"
      unfolding db' by (force, simp)
    moreover have "d_id old \<noteq> next_id db" if "old \<in> set (deliveries db)" for old
      using assms(1) that by (auto simp: fleet_wf_def)
    ultimately show ?thesis using wf Inr role by (auto simp: res delivery_read_of_def)
  qed
qed

theorem delivery_roundtrip_witness:
  "\<exists>d. get_delivery plain_dec 5 (Some \<lparr>sub = ''dispatcher1'', role = ''dispatcher'', exp_s = 60\<rparr>) 1
     (fst (create_delivery plain_dec 5 (Some \<lparr>sub = ''dispatcher1'', role = ''dispatcher'', exp_s = 60\<rparr>)
        \<lparr>dc_description = ''parcel'', dc_vehicle_id = 7\<rparr>
        \<lparr>vehicles = [7], deliveries = [], next_id = 1, strict = True\<rparr>)) = Inr d \<and> dr_vehicle_id d = 7"
proof -
  let ?tok = "Some \<lparr>sub = ''dispatcher1'', role = ''dispatcher'', exp_s = 60\<rparr>"
  let ?db = "\<lparr>vehicles = [7], deliveries = [], next_id = 1, strict = True\<rparr>"
  let ?body = "\<lparr>dc_description = ''parcel'', dc_vehicle_id = 7\<rparr>"
  have "fleet_wf ?db" by (simp add: fleet_wf_def)
  moreover obtain db' d where c: "create_delivery plain_dec 5 ?tok ?body ?db = (db', Inr d)" "dr_id d = 1"
    by (simp add: create_delivery_def require_dispatcher_def get_current_user_def plain_dec_def Let_def row_refused_def delivery_read_of_def)
  ultimately show ?thesis using delivery_roundtrip [of ?db plain_dec 5 ?tok ?body db' "Inr d"] by auto
qed

end
