(* ===== verification/Fleet_Routes.thy ===== *)
theory Fleet_Routes
  imports Fleet_Geo Fleet_Auth "HOL-Library.Product_Lexorder"
begin

text \<open>
  The route optimiser and its endpoint (\<open>fleet_routing_api/app/routing/optimizer.py\<close>,
  \<open>app/api/routes.py\<close>): the nearest-neighbour heuristic, the route length, and the Redis cache in
  front of them. \<open>round3\<close> is Python's \<open>round(x, 3)\<close>, from \<open>Prelude\<close>.
\<close>

section \<open>The heuristic\<close>

record waypoint =
  wid :: int
  lat :: real
  lon :: real

definition dist_to :: "waypoint \<Rightarrow> waypoint \<Rightarrow> real" where
  "dist_to v w = haversine (lat v) (lon v) (lat w) (lon w)"

text \<open>\<open>distances.index(min(distances))\<close>\<close>

fun index_of :: "'a \<Rightarrow> 'a list \<Rightarrow> nat" where
  "index_of x [] = 0"
| "index_of x (y # ys) = (if y = x then 0 else Suc (index_of x ys))"

definition index_min :: "real list \<Rightarrow> nat" where
  "index_min ds = index_of (Min (set ds)) ds"

lemma index_of_less: "x \<in> set xs \<Longrightarrow> index_of x xs < length xs \<and> xs ! index_of x xs = x"
  by (induction xs) auto

lemma index_min_less: "ds \<noteq> [] \<Longrightarrow> index_min ds < length ds"
  by (simp add: index_min_def index_of_less)

lemma index_min_le: "ds \<noteq> [] \<Longrightarrow> d \<in> set ds \<Longrightarrow> ds ! index_min ds \<le> d"
  using index_of_less [of "Min (set ds)" ds] by (simp add: index_min_def)

text \<open>The \<open>while\<close> loop; it ends because \<open>remaining\<close> gets shorter.\<close>

function nn_loop :: "waypoint \<Rightarrow> waypoint list \<Rightarrow> waypoint list" where
  "nn_loop current remaining =
     (if remaining = [] then []
      else let idx = index_min (map (dist_to current) remaining);
               next_wp = remaining ! idx
           in next_wp # nn_loop next_wp (pop_at idx remaining))"
  by pat_completeness auto
termination
proof (relation "measure (\<lambda>(c, r). length r)", goal_cases)
  case (2 current remaining idx next_wp)
  then have "idx < length remaining"
    using index_min_less [of "map (dist_to current) remaining"] by simp
  with 2 show ?case by simp
qed simp

declare nn_loop.simps [simp del]

definition nearest_neighbor_route :: "waypoint \<Rightarrow> waypoint list \<Rightarrow> waypoint list" where
  "nearest_neighbor_route depot wps = (if wps = [] then [] else nn_loop depot wps)"

fun legs :: "waypoint list \<Rightarrow> real" where
  "legs (v # w # stops) = dist_to v w + legs (w # stops)"
| "legs _ = 0"

definition total_route_distance :: "waypoint \<Rightarrow> waypoint list \<Rightarrow> real" where
  "total_route_distance depot ordered = (if ordered = [] then 0 else round3 (legs (depot # ordered)))"

lemma nn_route_eq: "nearest_neighbor_route depot wps = nn_loop depot wps"
  by (simp add: nearest_neighbor_route_def nn_loop.simps)

lemma mset_nn_loop: "mset (nn_loop current remaining) = mset remaining"
proof (induction current remaining rule: nn_loop.induct)
  case (1 current remaining)
  show ?case
  proof (cases "remaining = []")
    case False
    let ?i = "index_min (map (dist_to current) remaining)"
    have "?i < length remaining"
      using False index_min_less [of "map (dist_to current) remaining"] by simp
    then have "mset remaining = add_mset (remaining ! ?i) (mset (pop_at ?i remaining))"
      by (rule mset_pop_at)
    with 1 [OF False refl refl] False show ?thesis
      by (subst nn_loop.simps) (simp add: Let_def)
  qed (simp add: nn_loop.simps)
qed

text \<open>Every stop of a greedy tour is a nearest one among those not yet visited.\<close>

fun greedy :: "waypoint \<Rightarrow> waypoint list \<Rightarrow> bool" where
  "greedy v [] \<longleftrightarrow> True"
| "greedy v (w # ws) \<longleftrightarrow> (\<forall>u\<in>set (w # ws). dist_to v w \<le> dist_to v u) \<and> greedy w ws"

lemma greedy_nn_loop: "greedy current (nn_loop current remaining)"
proof (induction current remaining rule: nn_loop.induct)
  case (1 current remaining)
  show ?case
  proof (cases "remaining = []")
    case False
    let ?i = "index_min (map (dist_to current) remaining)"
    have i: "?i < length remaining"
      using False index_min_less [of "map (dist_to current) remaining"] by simp
    have "dist_to current (remaining ! ?i) \<le> dist_to current u" if "u \<in> set remaining" for u
      using index_min_le [of "map (dist_to current) remaining" "dist_to current u"] False that i by simp
    moreover have "set (nn_loop (remaining ! ?i) (pop_at ?i remaining)) \<subseteq> set remaining"
      unfolding mset_eq_setD [OF mset_nn_loop] by (rule set_pop_at)
    moreover have "nn_loop current remaining =
        remaining ! ?i # nn_loop (remaining ! ?i) (pop_at ?i remaining)"
      using False by (subst nn_loop.simps) (simp add: Let_def)
    ultimately show ?thesis using 1 [OF False refl refl] i by auto
  qed (simp add: nn_loop.simps)
qed

lemma legs_triangle: "ws \<noteq> [] \<Longrightarrow> dist_to v (last ws) \<le> legs (v # ws)"
proof (induction ws arbitrary: v)
  case (Cons w ws)
  show ?case
  proof (cases "ws = []")
    case False
    have "dist_to v (last ws) \<le> dist_to v w + dist_to w (last ws)"
      unfolding dist_to_def by (rule haversine_triangle)
    also have "\<dots> \<le> dist_to v w + legs (w # ws)" using Cons.IH [OF False, of w] by simp
    finally show ?thesis using False by simp
  qed simp
qed simp


definition depot0 :: waypoint where
  "depot0 = \<lparr>wid = 0, lat = 0, lon = 0\<rparr>"

definition two_stops :: "waypoint list" where
  "two_stops = [\<lparr>wid = 1, lat = 0, lon = 10\<rparr>, \<lparr>wid = 2, lat = 0, lon = 1\<rparr>]"


section \<open>The cache\<close>

text \<open>A cached value is a response without its \<open>cached\<close> flag.\<close>

type_synonym route = "waypoint list \<times> real"

definition coords :: "waypoint \<Rightarrow> real \<times> real" where
  "coords w = (lat w, lon w)"

text \<open>The key; \<open>hash\<close> is SHA-256 of the JSON text of the depot and the sorted coordinates.\<close>

definition make_key :: "(real \<times> real \<times> (real \<times> real) list \<Rightarrow> string) \<Rightarrow> real \<Rightarrow> real \<Rightarrow> waypoint list \<Rightarrow> string" where
  "make_key hash depot_lat depot_lon wps = ''route:'' @ hash (depot_lat, depot_lon, sort (map coords wps))"

definition cache_ttl :: nat where
  "cache_ttl = 300"

text \<open>The Redis client is a parameter, and absent when Redis cannot be reached.\<close>

definition rc_get :: "('s \<Rightarrow> string \<Rightarrow> 'v option) \<Rightarrow> 's option \<Rightarrow> string \<Rightarrow> 'v option" where
  "rc_get rget client key = (case client of None \<Rightarrow> None | Some s \<Rightarrow> rget s key)"

definition rc_set :: "('s \<Rightarrow> string \<Rightarrow> nat \<Rightarrow> 'v \<Rightarrow> 's) \<Rightarrow> 's option \<Rightarrow> string \<Rightarrow> 'v \<Rightarrow> 's option" where
  "rc_set rsetex client key v = (case client of None \<Rightarrow> None | Some s \<Rightarrow> Some (rsetex s key cache_ttl v))"

definition get_cache :: "'s \<Rightarrow> bool \<Rightarrow> 's option" where
  "get_cache s ping_ok = (if ping_ok then Some s else None)"

text \<open>
  What the endpoint relies on: a cache returns only what was put under the same key.
\<close>

locale route_cache =
  fixes cget :: "'c \<Rightarrow> string \<Rightarrow> 'v option"
    and cset :: "'c \<Rightarrow> string \<Rightarrow> 'v \<Rightarrow> 'c"
  assumes get_set: "cget (cset c k v) k' = Some u \<Longrightarrow> k' = k \<and> u = v \<or> cget c k' = Some u"
begin

text \<open>A property of all entries survives a \<open>set\<close> that respects it.\<close>

lemma entries_set:
  assumes "\<And>k v. cget c k = Some v \<Longrightarrow> P k v" and "P k v" and "cget (cset c k v) k' = Some u"
  shows "P k' u"
  using get_set [OF assms(3)] assms(1,2) by auto

end

text \<open>Redis: \<open>GET\<close> after \<open>SETEX\<close>, and expiry, which only removes entries.\<close>

locale redis_store =
  fixes rget :: "'s \<Rightarrow> string \<Rightarrow> 'v option"
    and rsetex :: "'s \<Rightarrow> string \<Rightarrow> nat \<Rightarrow> 'v \<Rightarrow> 's"
    and tick :: "'s \<Rightarrow> 's"
  assumes get_setex: "0 < ttl \<Longrightarrow> rget (rsetex s k ttl v) k = Some v"
    and get_setex_other: "k' \<noteq> k \<Longrightarrow> rget (rsetex s k ttl v) k' = rget s k'"
    and get_tick: "rget (tick s) k = Some v \<Longrightarrow> rget s k = Some v"
begin

lemma rc_get_set:
  "rc_get rget (rc_set rsetex c k v) k' = Some u \<Longrightarrow> k' = k \<and> u = v \<or> rc_get rget c k' = Some u"
  using get_setex [of cache_ttl _ k v] get_setex_other [of k' k]
  by (cases "k' = k") (auto simp: rc_get_def rc_set_def cache_ttl_def split: option.splits)

lemma rc_hit: "c \<noteq> None \<Longrightarrow> rc_get rget (rc_set rsetex c k v) k = Some v"
  using get_setex [of cache_ttl] by (auto simp: rc_get_def rc_set_def cache_ttl_def)

end

sublocale redis_store \<subseteq> rc: route_cache "rc_get rget" "rc_set rsetex"
  by unfold_locales (rule rc_get_set)

text \<open>A store with expiry: each entry carries the seconds it has left.\<close>

definition mem_get :: "(string \<rightharpoonup> 'v \<times> nat) \<Rightarrow> string \<Rightarrow> 'v option" where
  "mem_get s k = map_option fst (s k)"

definition mem_setex :: "(string \<rightharpoonup> 'v \<times> nat) \<Rightarrow> string \<Rightarrow> nat \<Rightarrow> 'v \<Rightarrow> (string \<rightharpoonup> 'v \<times> nat)" where
  "mem_setex s k ttl v = s(k \<mapsto> (v, ttl))"

definition mem_tick :: "(string \<rightharpoonup> 'v \<times> nat) \<Rightarrow> (string \<rightharpoonup> 'v \<times> nat)" where
  "mem_tick s k = (case s k of Some (v, Suc (Suc n)) \<Rightarrow> Some (v, Suc n) | _ \<Rightarrow> None)"

interpretation mem: redis_store mem_get mem_setex mem_tick
  by unfold_locales (auto simp: mem_get_def mem_setex_def mem_tick_def split: option.splits nat.splits)

section \<open>The endpoint\<close>

record route_response =
  ordered_waypoints :: "waypoint list"
  total_distance_km :: real
  cached :: bool

definition compute_route :: "real \<Rightarrow> real \<Rightarrow> waypoint list \<Rightarrow> route" where
  "compute_route depot_lat depot_lon wps =
     (let depot = \<lparr>wid = 0, lat = depot_lat, lon = depot_lon\<rparr>;
          ordered = nearest_neighbor_route depot wps
      in (ordered, total_route_distance depot ordered))"

definition optimise_route ::
  "(real \<times> real \<times> (real \<times> real) list \<Rightarrow> string) \<Rightarrow> ('s \<Rightarrow> string \<Rightarrow> route option)
   \<Rightarrow> ('s \<Rightarrow> string \<Rightarrow> nat \<Rightarrow> route \<Rightarrow> 's) \<Rightarrow> 's option \<Rightarrow> real \<Rightarrow> real \<Rightarrow> waypoint list \<Rightarrow> 's option \<times> route_response" where
  "optimise_route hash rget rsetex cache depot_lat depot_lon wps =
     (let cache_key = make_key hash depot_lat depot_lon wps
      in case rc_get rget cache cache_key of
           Some (ordered, distance) \<Rightarrow>
             (cache, \<lparr>ordered_waypoints = ordered, total_distance_km = distance, cached = True\<rparr>)
         | None \<Rightarrow>
             (let (ordered, distance) = compute_route depot_lat depot_lon wps
              in (rc_set rsetex cache cache_key (ordered, distance),
                  \<lparr>ordered_waypoints = ordered, total_distance_km = distance, cached = False\<rparr>)))"

text \<open>The request with its authorisation.\<close>

definition post_route ::
  "(int \<Rightarrow> 't \<Rightarrow> jwt_error + payload) \<Rightarrow> int \<Rightarrow> 't option
   \<Rightarrow> (real \<times> real \<times> (real \<times> real) list \<Rightarrow> string) \<Rightarrow> ('s \<Rightarrow> string \<Rightarrow> route option)
   \<Rightarrow> ('s \<Rightarrow> string \<Rightarrow> nat \<Rightarrow> route \<Rightarrow> 's) \<Rightarrow> 's option \<Rightarrow> real \<Rightarrow> real \<Rightarrow> waypoint list
   \<Rightarrow> 's option \<times> (auth_error, route_response) response" where
  "post_route dec now cred hash rget rsetex cache depot_lat depot_lon wps =
     (case require_dispatcher dec now cred of
        Inl e \<Rightarrow> (cache, Inl e)
      | Inr _ \<Rightarrow>
          (let (cache', r) = optimise_route hash rget rsetex cache depot_lat depot_lon wps in (cache', Inr r)))"

section \<open>What the cached endpoint promises\<close>

text \<open>
  Every entry is the route computed for some request of the set \<open>D\<close> (a depot and sorted coordinates),
  stored under that request's key.
\<close>

definition cache_ok ::
  "(real \<times> real \<times> (real \<times> real) list \<Rightarrow> string) \<Rightarrow> (real \<times> real \<times> (real \<times> real) list) set
   \<Rightarrow> ('s \<Rightarrow> string \<Rightarrow> route option) \<Rightarrow> 's option \<Rightarrow> bool" where
  "cache_ok hash D rget cache \<longleftrightarrow>
     (\<forall>k v. rc_get rget cache k = Some v \<longrightarrow>
        (\<exists>la lo wps. (la, lo, sort (map coords wps)) \<in> D \<and> k = make_key hash la lo wps \<and>
           v = compute_route la lo wps))"

lemma make_key_inj:
  assumes "inj_on hash D" and "(la, lo, sort (map coords wps)) \<in> D" and "(la', lo', sort (map coords wps')) \<in> D"
    and "make_key hash la lo wps = make_key hash la' lo' wps'"
  shows "la = la' \<and> lo = lo' \<and> image_mset coords (mset wps) = image_mset coords (mset wps')"
proof -
  from assms have "(la, lo, sort (map coords wps)) = (la', lo', sort (map coords wps'))"
    by (auto simp: make_key_def dest: inj_onD)
  then show ?thesis by (metis mset_map mset_sort prod.inject)
qed

lemma cache_ok_set:
  assumes "redis_store rget rsetex tick" and "cache_ok hash D rget cache" and "(la, lo, sort (map coords wps)) \<in> D"
  shows "cache_ok hash D rget (rc_set rsetex cache (make_key hash la lo wps) (compute_route la lo wps))"
  unfolding cache_ok_def
proof (intro allI impI)
  fix k v
  assume "rc_get rget (rc_set rsetex cache (make_key hash la lo wps) (compute_route la lo wps)) k = Some v"
  from redis_store.rc_get_set [OF assms(1) this]
  show "\<exists>la lo wps. (la, lo, sort (map coords wps)) \<in> D \<and> k = make_key hash la lo wps \<and>
      v = compute_route la lo wps"
  proof
    assume "k = make_key hash la lo wps \<and> v = compute_route la lo wps"
    with assms(3) show ?thesis by blast
  next
    assume "rc_get rget cache k = Some v"
    with assms(2) show ?thesis unfolding cache_ok_def by blast
  qed
qed

lemma cache_ok_tick:
  assumes "redis_store rget rsetex tick" and "cache_ok hash D rget cache"
  shows "cache_ok hash D rget (map_option tick cache)"
  unfolding cache_ok_def
proof (intro allI impI)
  fix k v
  assume "rc_get rget (map_option tick cache) k = Some v"
  then have "rc_get rget cache k = Some v"
    using redis_store.get_tick [OF assms(1), of _ k v] by (cases cache) (simp_all add: rc_get_def)
  with assms(2) show "\<exists>la lo wps. (la, lo, sort (map coords wps)) \<in> D \<and> k = make_key hash la lo wps \<and>
      v = compute_route la lo wps"
    unfolding cache_ok_def by blast
qed

lemma compute_route_spec:
  assumes "compute_route la lo wps = (ordered, km)"
  shows "mset ordered = mset wps \<and> greedy \<lparr>wid = 0, lat = la, lon = lo\<rparr> ordered \<and>
    km = total_route_distance \<lparr>wid = 0, lat = la, lon = lo\<rparr> ordered"
  using assms mset_nn_loop greedy_nn_loop by (auto simp: compute_route_def nn_route_eq Let_def)

text \<open>
  C8. With a cache of computed routes, whether hit, missed, partly expired or absent, and provided the hash has
  no collision among the requests made, the answer is a nearest-neighbour tour from the requested
  depot through exactly the requested coordinates, with its own length; and the cache stays one of
  computed routes, also after entries expire. Requests that list the same stops in another order
  share an entry.
\<close>

theorem optimise_route_correct:
  assumes "redis_store rget rsetex tick" and "inj_on hash D" and "(la, lo, sort (map coords wps)) \<in> D"
    and "cache_ok hash D rget cache" and "optimise_route hash rget rsetex cache la lo wps = (cache', r)"
  shows "image_mset coords (mset (ordered_waypoints r)) = image_mset coords (mset wps) \<and>
    greedy \<lparr>wid = 0, lat = la, lon = lo\<rparr> (ordered_waypoints r) \<and>
    total_distance_km r = total_route_distance \<lparr>wid = 0, lat = la, lon = lo\<rparr> (ordered_waypoints r) \<and>
    cache_ok hash D rget cache' \<and> cache_ok hash D rget (map_option tick cache') \<and>
    (mset wps' = mset wps \<longrightarrow> make_key hash la lo wps' = make_key hash la lo wps)"
proof -
  have key: "make_key hash la lo wps' = make_key hash la lo wps" if "mset wps' = mset wps"
  proof -
    have "mset (sort (map coords wps)) = mset (map coords wps')" using that by simp
    then have "sort (map coords wps') = sort (map coords wps)" by (rule properties_for_sort) simp
    then show ?thesis by (simp add: make_key_def)
  qed
  show ?thesis
  proof (cases "rc_get rget cache (make_key hash la lo wps)")
    case None
    obtain ordered km where c: "compute_route la lo wps = (ordered, km)" by (cases "compute_route la lo wps")
    with None assms(5) have "cache' = rc_set rsetex cache (make_key hash la lo wps) (compute_route la lo wps)"
      and "ordered_waypoints r = ordered" and "total_distance_km r = km"
      by (auto simp: optimise_route_def Let_def)
    with cache_ok_set [OF assms(1,4,3)] cache_ok_tick [OF assms(1)] compute_route_spec [OF c] key
    show ?thesis by simp
  next
    case (Some v)
    obtain ordered km where v: "v = (ordered, km)" by (cases v)
    from Some assms(4) obtain la' lo' ws where hit: "(la', lo', sort (map coords ws)) \<in> D"
      "make_key hash la lo wps = make_key hash la' lo' ws" "v = compute_route la' lo' ws"
      unfolding cache_ok_def by blast
    from make_key_inj [OF assms(2,3) hit(1,2)]
    have same: "la' = la" "lo' = lo" "image_mset coords (mset ws) = image_mset coords (mset wps)" by auto
    from compute_route_spec [of la lo ws ordered km] hit(3) v same
    have "mset ordered = mset ws" "greedy \<lparr>wid = 0, lat = la, lon = lo\<rparr> ordered"
      "km = total_route_distance \<lparr>wid = 0, lat = la, lon = lo\<rparr> ordered" by auto
    moreover have "cache' = cache" "ordered_waypoints r = ordered" "total_distance_km r = km"
      using Some v assms(5) by (auto simp: optimise_route_def)
    ultimately show ?thesis
      using same(3) assms(4) cache_ok_tick [OF assms(1)] key by simp
  qed
qed

text \<open>
  The key leaves the ids out: a request for the same coordinates under other ids is answered
  from the cache with the ids of the earlier request, none of which it may have asked for.
\<close>

theorem cached_route_has_other_ids:
  assumes "redis_store rget rsetex tick" and "cache \<noteq> None"
    and "rc_get rget cache (make_key hash la lo wps1) = None"
    and "map coords wps2 = map coords wps1"
    and "optimise_route hash rget rsetex cache la lo wps1 = (cache1, r1)"
    and "optimise_route hash rget rsetex cache1 la lo wps2 = (cache2, r2)"
  shows "cached r2 \<and> ordered_waypoints r2 = ordered_waypoints r1 \<and>
    wid ` set (ordered_waypoints r2) = wid ` set wps1"
proof -
  let ?k = "make_key hash la lo wps1"
  obtain ordered km where c: "compute_route la lo wps1 = (ordered, km)"
    by (cases "compute_route la lo wps1")
  have 1: "cache1 = rc_set rsetex cache ?k (ordered, km)" "ordered_waypoints r1 = ordered"
    using assms(3,5) c by (auto simp: optimise_route_def Let_def)
  have "make_key hash la lo wps2 = ?k" using assms(4) by (simp add: make_key_def)
  then have "rc_get rget cache1 (make_key hash la lo wps2) = Some (ordered, km)"
    using redis_store.rc_hit [OF assms(1,2)] 1(1) by simp
  with assms(6) have "cached r2" "ordered_waypoints r2 = ordered"
    by (auto simp: optimise_route_def)
  with 1(2) compute_route_spec [OF c] show ?thesis by (metis set_mset_mset)
qed

definition one_stop :: "int \<Rightarrow> waypoint list" where
  "one_stop i = [\<lparr>wid = i, lat = 48, lon = 2\<rparr>]"

theorem optimise_route_correct_witness:
  "greedy \<lparr>wid = 0, lat = 51, lon = 0\<rparr>
     (ordered_waypoints (snd (optimise_route (\<lambda>_. ''h'') mem_get mem_setex (Some Map.empty) 51 0 (one_stop 1))))"
proof -
  obtain c r where o: "optimise_route (\<lambda>_. ''h'') mem_get mem_setex (Some Map.empty) 51 0 (one_stop 1) = (c, r)"
    by fastforce
  have "cache_ok (\<lambda>_. ''h'') {(51, 0, sort (map coords (one_stop 1)))} mem_get (Some Map.empty)"
    by (simp add: cache_ok_def rc_get_def mem_get_def)
  from optimise_route_correct [OF mem.redis_store_axioms _ _ this o] show ?thesis
    by (simp add: o)
qed

theorem cached_route_has_other_ids_witness:
  "wid ` set (ordered_waypoints (snd (optimise_route (\<lambda>_. ''h'') mem_get mem_setex
     (fst (optimise_route (\<lambda>_. ''h'') mem_get mem_setex (Some Map.empty) 51 0 (one_stop 1))) 51 0 (one_stop 2)))) = {1}"
proof -
  let ?o = "optimise_route (\<lambda>_. ''h'') mem_get mem_setex"
  obtain c1 r1 where 1: "?o (Some Map.empty) 51 0 (one_stop 1) = (c1, r1)" by fastforce
  obtain c2 r2 where 2: "?o c1 51 0 (one_stop 2) = (c2, r2)" by fastforce
  have "rc_get mem_get (Some (Map.empty :: string \<rightharpoonup> route \<times> nat)) (make_key (\<lambda>_. ''h'') 51 0 (one_stop 1)) = None"
    by (simp add: rc_get_def mem_get_def)
  moreover have "map coords (one_stop 2) = map coords (one_stop 1)" "wid ` set (one_stop 1) = {1}"
    by (simp_all add: one_stop_def coords_def)
  ultimately have "wid ` set (ordered_waypoints r2) = {1}"
    using cached_route_has_other_ids [OF mem.redis_store_axioms _ _ _ 1 2] by force
  then show ?thesis by (simp add: 1 2)
qed

end
