(* ===== verification/Aws_Events.thy ===== *)
theory Aws_Events
  imports Prelude
begin

text \<open>
  The OEM event API (\<open>aws_sensor_api/app\<close>): request schema (\<open>schemas.py\<close>), repository
  (\<open>repository.py\<close>), S3 archival (\<open>archival.py\<close>) and endpoints with their background tasks
  (\<open>main.py\<close>). UUIDs are 128-bit words drawn by the caller; S3 is a map from keys to bodies whose \<open>put\<close>
  may fail, and a body is kept as the payload whose JSON it is. The database driver may refuse times without a zone
  (\<open>naive_ok\<close> false), as asyncpg does for the column of the table.
\<close>

section \<open>Schema\<close>

record event_create =
  ec_plant :: string
  ec_sensor :: string
  ec_timestamp :: pytime
  ec_value :: real
  ec_unit :: string

definition degree_c :: string where
  "degree_c = [char_of (176::nat), CHR ''C'']"

definition valid_units :: "string list" where
  "valid_units = [''bar'', degree_c, ''rpm'', ''V'', ''A'', ''kPa'', ''Hz'']"

definition event_valid :: "event_create \<Rightarrow> bool" where
  "event_valid p \<longleftrightarrow>
     1 \<le> length (ec_plant p) \<and> length (ec_plant p) \<le> 64 \<and>
     1 \<le> length (ec_sensor p) \<and> length (ec_sensor p) \<le> 64 \<and> ec_unit p \<in> set valid_units"

section \<open>The table and the repository\<close>

record sensor_event =
  ev_id :: uuid
  ev_plant :: string
  ev_sensor :: string
  ev_timestamp :: pytime
  ev_value :: real
  ev_unit :: string
  ev_created :: int
  ev_s3_key :: "string option"

definition insert_event :: "uuid \<Rightarrow> int \<Rightarrow> event_create \<Rightarrow> sensor_event list \<Rightarrow> sensor_event list \<times> sensor_event" where
  "insert_event uuid now p rows =
     (let e = \<lparr>ev_id = uuid, ev_plant = ec_plant p, ev_sensor = ec_sensor p, ev_timestamp = ec_timestamp p,
              ev_value = ec_value p, ev_unit = ec_unit p, ev_created = now, ev_s3_key = None\<rparr>
      in (rows @ [e], e))"

definition get_by_id :: "uuid \<Rightarrow> sensor_event list \<Rightarrow> sensor_event option" where
  "get_by_id uuid rows = find (\<lambda>e. ev_id e = uuid) rows"

text \<open>\<open>if plant_id:\<close> is false for \<open>None\<close> and for the empty string.\<close>

definition truthy :: "string option \<Rightarrow> bool" where
  "truthy s \<longleftrightarrow> s \<noteq> None \<and> s \<noteq> Some []"

definition matches :: "string option \<Rightarrow> string option \<Rightarrow> sensor_event \<Rightarrow> bool" where
  "matches plant sensor e \<longleftrightarrow>
     (truthy plant \<longrightarrow> Some (ev_plant e) = plant) \<and> (truthy sensor \<longrightarrow> Some (ev_sensor e) = sensor)"

definition list_events ::
  "(sensor_event list \<Rightarrow> sensor_event list) \<Rightarrow> string option \<Rightarrow> string option \<Rightarrow> nat \<Rightarrow> nat
   \<Rightarrow> sensor_event list \<Rightarrow> sensor_event list \<times> nat" where
  "list_events order plant sensor limit offset rows =
     (let hits = filter (matches plant sensor) rows in (page limit offset (order hits), length hits))"

definition set_s3_key :: "uuid \<Rightarrow> string \<Rightarrow> sensor_event list \<Rightarrow> sensor_event list" where
  "set_s3_key uuid key rows = map (\<lambda>e. if ev_id e = uuid then e\<lparr>ev_s3_key := Some key\<rparr> else e) rows"

section \<open>Archival\<close>

text \<open>\<open>events/<day>/<plant>/<id>.json\<close>; \<open>show_id\<close> is the text of a UUID.\<close>

definition s3_key :: "(uuid \<Rightarrow> string) \<Rightarrow> string \<Rightarrow> string \<Rightarrow> uuid \<Rightarrow> string" where
  "s3_key show_id today plant uuid = ''events/'' @ today @ ''/'' @ plant @ ''/'' @ show_id uuid @ ''.json''"

definition archive ::
  "(uuid \<Rightarrow> string) \<Rightarrow> string \<Rightarrow> bool \<Rightarrow> uuid \<Rightarrow> string \<Rightarrow> event_create
   \<Rightarrow> (string \<rightharpoonup> event_create) \<Rightarrow> (string \<rightharpoonup> event_create) \<times> string option" where
  "archive show_id today put_ok uuid plant payload s3 =
     (let key = s3_key show_id today plant uuid
      in if put_ok then (s3(key \<mapsto> payload), Some key) else (s3, None))"

definition get_raw :: "string \<Rightarrow> (string \<rightharpoonup> event_create) \<Rightarrow> event_create option" where
  "get_raw key s3 = s3 key"

section \<open>The application\<close>

text \<open>\<open>pending\<close> are the background tasks not yet run.\<close>

record aws_app =
  rows :: "sensor_event list"
  s3 :: "string \<rightharpoonup> event_create"
  pending :: "(uuid \<times> string \<times> event_create) list"

datatype aws_error = EventNotFound uuid | InvalidEvent | DatabaseError

definition create_event :: "uuid \<Rightarrow> int \<Rightarrow> bool \<Rightarrow> event_create \<Rightarrow> aws_app \<Rightarrow> aws_app \<times> (aws_error, sensor_event) response" where
  "create_event uuid now naive_ok p app =
     (if \<not> event_valid p then (app, Inl (HTTPException 422 InvalidEvent))
      else if is_naive (ec_timestamp p) \<and> \<not> naive_ok then (app, Inl (HTTPException 500 DatabaseError))
      else let (rows', e) = insert_event uuid now p (rows app)
           in (app\<lparr>rows := rows', pending := pending app @ [(uuid, ec_plant p, p)]\<rparr>, Inr e))"

definition archive_and_update ::
  "(uuid \<Rightarrow> string) \<Rightarrow> string \<Rightarrow> bool \<Rightarrow> uuid \<times> string \<times> event_create \<Rightarrow> aws_app \<Rightarrow> aws_app" where
  "archive_and_update show_id today put_ok task app =
     (let (uuid, plant, payload) = task; (s3', key) = archive show_id today put_ok uuid plant payload (s3 app)
      in case key of None \<Rightarrow> app\<lparr>s3 := s3'\<rparr>
                   | Some k \<Rightarrow> app\<lparr>s3 := s3', rows := set_s3_key uuid k (rows app)\<rparr>)"

definition get_event :: "uuid \<Rightarrow> aws_app \<Rightarrow> (aws_error, sensor_event) response" where
  "get_event uuid app =
     (case get_by_id uuid (rows app) of None \<Rightarrow> Inl (HTTPException 404 (EventNotFound uuid)) | Some e \<Rightarrow> Inr e)"

record paginated_events =
  pe_items :: "sensor_event list"
  pe_total :: nat
  pe_limit :: int
  pe_offset :: int

text \<open>The listing endpoint does not validate its numbers; the database refuses a negative limit or offset.\<close>

definition get_events ::
  "(sensor_event list \<Rightarrow> sensor_event list) \<Rightarrow> string option \<Rightarrow> string option \<Rightarrow> int \<Rightarrow> int \<Rightarrow> aws_app
   \<Rightarrow> (aws_error, paginated_events) response" where
  "get_events order plant sensor limit offset app =
     (if limit < 0 \<or> offset < 0 then Inl (HTTPException 500 DatabaseError)
      else let (items, total) = list_events order plant sensor (nat limit) (nat offset) (rows app)
           in Inr \<lparr>pe_items = items, pe_total = total, pe_limit = limit, pe_offset = offset\<rparr>)"

text \<open>
  A step: a request creates an event with a new id, or one of the pending tasks runs, on some day
  and with or without success at S3.
\<close>

inductive aws_step :: "(uuid \<Rightarrow> string) \<Rightarrow> aws_app \<Rightarrow> aws_app \<Rightarrow> bool" for show_id where
  Create: "uuid \<notin> ev_id ` set (rows app) \<Longrightarrow> aws_step show_id app (fst (create_event uuid now naive_ok p app))"
| Task: "i < length (pending app) \<Longrightarrow>
    aws_step show_id app (archive_and_update show_id today put_ok (pending app ! i)
      (app\<lparr>pending := pop_at i (pending app)\<rparr>))"

inductive_cases aws_stepE: "aws_step show_id app app'"

definition aws_init :: aws_app where
  "aws_init = \<lparr>rows = [], s3 = Map.empty, pending = []\<rparr>"

section \<open>The archive agrees with the table\<close>

definition event_data :: "sensor_event \<Rightarrow> event_create" where
  "event_data e = \<lparr>ec_plant = ev_plant e, ec_sensor = ev_sensor e, ec_timestamp = ev_timestamp e,
     ec_value = ev_value e, ec_unit = ev_unit e\<rparr>"

text \<open>
  Table and archive agree: an event that carries a key has its data under it, and every object in S3 is the
  data of the event its key names.
\<close>

definition archived :: "(uuid \<Rightarrow> string) \<Rightarrow> sensor_event list \<Rightarrow> (string \<rightharpoonup> event_create) \<Rightarrow> bool" where
  "archived show_id rs s \<longleftrightarrow>
     (\<forall>e\<in>set rs. \<forall>k. ev_s3_key e = Some k \<longrightarrow>
        s k = Some (event_data e) \<and> (\<exists>day. k = s3_key show_id day (ev_plant e) (ev_id e))) \<and>
     (\<forall>k v. s k = Some v \<longrightarrow>
        (\<exists>e\<in>set rs. \<exists>day. k = s3_key show_id day (ev_plant e) (ev_id e) \<and> v = event_data e))"

text \<open>Each task belongs to one event without a key.\<close>

definition tasks_ok :: "sensor_event list \<Rightarrow> (uuid \<times> string \<times> event_create) list \<Rightarrow> bool" where
  "tasks_ok rs ts \<longleftrightarrow> distinct (map fst ts) \<and>
     (\<forall>(u, plant, p)\<in>set ts. \<exists>e\<in>set rs. ev_id e = u \<and> ev_s3_key e = None \<and> event_data e = p \<and> plant = ev_plant e)"

definition aws_inv :: "(uuid \<Rightarrow> string) \<Rightarrow> aws_app \<Rightarrow> bool" where
  "aws_inv show_id app \<longleftrightarrow>
     distinct (map ev_id (rows app)) \<and> (\<forall>e\<in>set (rows app). event_valid (event_data e)) \<and>
     archived show_id (rows app) (s3 app) \<and> tasks_ok (rows app) (pending app)"

text \<open>The text of a UUID is unique and of fixed length.\<close>

definition uuid_text :: "(uuid \<Rightarrow> string) \<Rightarrow> bool" where
  "uuid_text show_id \<longleftrightarrow> inj show_id \<and> (\<forall>u v. length (show_id u) = length (show_id v))"

lemma s3_key_inj:
  assumes "uuid_text show_id" and "s3_key show_id day p u = s3_key show_id day' p' u'"
  shows "u = u'"
proof -
  have suffix: "s3_key show_id d q v = (''events/'' @ d @ ''/'' @ q @ ''/'') @ (show_id v @ ''.json'')" for d q v
    by (simp add: s3_key_def)
  have "length (show_id u @ ''.json'') = length (show_id u' @ ''.json'')"
    using assms(1) unfolding uuid_text_def length_append by (metis add_right_cancel)
  with assms(2) have "show_id u @ ''.json'' = show_id u' @ ''.json''"
    unfolding suffix using append_eq_append_conv by blast
  then show ?thesis using assms(1) by (auto simp: uuid_text_def dest: injD)
qed

lemma event_data_key [simp]: "event_data (e\<lparr>ev_s3_key := k\<rparr>) = event_data e"
  by (simp add: event_data_def)

lemma set_s3_key_simps:
  "map ev_id (set_s3_key u k rs) = map ev_id rs"
  "map event_data (set_s3_key u k rs) = map event_data rs"
  "map ev_plant (set_s3_key u k rs) = map ev_plant rs"
  by (auto simp: set_s3_key_def)

lemma in_set_s3_key:
  assumes "distinct (map ev_id rs)" and "e \<in> set rs"
  shows "f \<in> set (set_s3_key (ev_id e) k rs) \<longleftrightarrow> f = e\<lparr>ev_s3_key := Some k\<rparr> \<or> (f \<in> set rs \<and> f \<noteq> e)"
proof -
  have "ev_id x = ev_id e \<longleftrightarrow> x = e" if "x \<in> set rs" for x
    using assms that by (auto simp: distinct_map dest: inj_onD)
  then show ?thesis using assms(2) by (auto simp: set_s3_key_def image_iff)
qed

lemma archived_keyD:
  "archived show_id rs s \<Longrightarrow> e \<in> set rs \<Longrightarrow> ev_s3_key e = Some k \<Longrightarrow>
     s k = Some (event_data e) \<and> (\<exists>day. k = s3_key show_id day (ev_plant e) (ev_id e))"
  by (simp add: archived_def)

lemma archived_objectD:
  assumes "archived show_id rs s" and "s k = Some v"
  obtains e day where "e \<in> set rs" "k = s3_key show_id day (ev_plant e) (ev_id e)" "v = event_data e"
  using assms unfolding archived_def by (elim conjE allE impE) (assumption, blast)

text \<open>A successful upload: the event gets its key, which no other event has, and the object its data.\<close>

lemma other_key:
  assumes "archived show_id rs s" and "uuid_text show_id" and "distinct (map ev_id rs)" and "e \<in> set rs"
    and "f \<in> set rs" and "f \<noteq> e" and "ev_s3_key f = Some x"
  shows "x \<noteq> s3_key show_id day (ev_plant e) (ev_id e)"
proof -
  have "ev_id f \<noteq> ev_id e" using assms(3-6) by (auto simp: distinct_map dest: inj_onD)
  moreover obtain day' where "x = s3_key show_id day' (ev_plant f) (ev_id f)"
    using archived_keyD [OF assms(1,5,7)] by blast
  ultimately show ?thesis using s3_key_inj [OF assms(2)] by metis
qed

lemma archived_put:
  fixes day :: string
  assumes "archived show_id rs s" and "uuid_text show_id" and "distinct (map ev_id rs)" and "e \<in> set rs"
  defines "k \<equiv> s3_key show_id day (ev_plant e) (ev_id e)"
  shows "archived show_id (set_s3_key (ev_id e) k rs) (s(k \<mapsto> event_data e))"
proof -
  note mem = in_set_s3_key [OF assms(3,4), of _ k]
  have new: "e\<lparr>ev_s3_key := Some k\<rparr> \<in> set (set_s3_key (ev_id e) k rs)" by (simp add: mem)
  have "(s(k \<mapsto> event_data e)) x = Some (event_data f) \<and> (\<exists>day. x = s3_key show_id day (ev_plant f) (ev_id f))"
    if f: "f \<in> set (set_s3_key (ev_id e) k rs)" "ev_s3_key f = Some x" for f x
  proof (cases "f = e\<lparr>ev_s3_key := Some k\<rparr>")
    case True
    then show ?thesis using f(2) k_def by auto
  next
    case False
    then have f': "f \<in> set rs" "f \<noteq> e" using f(1) by (auto simp: mem)
    then show ?thesis
      using archived_keyD [OF assms(1) f'(1) f(2)] other_key [OF assms(1-4) f' f(2), of day] by (simp add: k_def)
  qed
  moreover have "\<exists>f\<in>set (set_s3_key (ev_id e) k rs). \<exists>day. x = s3_key show_id day (ev_plant f) (ev_id f) \<and> v = event_data f"
    if x: "(s(k \<mapsto> event_data e)) x = Some v" for x v
  proof (cases "x = k")
    case True
    then show ?thesis using x by (intro bexI [OF _ new]) (auto simp: k_def)
  next
    case False
    then obtain f day where f: "f \<in> set rs" "x = s3_key show_id day (ev_plant f) (ev_id f)" "v = event_data f"
      using archived_objectD [OF assms(1), of x v] x by auto
    then show ?thesis
      by (cases "f = e") (intro bexI [OF _ new] exI [of _ day], simp, auto simp: mem)
  qed
  ultimately show ?thesis unfolding archived_def by blast
qed

lemma tasks_ok_pop:
  assumes "tasks_ok rs ts" and "i < length ts" and "ts ! i = (ev_id e, plant, p)" and "distinct (map ev_id rs)" and "e \<in> set rs"
  shows "tasks_ok rs (pop_at i ts)" and "tasks_ok (set_s3_key (ev_id e) k rs) (pop_at i ts)"
proof -
  have dis: "distinct (map fst (pop_at i ts))" "ev_id e \<notin> fst ` set (pop_at i ts)"
    using distinct_pop_at [of fst ts i] assms(1-3) by (auto simp: tasks_ok_def)
  have old: "\<exists>f\<in>set rs. ev_id f = v \<and> ev_s3_key f = None \<and> event_data f = q \<and> pl = ev_plant f"
    if "(v, pl, q) \<in> set (pop_at i ts)" for v pl q
  proof -
    have "(v, pl, q) \<in> set ts" using that set_pop_at [of i ts] by (rule rev_subsetD)
    with assms(1) show ?thesis unfolding tasks_ok_def by auto
  qed
  then show "tasks_ok rs (pop_at i ts)" using dis by (auto simp: tasks_ok_def)
  have "\<exists>f\<in>set (set_s3_key (ev_id e) k rs). ev_id f = v \<and> ev_s3_key f = None \<and> event_data f = q \<and> pl = ev_plant f"
    if t: "(v, pl, q) \<in> set (pop_at i ts)" for v pl q
  proof -
    obtain f where f: "f \<in> set rs" "ev_id f = v" "ev_s3_key f = None" "event_data f = q" "pl = ev_plant f"
      using old [OF t] by blast
    moreover have "f \<noteq> e" using f(2) dis(2) t by force
    ultimately show ?thesis using in_set_s3_key [OF assms(4,5)] by blast
  qed
  then show "tasks_ok (set_s3_key (ev_id e) k rs) (pop_at i ts)" using dis(1) by (auto simp: tasks_ok_def)
qed

lemma inv_create:
  assumes "aws_inv show_id app" and "uuid \<notin> ev_id ` set (rows app)"
  shows "aws_inv show_id (fst (create_event uuid now naive_ok p app))"
proof (cases "event_valid p \<and> (naive_ok \<or> \<not> is_naive (ec_timestamp p))")
  case True
  have "uuid \<notin> fst ` set (pending app)"
    using assms by (fastforce simp: aws_inv_def tasks_ok_def)
  moreover have "event_data \<lparr>ev_id = uuid, ev_plant = ec_plant p, ev_sensor = ec_sensor p,
      ev_timestamp = ec_timestamp p, ev_value = ec_value p, ev_unit = ec_unit p, ev_created = now,
      ev_s3_key = None\<rparr> = p"
    by (simp add: event_data_def)
  ultimately show ?thesis using assms True
    unfolding aws_inv_def archived_def tasks_ok_def create_event_def insert_event_def
    by (fastforce simp: Let_def)
next
  case False
  with assms show ?thesis by (auto simp: create_event_def)
qed

lemma inv_task:
  assumes "aws_inv show_id app" and "uuid_text show_id" and "i < length (pending app)"
  shows "aws_inv show_id (archive_and_update show_id today put_ok (pending app ! i)
      (app\<lparr>pending := pop_at i (pending app)\<rparr>))"
proof -
  obtain u plant p where task: "pending app ! i = (u, plant, p)" by (cases "pending app ! i")
  then have "(u, plant, p) \<in> set (pending app)" using assms(3) nth_mem by metis
  then obtain e where e: "e \<in> set (rows app)" "u = ev_id e" "p = event_data e" "plant = ev_plant e"
    using assms(1) unfolding aws_inv_def tasks_ok_def by blast
  have inv: "distinct (map ev_id (rows app))" "\<forall>e\<in>set (rows app). event_valid (event_data e)"
    "archived show_id (rows app) (s3 app)" "tasks_ok (rows app) (pending app)"
    using assms(1) by (simp_all add: aws_inv_def)
  note popped = tasks_ok_pop [OF inv(4) assms(3) task [unfolded e(2)] inv(1) e(1)]
  show ?thesis
  proof (cases put_ok)
    case False
    then show ?thesis using inv popped(1) task by (simp add: aws_inv_def archive_and_update_def archive_def Let_def)
  next
    case True
    let ?k = "s3_key show_id today (ev_plant e) (ev_id e)"
    have "\<forall>f\<in>set (set_s3_key (ev_id e) ?k (rows app)). event_valid (event_data f)"
      using inv(2) set_s3_key_simps(2) [of "ev_id e" ?k "rows app"] by (metis (no_types, lifting) image_iff list.set_map)
    then show ?thesis
      using True task e(2-4) inv(1) set_s3_key_simps(1) [of "ev_id e" ?k "rows app"] popped(2)
        archived_put [OF inv(3) assms(2) inv(1) e(1)]
      by (simp add: aws_inv_def archive_and_update_def archive_def Let_def)
  qed
qed

lemma aws_step_inv:
  assumes "uuid_text show_id" and "aws_step show_id app app'" and "aws_inv show_id app"
  shows "aws_inv show_id app'"
  using assms(2)
proof cases
  case (Create uuid now naive_ok p)
  with assms(3) show ?thesis by (simp add: inv_create)
next
  case (Task i today put_ok)
  with assms(1,3) show ?thesis by (simp add: inv_task)
qed

lemma aws_reachable_inv:
  assumes "uuid_text show_id" and "(aws_step show_id)\<^sup>*\<^sup>* aws_init app"
  shows "aws_inv show_id app"
  using assms(2)
proof (induction rule: rtranclp_induct)
  case base
  show ?case by (simp add: aws_inv_def aws_init_def archived_def tasks_ok_def)
next
  case (step app app')
  with assms(1) show ?case by (blast intro: aws_step_inv)
qed

text \<open>
  C9. Archival is consistent under every interleaving of requests and background tasks, whichever
  uploads fail: an event that carries an S3 key is found in S3 under it with exactly the data of the
  event, the key names its own id, every object in S3 belongs to a stored event, and all stored
  events satisfy the schema.
\<close>

theorem archive_consistent:
  assumes "uuid_text show_id" and "(aws_step show_id)\<^sup>*\<^sup>* aws_init app"
  shows "(\<forall>e\<in>set (rows app). event_valid (event_data e) \<and>
      get_event (ev_id e) app = Inr e \<and>
      (case ev_s3_key e of None \<Rightarrow> True
       | Some k \<Rightarrow> get_raw k (s3 app) = Some (event_data e) \<and>
           (\<exists>day. k = s3_key show_id day (ev_plant e) (ev_id e)))) \<and>
    (\<forall>k v. get_raw k (s3 app) = Some v \<longrightarrow> v \<in> event_data ` set (rows app))"
proof -
  have inv: "aws_inv show_id app" by (rule aws_reachable_inv [OF assms])
  have "get_event (ev_id e) app = Inr e" if "e \<in> set (rows app)" for e
  proof -
    have "distinct (map ev_id (rows app))" using inv by (simp add: aws_inv_def)
    then have "find (\<lambda>x. ev_id x = ev_id e) (rows app) = Some e"
      using that by (rule find_distinct)
    then show ?thesis by (simp add: get_event_def get_by_id_def)
  qed
  moreover have "\<forall>k v. s3 app k = Some v \<longrightarrow> v \<in> event_data ` set (rows app)"
    using inv unfolding aws_inv_def archived_def by blast
  moreover have "\<forall>e\<in>set (rows app). event_valid (event_data e) \<and> (case ev_s3_key e of None \<Rightarrow> True
       | Some k \<Rightarrow> s3 app k = Some (event_data e) \<and> (\<exists>day. k = s3_key show_id day (ev_plant e) (ev_id e)))"
    using inv unfolding aws_inv_def archived_def by (auto split: option.split)
  ultimately show ?thesis unfolding get_raw_def by blast
qed

definition bits_text :: "uuid \<Rightarrow> string" where
  "bits_text u = map (\<lambda>i. if bit u i then CHR ''1'' else CHR ''0'') [0..<128]"

lemma uuid_text_bits: "uuid_text bits_text"
proof -
  have "inj bits_text"
  proof (rule injI)
    fix u v assume "bits_text u = bits_text v"
    then have "\<forall>i<128. bit u i = bit v i"
      unfolding bits_text_def map_eq_conv by (auto split: if_splits)
    then show "u = v" by (intro bit_word_eqI) simp
  qed
  then show ?thesis by (simp add: uuid_text_def bits_text_def)
qed

definition sample_create :: event_create where
  "sample_create = \<lparr>ec_plant = ''PLT-001'', ec_sensor = ''TEMP-A'', ec_timestamp = Aware 5, ec_value = 85, ec_unit = ''bar''\<rparr>"

theorem archive_consistent_witness:
  "map (event_valid \<circ> event_data) (rows (fst (create_event 7 9 False sample_create aws_init))) = [True]"
proof -
  let ?app = "fst (create_event 7 9 False sample_create aws_init)"
  have "aws_step bits_text aws_init (fst (create_event 7 9 False sample_create aws_init))"
    by (rule aws_step.Create) (simp add: aws_init_def)
  then have "(aws_step bits_text)\<^sup>*\<^sup>* aws_init (fst (create_event 7 9 False sample_create aws_init))" by blast
  from archive_consistent [OF uuid_text_bits this]
  have "\<forall>e\<in>set (rows ?app). event_valid (event_data e)" by blast
  moreover have "event_valid sample_create" by (simp add: event_valid_def sample_create_def valid_units_def)
  then obtain e where e: "rows ?app = [e]"
    by (simp add: create_event_def insert_event_def Let_def aws_init_def sample_create_def)
  ultimately have "event_valid (event_data e)" by (simp only: list.set insert_iff ball_simps)
  then show ?thesis unfolding e by (simp only: list.map comp_apply)
qed

text \<open>
  Listing: \<open>total\<close> counts every matching event whatever the page; the pages of \<open>l\<close> events joined
  together are all the matching events once each, newest first; and an empty filter string selects
  everything, like an absent one.
\<close>

theorem list_events_pages:
  assumes "\<And>xs. mset (order xs) = mset xs" and "0 < l"
  shows "snd (list_events order plant sensor l k evs) = length (filter (matches plant sensor) evs) \<and>
    mset (concat (map (\<lambda>i. fst (list_events order plant sensor l (i * l) evs))
        [0..<length (filter (matches plant sensor) evs)])) = mset (filter (matches plant sensor) evs) \<and>
    list_events order (Some []) (Some []) l k evs = list_events order None None l k evs"
proof -
  let ?hits = "filter (matches plant sensor) evs"
  have len: "length (order ?hits) = length ?hits" using assms(1) by (metis size_mset)
  have "concat (map (\<lambda>i. fst (list_events order plant sensor l (i * l) evs)) [0..<length ?hits]) =
      take (length ?hits * l) (order ?hits)"
    by (simp add: list_events_def Let_def pages_partition)
  also have "\<dots> = order ?hits" using assms(2) len by simp
  finally have "mset (concat (map (\<lambda>i. fst (list_events order plant sensor l (i * l) evs)) [0..<length ?hits])) =
      mset ?hits" using assms(1) by simp
  moreover have "matches (Some []) (Some []) = matches None None" by (auto simp: matches_def truthy_def)
  ultimately show ?thesis by (simp add: list_events_def Let_def)
qed

theorem list_events_pages_witness:
  "snd (list_events id (Some ''PLT-001'') None 1 0 (rows (fst (create_event 7 9 False sample_create aws_init)))) =
     length (filter (matches (Some ''PLT-001'') None) (rows (fst (create_event 7 9 False sample_create aws_init))))"
  using list_events_pages [of id 1 "Some ''PLT-001''" None 0 "rows (fst (create_event 7 9 False sample_create aws_init))"]
  by simp

end
