(* ===== verification/Slm_Features.thy ===== *)
theory Slm_Features
  imports Prelude
begin

text \<open>
  Feature extraction of the machine analytics API
  (\<open>slm_sensor_analytics/app/services/features.py\<close>). NumPy and SciPy are a parameter, of which the
  model relies on the documented results; a kurtosis that is not a number is \<open>None\<close>.
\<close>

record numlib =
  np_mean :: "real list \<Rightarrow> real"
  np_std :: "real list \<Rightarrow> real"
  np_max :: "real list \<Rightarrow> real"
  np_min :: "real list \<Rightarrow> real"
  kurtosis :: "real list \<Rightarrow> real option"

definition var_of :: "real list \<Rightarrow> real" where
  "var_of xs = mean_of (map (\<lambda>x. (x - mean_of xs)\<^sup>2) xs)"

text \<open>The documented behaviour: \<open>np.std\<close> divides by the number of values (\<open>ddof = 0\<close>).\<close>

definition numlib_ok :: "numlib \<Rightarrow> bool" where
  "numlib_ok np \<longleftrightarrow> (\<forall>xs. xs \<noteq> [] \<longrightarrow>
     np_mean np xs = mean_of xs \<and> np_std np xs = sqrt (var_of xs) \<and>
     np_max np xs = Max (set xs) \<and> np_min np xs = Min (set xs))"

definition FEATURE_NAMES :: "string list" where
  "FEATURE_NAMES = [''mean'', ''std'', ''rms'', ''peak_to_peak'', ''kurtosis'']"

record features =
  f_mean :: real
  f_std :: real
  f_rms :: real
  f_p2p :: real
  f_kurt :: real

definition as_list :: "features \<Rightarrow> real list" where
  "as_list f = [f_mean f, f_std f, f_rms f, f_p2p f, f_kurt f]"

datatype feature_error = TooFewValues

definition extract_features :: "numlib \<Rightarrow> real list \<Rightarrow> feature_error + features" where
  "extract_features np vs =
     (if length vs < 2 then Inl TooFewValues
      else Inr \<lparr>f_mean = np_mean np vs,
                f_std = np_std np vs,
                f_rms = sqrt (np_mean np (map (\<lambda>x. x\<^sup>2) vs)),
                f_p2p = np_max np vs - np_min np vs,
                f_kurt = (if 4 \<le> length vs
                          then (case kurtosis np vs of None \<Rightarrow> 0 | Some k \<Rightarrow> k) else 0)\<rparr>)"

section \<open>How the features are related\<close>

lemma sum_list_shift: "sum_list (map (\<lambda>x. x - c) xs) = sum_list xs - real (length xs) * c" for c :: real
  by (induction xs) (auto simp: algebra_simps)

lemma sum_sq_shift:
  "sum_list (map (\<lambda>x. (x - c)\<^sup>2) xs) =
     sum_list (map (\<lambda>x. x\<^sup>2) xs) - 2 * c * sum_list xs + real (length xs) * c\<^sup>2" for c :: real
  by (induction xs) (auto simp: algebra_simps power2_eq_square)

lemma mean_sq_shift:
  "xs \<noteq> [] \<Longrightarrow> mean_of (map (\<lambda>x. (x - c)\<^sup>2) xs) =
     mean_of (map (\<lambda>x. x\<^sup>2) xs) - 2 * c * mean_of xs + c\<^sup>2" for c :: real
  unfolding mean_of_def length_map sum_sq_shift by (simp add: add_divide_distrib diff_divide_distrib)

lemma var_of_eq: "xs \<noteq> [] \<Longrightarrow> var_of xs = mean_of (map (\<lambda>x. x\<^sup>2) xs) - (mean_of xs)\<^sup>2"
  unfolding var_of_def using mean_sq_shift [of xs "mean_of xs"] by (simp add: power2_eq_square)

lemma sum_list_sq_nonneg: "0 \<le> sum_list (map (\<lambda>x. (g x)\<^sup>2) xs)" for g :: "'a \<Rightarrow> real"
  by (intro sum_list_nonneg) auto

lemma var_of_nonneg: "0 \<le> var_of xs"
  by (simp add: var_of_def mean_of_def sum_list_sq_nonneg)

lemma sum_list_le: "(\<And>x. x \<in> set xs \<Longrightarrow> f x \<le> g x) \<Longrightarrow> sum_list (map f xs) \<le> sum_list (map g xs)"
  for f g :: "'a \<Rightarrow> real"
  by (induction xs) (auto intro: add_mono)

text \<open>The variance is least about the mean.\<close>

lemma var_le_about: "xs \<noteq> [] \<Longrightarrow> var_of xs \<le> mean_of (map (\<lambda>x. (x - c)\<^sup>2) xs)"
proof -
  assume ne: "xs \<noteq> []"
  then have "mean_of (map (\<lambda>x. (x - c)\<^sup>2) xs) = var_of xs + (mean_of xs - c)\<^sup>2"
    unfolding mean_sq_shift [OF ne] var_of_eq [OF ne] by (simp add: power2_eq_square algebra_simps)
  then show ?thesis by simp
qed

text \<open>Popoviciu: the deviation is at most half the range.\<close>

lemma std_le_half_range:
  assumes "xs \<noteq> []"
  shows "sqrt (var_of xs) \<le> (Max (set xs) - Min (set xs)) / 2"
proof -
  let ?M = "Max (set xs)" and ?m = "Min (set xs)"
  let ?c = "(?M + ?m) / 2" and ?r = "(?M - ?m) / 2"
  have fin: "finite (set xs)" "set xs \<noteq> {}" using assms by auto
  have r: "0 \<le> ?r" using fin by simp
  have "(x - ?c)\<^sup>2 \<le> ?r\<^sup>2" if "x \<in> set xs" for x
  proof -
    have "?m \<le> x" "x \<le> ?M" using fin that by auto
    then have "\<bar>x - ?c\<bar> \<le> ?r" by (auto simp: abs_le_iff field_simps)
    then show ?thesis using r by (metis abs_le_square_iff abs_of_nonneg)
  qed
  then have "sum_list (map (\<lambda>x. (x - ?c)\<^sup>2) xs) \<le> sum_list (map (\<lambda>x. ?r\<^sup>2) xs)"
    by (rule sum_list_le)
  then have "mean_of (map (\<lambda>x. (x - ?c)\<^sup>2) xs) \<le> ?r\<^sup>2"
    using assms by (simp add: mean_of_def sum_list_triv divide_le_eq mult.commute)
  with var_le_about [OF assms, of ?c] have "var_of xs \<le> ?r\<^sup>2" by simp
  then have "sqrt (var_of xs) \<le> sqrt (?r\<^sup>2)" by (rule real_sqrt_le_mono)
  then show ?thesis unfolding real_sqrt_abs abs_of_nonneg [OF r] .
qed

lemma var_zero_iff:
  assumes "xs \<noteq> []"
  shows "var_of xs = 0 \<longleftrightarrow> Max (set xs) = Min (set xs)"
proof
  assume "var_of xs = 0"
  then have "sum_list (map (\<lambda>x. (x - mean_of xs)\<^sup>2) xs) = 0"
    using assms by (simp add: var_of_def mean_of_def)
  then have "\<forall>x\<in>set xs. x = mean_of xs"
    by (subst (asm) sum_list_nonneg_eq_0_iff) auto
  then have "set xs = {mean_of xs}" using assms by (cases xs) auto
  then show "Max (set xs) = Min (set xs)" by simp
next
  assume "Max (set xs) = Min (set xs)"
  with std_le_half_range [OF assms] var_of_nonneg [of xs] show "var_of xs = 0"
    by (metis (no_types, opaque_lifting) antisym cancel_comm_monoid_add_class.diff_cancel div_0 real_sqrt_le_0_iff)
qed

text \<open>
  Extraction fails exactly below two values; otherwise the mean square is the square of the mean
  plus that of the deviation, so \<open>|mean|\<close> and \<open>std\<close> are at most \<open>rms\<close>; the deviation (that of the
  population) is at most half the peak-to-peak range, and both vanish together; and the kurtosis
  is 0 when it is undefined or there are fewer than four values.
\<close>

theorem extract_features_spec:
  assumes "numlib_ok np"
  shows "case extract_features np vs of
      Inl e \<Rightarrow> length vs < 2
    | Inr f \<Rightarrow> 2 \<le> length vs \<and> (f_rms f)\<^sup>2 = (f_mean f)\<^sup>2 + (f_std f)\<^sup>2 \<and>
        \<bar>f_mean f\<bar> \<le> f_rms f \<and> 0 \<le> f_std f \<and> f_std f \<le> f_rms f \<and>
        f_std f \<le> f_p2p f / 2 \<and> (f_std f = 0 \<longleftrightarrow> f_p2p f = 0) \<and>
        (length vs < 4 \<or> kurtosis np vs = None \<longrightarrow> f_kurt f = 0)"
proof (cases "length vs < 2")
  case True
  then show ?thesis by (simp add: extract_features_def)
next
  case False
  then have ne: "vs \<noteq> []" by auto
  let ?f = "projr (extract_features np vs)"
  have f: "extract_features np vs = Inr ?f" using False by (simp add: extract_features_def)
  have vals: "f_mean ?f = mean_of vs" "f_std ?f = sqrt (var_of vs)"
    "f_rms ?f = sqrt (mean_of (map (\<lambda>x. x\<^sup>2) vs))" "f_p2p ?f = Max (set vs) - Min (set vs)"
    using False ne assms by (simp_all add: extract_features_def numlib_ok_def)
  have ms: "0 \<le> mean_of (map (\<lambda>x. x\<^sup>2) vs)" by (simp add: mean_of_def sum_list_sq_nonneg)
  then have sq: "(f_rms ?f)\<^sup>2 = (f_mean ?f)\<^sup>2 + (f_std ?f)\<^sup>2"
    using var_of_eq [OF ne] var_of_nonneg [of vs] by (simp add: vals)
  have rms: "0 \<le> f_rms ?f" "0 \<le> f_std ?f" using ms var_of_nonneg by (simp_all add: vals)
  have "\<bar>f_mean ?f\<bar>\<^sup>2 \<le> (f_rms ?f)\<^sup>2" "(f_std ?f)\<^sup>2 \<le> (f_rms ?f)\<^sup>2"
    unfolding sq power2_abs by simp_all
  then have "\<bar>f_mean ?f\<bar> \<le> f_rms ?f" "f_std ?f \<le> f_rms ?f"
    using rms(1) by (blast intro: power2_le_imp_le)+
  moreover have "f_std ?f \<le> f_p2p ?f / 2" using std_le_half_range [OF ne] by (simp add: vals)
  moreover have "f_std ?f = 0 \<longleftrightarrow> f_p2p ?f = 0" using var_zero_iff [OF ne] by (simp add: vals)
  moreover have "length vs < 4 \<or> kurtosis np vs = None \<longrightarrow> f_kurt ?f = 0"
    using False by (auto simp: extract_features_def)
  ultimately have "2 \<le> length vs \<and> (f_rms ?f)\<^sup>2 = (f_mean ?f)\<^sup>2 + (f_std ?f)\<^sup>2 \<and>
        \<bar>f_mean ?f\<bar> \<le> f_rms ?f \<and> 0 \<le> f_std ?f \<and> f_std ?f \<le> f_rms ?f \<and>
        f_std ?f \<le> f_p2p ?f / 2 \<and> (f_std ?f = 0 \<longleftrightarrow> f_p2p ?f = 0) \<and>
        (length vs < 4 \<or> kurtosis np vs = None \<longrightarrow> f_kurt ?f = 0)"
    using False sq rms by simp
  then show ?thesis by (subst f) (unfold sum.case, assumption)
qed

definition exact_np :: numlib where
  "exact_np = \<lparr>np_mean = mean_of, np_std = (\<lambda>xs. sqrt (var_of xs)), np_max = (\<lambda>xs. Max (set xs)),
     np_min = (\<lambda>xs. Min (set xs)), kurtosis = (\<lambda>_. None)\<rparr>"

lemma numlib_ok_exact: "numlib_ok exact_np"
  by (simp add: numlib_ok_def exact_np_def)

theorem extract_features_spec_witness:
  "\<exists>f. extract_features exact_np [1, 3] = Inr f \<and> f_std f \<le> f_p2p f / 2 \<and> f_kurt f = 0"
proof -
  obtain f where f: "extract_features exact_np [1, 3] = Inr f" by (simp add: extract_features_def)
  with extract_features_spec [OF numlib_ok_exact, of "[1, 3]"] show ?thesis by auto
qed

end
