(* ===== verification/Slm_Api.thy ===== *)
theory Slm_Api
  imports Slm_Features
begin

text \<open>
  The machine analytics API (\<open>slm_sensor_analytics/app\<close>): measurements and alerts
  (\<open>db/models.py\<close>, \<open>repositories/\<close>), the model store (\<open>services/anomaly.py\<close>) and the endpoints
  (\<open>api/v1/routes.py\<close>). The isolation forest is a parameter: \<open>train\<close> fits a model to feature
  vectors, \<open>decide\<close> is its decision function. Times are microseconds.
\<close>

section \<open>Measurements and alerts\<close>

record measurement =
  me_device :: string
  me_sensor :: string
  me_value :: real
  me_unit :: string
  me_at :: int

record alert =
  al_id :: nat
  al_device :: string
  al_sensor :: string
  al_score :: real
  al_threshold :: real
  al_at :: int
  al_features :: features

record measurement_create =
  mc_device :: string
  mc_sensor :: string
  mc_value :: real
  mc_unit :: string
  mc_at :: "pytime option"

definition query_window ::
  "(measurement list \<Rightarrow> measurement list) \<Rightarrow> measurement list \<Rightarrow> string \<Rightarrow> string \<Rightarrow> int \<Rightarrow> int \<Rightarrow> measurement list" where
  "query_window asc ms device sensor start finish =
     asc (filter (\<lambda>m. me_device m = device \<and> me_sensor m = sensor \<and> start \<le> me_at m \<and> me_at m \<le> finish) ms)"

definition query_recent ::
  "(measurement list \<Rightarrow> measurement list) \<Rightarrow> measurement list \<Rightarrow> string \<Rightarrow> string \<Rightarrow> nat \<Rightarrow> measurement list" where
  "query_recent desc ms device sensor limit =
     rev (take limit (desc (filter (\<lambda>m. me_device m = device \<and> me_sensor m = sensor) ms)))"

definition insert_alert :: "alert \<Rightarrow> alert list \<Rightarrow> alert list" where
  "insert_alert a alerts = alerts @ [a]"

definition list_alerts :: "(alert list \<Rightarrow> alert list) \<Rightarrow> string option \<Rightarrow> int \<Rightarrow> alert list \<Rightarrow> alert list" where
  "list_alerts desc device limit alerts =
     sqlite_limit limit (desc (filter (\<lambda>a. case device of None \<Rightarrow> True | Some d \<Rightarrow> al_device a = d) alerts))"

section \<open>The model store\<close>

text \<open>Models in memory and on disk, both by key; the path of a key is \<open><model_dir>/<key>.joblib\<close>.\<close>

record 'm model_store =
  cache :: "string \<rightharpoonup> 'm"
  disk :: "string \<rightharpoonup> 'm"

definition model_key :: "string \<Rightarrow> string \<Rightarrow> string" where
  "model_key device sensor = device @ ''__'' @ sensor"

definition store_fit :: "(real list list \<Rightarrow> 'm) \<Rightarrow> string \<Rightarrow> string \<Rightarrow> real list list \<Rightarrow> 'm model_store \<Rightarrow> 'm model_store \<times> string" where
  "store_fit train device sensor X st =
     (let key = model_key device sensor; clf = train X
      in (st\<lparr>disk := (disk st)(key \<mapsto> clf), cache := (cache st)(key \<mapsto> clf)\<rparr>, key))"

datatype model_error = NoModel

definition get_model :: "string \<Rightarrow> string \<Rightarrow> 'm model_store \<Rightarrow> 'm model_store \<times> (model_error + 'm)" where
  "get_model device sensor st =
     (let key = model_key device sensor
      in case cache st key of
           Some clf \<Rightarrow> (st, Inr clf)
         | None \<Rightarrow>
             (case disk st key of
                None \<Rightarrow> (st, Inl NoModel)
              | Some clf \<Rightarrow> (st\<lparr>cache := (cache st)(key \<mapsto> clf)\<rparr>, Inr clf)))"

definition store_predict ::
  "('m \<Rightarrow> real list \<Rightarrow> real) \<Rightarrow> string \<Rightarrow> string \<Rightarrow> real list \<Rightarrow> 'm model_store \<Rightarrow> 'm model_store \<times> (model_error + real)" where
  "store_predict decide device sensor fs st =
     (case get_model device sensor st of
        (st', Inl e) \<Rightarrow> (st', Inl e)
      | (st', Inr clf) \<Rightarrow> (st', Inr (decide clf fs)))"

text \<open>A restart loses the cache and keeps the files.\<close>

definition restart :: "'m model_store \<Rightarrow> 'm model_store" where
  "restart st = st\<lparr>cache := Map.empty\<rparr>"

section \<open>The endpoints\<close>

record 'm slm_app =
  measurements :: "measurement list"
  alerts :: "alert list"
  models :: "'m model_store"
  next_alert :: nat

datatype slm_error = TooFewReadings | TooFewForWindow | BadFeatures | ModelMissing | ServerFault

text \<open>
  What PostgreSQL (\<open>pg\<close>) refuses: a text longer than its column, a time without a zone. SQLite, which the tests use, takes both.
\<close>

definition row_refused :: "bool \<Rightarrow> measurement_create \<Rightarrow> bool" where
  "row_refused pg m \<longleftrightarrow> pg \<and> (64 < length (mc_device m) \<or> 64 < length (mc_sensor m) \<or> 16 < length (mc_unit m) \<or>
     (case mc_at m of None \<Rightarrow> False | Some t \<Rightarrow> is_naive t))"

definition measurement_of :: "int \<Rightarrow> measurement_create \<Rightarrow> measurement" where
  "measurement_of now m = \<lparr>me_device = mc_device m, me_sensor = mc_sensor m, me_value = mc_value m, me_unit = mc_unit m,
     me_at = (case mc_at m of Some t \<Rightarrow> micros t | None \<Rightarrow> now)\<rparr>"

text \<open>All rows of a request are one transaction.\<close>

definition insert_readings :: "bool \<Rightarrow> int \<Rightarrow> measurement_create list \<Rightarrow> measurement list \<Rightarrow> measurement list option" where
  "insert_readings pg now payload ms =
     (if list_ex (row_refused pg) payload then None else Some (ms @ map (measurement_of now) payload))"

definition post_ingest :: "bool \<Rightarrow> int \<Rightarrow> measurement_create list \<Rightarrow> 'm slm_app \<Rightarrow> 'm slm_app \<times> (slm_error, nat) response" where
  "post_ingest pg now payload app =
     (case insert_readings pg now payload (measurements app) of
        None \<Rightarrow> (app, Inl (HTTPException 500 ServerFault))
      | Some ms \<Rightarrow> (app\<lparr>measurements := ms\<rparr>, Inr (length payload)))"

text \<open>\<open>range(0, len(values) - w + 1, w)\<close>; a step of zero raises \<open>ValueError\<close>.\<close>

definition range_starts :: "int \<Rightarrow> int \<Rightarrow> nat list option" where
  "range_starts n w =
     (if w = 0 then None
      else if w < 0 then Some []
      else Some (map (\<lambda>i. i * nat w) [0..<nat ((n - w + 1 + (w - 1)) div w)]))"

definition chunks :: "int \<Rightarrow> real list \<Rightarrow> real list list option" where
  "chunks w vs =
     map_option (map (\<lambda>i. take (nat w) (drop i vs))) (range_starts (int (length vs)) w)"

definition train_readings ::
  "numlib \<Rightarrow> (real list list \<Rightarrow> 'm) \<Rightarrow> string \<Rightarrow> string \<Rightarrow> int \<Rightarrow> real list
   \<Rightarrow> 'm slm_app \<Rightarrow> 'm slm_app \<times> (slm_error, nat \<times> string) response" where
  "train_readings np train device sensor window_size vs app =
     (if int (length vs) < window_size then (app, Inl (HTTPException 422 TooFewForWindow))
      else case chunks window_size vs of
             None \<Rightarrow> (app, Inl (HTTPException 500 ServerFault))
           | Some ws \<Rightarrow>
               if ws = [] then (app, Inl (HTTPException 422 TooFewForWindow))
               else let fs = map (extract_features np) ws
                    in if list_ex isl fs then (app, Inl (HTTPException 422 BadFeatures))
                       else let (st, key) = store_fit train device sensor (map (as_list \<circ> projr) fs) (models app)
                            in (app\<lparr>models := st\<rparr>, Inr (length fs, key)))"

definition train_model ::
  "bool \<Rightarrow> (measurement list \<Rightarrow> measurement list) \<Rightarrow> numlib \<Rightarrow> (real list list \<Rightarrow> 'm) \<Rightarrow> string \<Rightarrow> string \<Rightarrow> pytime \<Rightarrow> pytime \<Rightarrow> int
   \<Rightarrow> 'm slm_app \<Rightarrow> 'm slm_app \<times> (slm_error, nat \<times> string) response" where
  "train_model pg asc np train device sensor start finish window_size app =
     (if pg \<and> (is_naive start \<or> is_naive finish) then (app, Inl (HTTPException 500 ServerFault))
      else train_readings np train device sensor window_size
             (map me_value (query_window asc (measurements app) device sensor (micros start) (micros finish))) app)"

record predict_response =
  pr_score :: real
  pr_anomaly :: bool
  pr_features :: features
  pr_alert :: "nat option"

text \<open>\<open>now - timedelta(minutes=m)\<close>\<close>

definition minutes_before :: "int \<Rightarrow> int \<Rightarrow> int option" where
  "minutes_before now m = (let t = now - m * 60 * 1000000 in if datetime_ok t then Some t else None)"

text \<open>\<open>clock\<close> is the time when an alert is written.\<close>

definition predict_readings ::
  "numlib \<Rightarrow> ('m \<Rightarrow> real list \<Rightarrow> real) \<Rightarrow> real \<Rightarrow> int \<Rightarrow> string \<Rightarrow> string \<Rightarrow> real list
   \<Rightarrow> 'm slm_app \<Rightarrow> 'm slm_app \<times> (slm_error, predict_response) response" where
  "predict_readings np decide threshold clock device sensor vs app =
     (if length vs < 2 then (app, Inl (HTTPException 422 TooFewReadings))
      else case extract_features np vs of
             Inl _ \<Rightarrow> (app, Inl (HTTPException 500 ServerFault))
           | Inr f \<Rightarrow>
               (case store_predict decide device sensor (as_list f) (models app) of
                  (st, Inl _) \<Rightarrow> (app\<lparr>models := st\<rparr>, Inl (HTTPException 422 ModelMissing))
                | (st, Inr score) \<Rightarrow>
                    if score < threshold
                    then let a = \<lparr>al_id = next_alert app, al_device = device, al_sensor = sensor, al_score = score,
                                  al_threshold = threshold, al_at = clock, al_features = f\<rparr>
                         in (app\<lparr>models := st, alerts := insert_alert a (alerts app), next_alert := next_alert app + 1\<rparr>,
                             Inr \<lparr>pr_score = score, pr_anomaly = True, pr_features = f, pr_alert = Some (al_id a)\<rparr>)
                    else (app\<lparr>models := st\<rparr>,
                          Inr \<lparr>pr_score = score, pr_anomaly = False, pr_features = f, pr_alert = None\<rparr>)))"

definition predict_anomaly ::
  "(measurement list \<Rightarrow> measurement list) \<Rightarrow> numlib \<Rightarrow> ('m \<Rightarrow> real list \<Rightarrow> real) \<Rightarrow> real \<Rightarrow> int \<Rightarrow> int \<Rightarrow> string \<Rightarrow> string \<Rightarrow> int
   \<Rightarrow> 'm slm_app \<Rightarrow> 'm slm_app \<times> (slm_error, predict_response) response" where
  "predict_anomaly asc np decide threshold now clock device sensor lookback_minutes app =
     (case minutes_before now lookback_minutes of
        None \<Rightarrow> (app, Inl (HTTPException 500 ServerFault))
      | Some start \<Rightarrow>
          predict_readings np decide threshold clock device sensor
            (map me_value (query_window asc (measurements app) device sensor start now)) app)"

text \<open>PostgreSQL refuses a negative \<open>LIMIT\<close>, SQLite takes it as none; the number is not validated.\<close>

definition get_alerts ::
  "bool \<Rightarrow> (alert list \<Rightarrow> alert list) \<Rightarrow> string option \<Rightarrow> int \<Rightarrow> 'm slm_app \<Rightarrow> (slm_error, alert list) response" where
  "get_alerts pg desc device limit app =
     (if pg \<and> limit < 0 then Inl (HTTPException 500 ServerFault) else Inr (list_alerts desc device limit (alerts app)))"

section \<open>Windows\<close>

lemma chunks_pos:
  assumes "0 < w"
  shows "chunks (int w) vs = Some (map (\<lambda>i. take w (drop (i * w) vs)) [0..<length vs div w])"
  using assms by (simp add: chunks_def range_starts_def nat_div_distrib flip: of_nat_div)

lemma concat_chunks:
  "concat (map (\<lambda>i. take w (drop (i * w) vs)) [0..<n]) = take (n * w) vs"
  using pages_partition [of w vs n] by (simp add: page_def)

lemma length_windows: "i < length vs div w \<Longrightarrow> length (take w (drop (i * w) vs)) = w"
proof -
  assume "i < length vs div w"
  then have "Suc i * w \<le> length vs div w * w" by (intro mult_le_mono1) simp
  also have "\<dots> \<le> length vs" by simp
  finally show ?thesis by simp
qed

definition windows :: "nat \<Rightarrow> real list \<Rightarrow> real list list" where
  "windows k vs = map (\<lambda>i. take k (drop (i * k) vs)) [0..<length vs div k]"

lemma windows_partition:
  "concat (windows k vs) = take (length vs div k * k) vs \<and> length (windows k vs) = length vs div k \<and>
   list_all (\<lambda>c. length c = k) (windows k vs)"
  using length_windows [where w = k and vs = vs] by (auto simp: windows_def concat_chunks list_all_iff)

lemma windows_ne: "0 < k \<Longrightarrow> k \<le> length vs \<Longrightarrow> windows k vs \<noteq> []"
  by (simp add: windows_def div_greater_zero_iff)

lemma bad_windows_iff:
  assumes "0 < k" and "k \<le> length vs"
  shows "list_ex isl (map (extract_features np) (windows k vs)) \<longleftrightarrow> k < 2"
proof -
  have "isl (extract_features np c) \<longleftrightarrow> k < 2" if "c \<in> set (windows k vs)" for c
    using windows_partition [where k = k and vs = vs] that by (auto simp: list_all_iff extract_features_def)
  then have "list_ex isl (map (extract_features np) (windows k vs)) \<longleftrightarrow> (\<exists>c\<in>set (windows k vs). k < 2)"
    by (auto simp: list_ex_iff)
  then show ?thesis using windows_ne [OF assms] by (simp add: ex_in_conv)
qed

lemma train_readings_int:
  assumes "0 < k" and "k \<le> length vs"
  shows "train_readings np train device sensor (int k) vs app =
    (if k < 2 then (app, Inl (HTTPException 422 BadFeatures))
     else (app\<lparr>models := fst (store_fit train device sensor
             (map (as_list \<circ> projr) (map (extract_features np) (windows k vs))) (models app))\<rparr>,
           Inr (length vs div k, model_key device sensor)))"
proof -
  have "chunks (int k) vs = Some (windows k vs)" using chunks_pos [OF assms(1)] by (simp add: windows_def)
  then show ?thesis
    using assms windows_ne [OF assms] bad_windows_iff [OF assms, of np] windows_partition [where k = k and vs = vs]
    by (simp add: train_readings_def store_fit_def Let_def del: list.map_comp map_map)
qed

lemmas train_readings_one = train_readings_int [of 1, simplified]

lemma train_readings_windows:
  assumes "2 \<le> k" and "k \<le> length vs" and "result = train_readings np train device sensor (int k) vs app"
  shows "snd result = Inr (length vs div k, model_key device sensor) \<and>
    measurements (fst result) = measurements app \<and> alerts (fst result) = alerts app \<and>
    disk (models (fst result)) (model_key device sensor) =
      Some (train (map (as_list \<circ> projr \<circ> extract_features np) (windows k vs)))"
  using assms
  by (simp add: train_readings_int store_fit_def Let_def comp_assoc del: map_map) (simp only: map_map comp_assoc)

text \<open>
  Training on every branch: PostgreSQL's driver refuses bounds without a zone with 500; fewer readings than the window,
  a negative window and a window of one reading are refused with 422, and a window of zero fails with 500
  because \<open>range\<close> takes no step of zero; otherwise the model is fitted to the features of the \<open>n div w\<close> consecutive
  windows of exactly \<open>w\<close> readings, which joined together are the first \<open>(n div w) * w\<close> readings, and is stored
  under the key of the device and sensor. Nothing else changes.
\<close>

theorem train_model_spec:
  fixes app :: "'m slm_app" and asc :: "measurement list \<Rightarrow> measurement list"
    and np :: numlib and train :: "real list list \<Rightarrow> 'm" and device sensor :: string
    and start finish :: pytime and w :: int and pg :: bool
  defines "vs \<equiv> map me_value (query_window asc (measurements app) device sensor (micros start) (micros finish))"
  defines "result \<equiv> train_model pg asc np train device sensor start finish w app"
  shows "measurements (fst result) = measurements app \<and> alerts (fst result) = alerts app \<and>
    (case snd result of
       Inl e \<Rightarrow> fst result = app \<and>
         (if pg \<and> (is_naive start \<or> is_naive finish) then status_code e = 500
          else if int (length vs) < w \<or> w < 0 \<or> w = 1 then status_code e = 422 else w = 0 \<and> status_code e = 500)
     | Inr (n, key) \<Rightarrow> 2 \<le> w \<and> n = length vs div nat w \<and> key = model_key device sensor \<and>
         (\<exists>ws. concat ws = take (n * nat w) vs \<and> length ws = n \<and> list_all (\<lambda>c. length c = nat w) ws \<and>
            disk (models (fst result)) key = Some (train (map (as_list \<circ> projr \<circ> extract_features np) ws))))"
proof (cases "pg \<and> (is_naive start \<or> is_naive finish)")
  case True
  then show ?thesis by (simp add: result_def train_model_def)
next
  case ok: False
  then have run: "result = train_readings np train device sensor w vs app"
    by (auto simp: result_def vs_def train_model_def)
  show ?thesis
  proof (cases "int (length vs) < w \<or> w \<le> 0")
    case True
    then show ?thesis using ok unfolding run by (auto simp: train_readings_def chunks_def range_starts_def)
  next
    case False
    then obtain k where w: "w = int k" and k: "0 < k" "k \<le> length vs"
      by (metis linorder_not_le nat_int_comparison(3) of_nat_0_less_iff pos_int_cases)
    show ?thesis
    proof (cases "k = 1")
      case True
      with train_readings_one k have "result = (app, Inl (HTTPException 422 BadFeatures))" by (simp add: run w)
      then show ?thesis using w True ok by simp
    next
      case k1: False
      with k have "2 \<le> k" by simp
      from train_readings_windows [OF this k(2) run [unfolded w]] windows_partition [where k = k and vs = vs]
      show ?thesis using \<open>2 \<le> k\<close> unfolding w nat_int by (elim conjE) (simp only: sum.case prod.case, auto)
    qed
  qed
qed

definition demo_reading :: "int \<Rightarrow> real \<Rightarrow> measurement" where
  "demo_reading t v = \<lparr>me_device = ''d'', me_sensor = ''s'', me_value = v, me_unit = ''g'', me_at = t\<rparr>"

definition demo_app :: "nat slm_app" where
  "demo_app = \<lparr>measurements = [demo_reading 1 2, demo_reading 2 4, demo_reading 3 6], alerts = [],
     models = \<lparr>cache = Map.empty, disk = Map.empty\<rparr>, next_alert = 1\<rparr>"

theorem train_model_spec_witness:
  "case snd (train_model True (\<lambda>ms. ms) exact_np length ''d'' ''s'' (Aware 0) (Aware 9) 2 demo_app) of
     Inl e \<Rightarrow> False | Inr (n, key) \<Rightarrow> n = 1 \<and> key = ''d__s''"
proof -
  have q: "map me_value (query_window (\<lambda>ms. ms) (measurements demo_app) ''d'' ''s'' 0 9) = [2, 4, 6]"
    by (simp add: query_window_def demo_app_def demo_reading_def)
  show ?thesis
    using train_model_spec [where asc = "\<lambda>ms. ms" and app = demo_app and device = "''d''" and sensor = "''s''" and start = "Aware 0"
        and finish = "Aware 9" and pg = True and np = exact_np and train = length and w = 2]
    unfolding micros_simps q by (auto simp: model_key_def split: sum.splits if_splits)
qed

section \<open>Prediction\<close>

text \<open>
  The store behaves as one map of models, that of the files: whatever is in memory is on disk.
\<close>

definition coherent :: "'m model_store \<Rightarrow> bool" where
  "coherent st \<longleftrightarrow> cache st \<subseteq>\<^sub>m disk st"

lemma coherent_fit: "coherent st \<Longrightarrow> coherent (fst (store_fit train d s X st))"
  by (auto simp: coherent_def store_fit_def Let_def intro: map_le_upd)

lemma get_model_disk:
  assumes "coherent st"
  shows "coherent (fst (get_model d s st)) \<and> disk (fst (get_model d s st)) = disk st \<and>
    snd (get_model d s st) = (case disk st (model_key d s) of None \<Rightarrow> Inl NoModel | Some m \<Rightarrow> Inr m)"
proof (cases "cache st (model_key d s)")
  case None
  then show ?thesis
    using assms by (auto simp: get_model_def Let_def coherent_def map_le_def split: option.split)
next
  case (Some m)
  then have "disk st (model_key d s) = Some m"
    using assms by (auto simp: coherent_def map_le_def dom_def)
  with Some show ?thesis using assms by (simp add: get_model_def Let_def)
qed

lemma coherent_restart: "coherent (restart st)"
  by (simp add: coherent_def restart_def)

text \<open>
  Model store, as a refinement of a plain map of models: in every coherent state (training, looking
  up and restarting keep the state coherent) a model that was fitted is the one that prediction uses
  for that device and sensor, before and after a restart, while every other key keeps its model. The
  key joins device and sensor with two underscores, so two different pairs can share one model.
\<close>

theorem model_store_refines:
  fixes st :: "'m model_store" and train :: "real list list \<Rightarrow> 'm" and decide :: "'m \<Rightarrow> real list \<Rightarrow> real"
    and d s d2 s2 x :: string and X :: "real list list" and f :: "real list"
  assumes "coherent st"
  defines "st' \<equiv> fst (store_fit train d s X st)"
  shows "coherent st' \<and>
    snd (store_predict decide d s f st') = Inr (decide (train X) f) \<and>
    snd (store_predict decide d s f (restart st')) = Inr (decide (train X) f) \<and>
    snd (store_predict decide d2 s2 f st') =
      (if model_key d2 s2 = model_key d s then Inr (decide (train X) f)
       else snd (store_predict decide d2 s2 f st)) \<and>
    model_key (d @ ''__'' @ x) s = model_key d (x @ ''__'' @ s)"
proof -
  have predict: "snd (store_predict decide d s f st) =
      (case disk st (model_key d s) of None \<Rightarrow> Inl NoModel | Some m \<Rightarrow> Inr (decide m f))"
    if "coherent st" for d s st
    using get_model_disk [OF that, of d s]
    by (auto simp: store_predict_def split: prod.split sum.split option.splits)
  have co: "coherent st'" unfolding st'_def by (rule coherent_fit) (rule assms(1))
  have d: "disk st' = (disk st)(model_key d s \<mapsto> train X)"
    by (simp add: st'_def store_fit_def Let_def)
  have r: "disk (restart st') = disk st'" by (simp add: restart_def)
  show ?thesis
    unfolding predict [OF co] predict [OF coherent_restart] predict [OF assms(1)] r d
    using co by (simp add: model_key_def)
qed


theorem model_store_refines_witness:
  "snd (store_predict (\<lambda>n fs. real n) ''a'' ''b__c'' []
     (restart (fst (store_fit length ''a__b'' ''c'' [[], []] (restart (models demo_app)))))) = Inr 2"
  using model_store_refines [OF coherent_restart, where d = "''a__b''" and s = "''c''"
      and train = length and X = "[[], []]" and decide = "\<lambda>n fs. real n" and f = "[]"]
  by (simp add: model_key_def store_predict_def get_model_def Let_def restart_def store_fit_def)

lemma predict_readings_spec:
  fixes app :: "'m slm_app" and np :: numlib and decide :: "'m \<Rightarrow> real list \<Rightarrow> real" and device sensor :: string
    and clock :: int and threshold :: real and vs :: "real list"
  assumes "coherent (models app)"
  defines "result \<equiv> predict_readings np decide threshold clock device sensor vs app"
  shows "measurements (fst result) = measurements app \<and> disk (models (fst result)) = disk (models app) \<and>
    coherent (models (fst result)) \<and>
    (case snd result of
       Inl e \<Rightarrow> status_code e = 422 \<and> alerts (fst result) = alerts app \<and> next_alert (fst result) = next_alert app \<and>
         (length vs < 2 \<or> disk (models app) (model_key device sensor) = None)
     | Inr r \<Rightarrow> 2 \<le> length vs \<and> extract_features np vs = Inr (pr_features r) \<and>
         (\<exists>m. disk (models app) (model_key device sensor) = Some m \<and> pr_score r = decide m (as_list (pr_features r))) \<and>
         (pr_anomaly r \<longleftrightarrow> pr_score r < threshold) \<and>
         alerts (fst result) = alerts app @ (case pr_alert r of None \<Rightarrow> [] | Some i \<Rightarrow>
           [\<lparr>al_id = i, al_device = device, al_sensor = sensor, al_score = pr_score r, al_threshold = threshold,
             al_at = clock, al_features = pr_features r\<rparr>]) \<and>
         pr_alert r = (if pr_anomaly r then Some (next_alert app) else None) \<and>
         next_alert (fst result) = next_alert app + (if pr_anomaly r then 1 else 0))"
proof (cases "length vs < 2")
  case True
  then have "result = (app, Inl (HTTPException 422 TooFewReadings))"
    by (simp add: result_def predict_readings_def)
  then show ?thesis using True assms(1) by simp
next
  case False
  then obtain f where f: "extract_features np vs = Inr f" by (simp add: extract_features_def)
  obtain st r where get: "get_model device sensor (models app) = (st, r)" by fastforce
  note store = get_model_disk [OF assms(1), of device sensor, unfolded get fst_conv snd_conv]
  show ?thesis
  proof (cases "disk (models app) (model_key device sensor)")
    case None
    then have "result = (app\<lparr>models := st\<rparr>, Inl (HTTPException 422 ModelMissing))"
      using False f store get by (simp add: result_def predict_readings_def store_predict_def)
    then show ?thesis using None store by simp
  next
    case (Some m)
    then have "store_predict decide device sensor (as_list f) (models app) = (st, Inr (decide m (as_list f)))"
      using store get by (simp add: store_predict_def)
    then show ?thesis using False f store Some
      by (simp add: result_def predict_readings_def Let_def insert_alert_def)
  qed
qed

text \<open>
  Prediction: fewer than two readings in the look-back window, or no model for the pair, are
  refused with 422 without an alert, and a look-back that leaves the calendar fails with 500; otherwise
  the score is the decision function of the stored model on the features of those readings, and an alert
  carrying that score, those features and a new identity is recorded exactly when the score is below the
  threshold. No reading is changed and the store keeps its models.
\<close>

theorem predict_spec:
  fixes app :: "'m slm_app" and asc :: "measurement list \<Rightarrow> measurement list" and np :: numlib
    and decide :: "'m \<Rightarrow> real list \<Rightarrow> real" and device sensor :: string
    and now clock lookback :: int and threshold :: real
  assumes "coherent (models app)"
  defines "start \<equiv> now - lookback * 60 * 1000000"
  defines "vs \<equiv> map me_value (query_window asc (measurements app) device sensor start now)"
  defines "result \<equiv> predict_anomaly asc np decide threshold now clock device sensor lookback app"
  shows "measurements (fst result) = measurements app \<and> disk (models (fst result)) = disk (models app) \<and>
    coherent (models (fst result)) \<and>
    (case snd result of
       Inl e \<Rightarrow> alerts (fst result) = alerts app \<and>
         (if datetime_ok start
          then status_code e = 422 \<and> (length vs < 2 \<or> disk (models app) (model_key device sensor) = None)
          else status_code e = 500)
     | Inr r \<Rightarrow> datetime_ok start \<and> 2 \<le> length vs \<and> extract_features np vs = Inr (pr_features r) \<and>
         (\<exists>m. disk (models app) (model_key device sensor) = Some m \<and> pr_score r = decide m (as_list (pr_features r))) \<and>
         (pr_anomaly r \<longleftrightarrow> pr_score r < threshold) \<and>
         alerts (fst result) = alerts app @ (case pr_alert r of None \<Rightarrow> [] | Some i \<Rightarrow>
           [\<lparr>al_id = i, al_device = device, al_sensor = sensor, al_score = pr_score r, al_threshold = threshold,
             al_at = clock, al_features = pr_features r\<rparr>]) \<and>
         pr_alert r = (if pr_anomaly r then Some (next_alert app) else None) \<and>
         next_alert (fst result) = next_alert app + (if pr_anomaly r then 1 else 0))"
proof (cases "datetime_ok start")
  case False
  then have "result = (app, Inl (HTTPException 500 ServerFault))"
    by (simp add: result_def predict_anomaly_def minutes_before_def start_def)
  then show ?thesis using False assms(1) by simp
next
  case True
  then have "result = predict_readings np decide threshold clock device sensor vs app"
    by (simp add: result_def predict_anomaly_def minutes_before_def start_def vs_def)
  with predict_readings_spec [OF assms(1), of np decide threshold clock device sensor vs] True show ?thesis
    by (simp split: sum.splits)
qed

definition trained_app :: "nat slm_app" where
  "trained_app = demo_app\<lparr>models := \<lparr>cache = Map.empty, disk = [''d__s'' \<mapsto> 3]\<rparr>\<rparr>"

theorem predict_spec_witness:
  "\<exists>r. snd (predict_anomaly (\<lambda>ms. ms) exact_np (\<lambda>n fs. - real n) 0 9 9 ''d'' ''s'' 10 trained_app) = Inr r \<and>
     pr_score r = -3 \<and> pr_alert r = Some 1"
proof -
  have co: "coherent (models trained_app)" by (simp add: trained_app_def coherent_def)
  have q: "map me_value (query_window (\<lambda>ms. ms) (measurements trained_app) ''d'' ''s'' (9 - 10 * 60 * 1000000) 9) = [2, 4, 6]"
    by (simp add: query_window_def trained_app_def demo_app_def demo_reading_def)
  have d: "disk (models trained_app) (model_key ''d'' ''s'') = Some 3" "next_alert trained_app = 1"
    by (simp_all add: trained_app_def model_key_def demo_app_def)
  have t: "datetime_ok (9 - 10 * 60 * 1000000)" by (simp add: datetime_ok_def)
  from predict_spec [OF co, where asc = "\<lambda>ms. ms" and np = exact_np and decide = "\<lambda>n fs. - real n" and threshold = 0
      and now = 9 and clock = 9 and device = "''d''" and sensor = "''s''" and lookback = 10] t
  show ?thesis unfolding q d by (auto split: sum.splits if_splits)
qed

end
