(* ===== verification/Slm_System.thy ===== *)
theory Slm_System
  imports Slm_Api
begin

text \<open>
  The machine analytics service as a whole: ingestion, training, prediction and restarts in any order, over the
  endpoints of \<open>Slm_Api\<close>, and what holds of its tables and models in every reachable state.
\<close>

section \<open>Steps\<close>

inductive slm_step ::
  "bool \<Rightarrow> (measurement list \<Rightarrow> measurement list) \<Rightarrow> numlib \<Rightarrow> (real list list \<Rightarrow> 'm) \<Rightarrow> ('m \<Rightarrow> real list \<Rightarrow> real) \<Rightarrow> real
   \<Rightarrow> 'm slm_app \<Rightarrow> 'm slm_app \<Rightarrow> bool" for pg asc np train decide threshold where
  ingested: "slm_step pg asc np train decide threshold app (fst (post_ingest pg now payload app))"
| trained: "slm_step pg asc np train decide threshold app (fst (train_model pg asc np train device sensor start finish w app))"
| predicted: "slm_step pg asc np train decide threshold app
    (fst (predict_anomaly asc np decide threshold now clock device sensor lookback app))"
| restarted: "slm_step pg asc np train decide threshold app (app\<lparr>models := restart (models app)\<rparr>)"

inductive_cases slm_stepE: "slm_step pg asc np train decide threshold app app'"

definition slm_init :: "'m slm_app" where
  "slm_init = \<lparr>measurements = [], alerts = [], models = \<lparr>cache = Map.empty, disk = Map.empty\<rparr>, next_alert = 1\<rparr>"

section \<open>The invariant\<close>

definition of_pair :: "string \<Rightarrow> string \<Rightarrow> measurement \<Rightarrow> bool" where
  "of_pair device sensor m \<longleftrightarrow> me_device m = device \<and> me_sensor m = sensor"

definition measurement_fits :: "measurement \<Rightarrow> bool" where
  "measurement_fits m \<longleftrightarrow> length (me_device m) \<le> 64 \<and> length (me_sensor m) \<le> 64 \<and> length (me_unit m) \<le> 16"

definition features_ok :: "features \<Rightarrow> bool" where
  "features_ok f \<longleftrightarrow> (f_rms f)\<^sup>2 = (f_mean f)\<^sup>2 + (f_std f)\<^sup>2 \<and> 0 \<le> f_std f \<and> f_std f \<le> f_p2p f / 2"

text \<open>An alert is explained by a model and at least two measurements of its device and sensor.\<close>

definition explained :: "real \<Rightarrow> 'm slm_app \<Rightarrow> alert \<Rightarrow> bool" where
  "explained threshold app a \<longleftrightarrow> al_threshold a = threshold \<and> al_score a < threshold \<and> features_ok (al_features a) \<and>
     disk (models app) (model_key (al_device a) (al_sensor a)) \<noteq> None \<and>
     2 \<le> length (filter (of_pair (al_device a) (al_sensor a)) (measurements app))"

definition slm_inv :: "bool \<Rightarrow> real \<Rightarrow> 'm slm_app \<Rightarrow> bool" where
  "slm_inv pg threshold app \<longleftrightarrow> coherent (models app) \<and> (pg \<longrightarrow> list_all measurement_fits (measurements app)) \<and>
     distinct (map al_id (alerts app)) \<and> (\<forall>a\<in>set (alerts app). al_id a < next_alert app \<and> explained threshold app a)"

text \<open>Measurements and models are only added.\<close>

lemma explained_mono:
  assumes "explained threshold app a" and "measurements app' = measurements app @ ms"
    and "dom (disk (models app)) \<subseteq> dom (disk (models app'))"
  shows "explained threshold app' a"
  using assms by (auto simp: explained_def)

lemma inv_ingest:
  assumes inv: "slm_inv pg threshold app"
  shows "slm_inv pg threshold (fst (post_ingest pg now payload app))"
proof (cases "list_ex (row_refused pg) payload")
  case True
  then show ?thesis using inv by (simp add: post_ingest_def insert_readings_def)
next
  case False
  let ?new = "map (measurement_of now) payload"
  let ?app' = "app\<lparr>measurements := measurements app @ ?new\<rparr>"
  have res: "fst (post_ingest pg now payload app) = ?app'"
    using False by (simp add: post_ingest_def insert_readings_def)
  have "list_all measurement_fits ?new" if pg
    using False that by (auto simp: list_all_iff list_ex_iff row_refused_def measurement_fits_def measurement_of_def)
  moreover have "explained threshold ?app' a" if "a \<in> set (alerts app)" for a
    by (rule explained_mono [of threshold app a _ ?new]) (use inv that in \<open>simp_all add: slm_inv_def\<close>)
  ultimately show ?thesis using inv unfolding res by (simp add: slm_inv_def)
qed

lemma inv_fit:
  assumes "slm_inv pg threshold app"
  shows "slm_inv pg threshold (app\<lparr>models := fst (store_fit train d s X (models app))\<rparr>)" (is "slm_inv _ _ ?app'")
proof -
  have "explained threshold ?app' a" if "a \<in> set (alerts app)" for a
    by (rule explained_mono [of threshold app a _ "[]"]) (use assms that in \<open>auto simp: slm_inv_def store_fit_def Let_def\<close>)
  then show ?thesis using assms by (simp add: slm_inv_def coherent_fit)
qed

lemma train_models:
  assumes "P app" and "\<And>X. P (app\<lparr>models := fst (store_fit train d s X (models app))\<rparr>)"
  shows "P (fst (train_readings np train d s w vs app))"
  using assms by (simp add: train_readings_def Let_def case_prod_beta split: option.split)

lemma inv_train:
  assumes "slm_inv pg threshold app"
  shows "slm_inv pg threshold (fst (train_model pg asc np train d s start finish w app))"
  using assms train_models [of "slm_inv pg threshold", OF assms inv_fit [OF assms]] by (auto simp: train_model_def)

lemma window_le:
  assumes "\<And>ms. mset (asc ms) = mset ms"
  shows "length (query_window asc ms d s start now) \<le> length (filter (of_pair d s) ms)"
proof -
  have "length (asc xs) = length xs" for xs using assms by (metis size_mset)
  then have "length (query_window asc ms d s start now) =
      length (filter (\<lambda>m. start \<le> me_at m \<and> me_at m \<le> now) (filter (of_pair d s) ms))"
    by (simp add: query_window_def of_pair_def conj_assoc)
  then show ?thesis by (simp only: length_filter_le)
qed

lemma inv_predict:
  assumes "slm_inv pg threshold app" and "numlib_ok np" and "\<And>ms. mset (asc ms) = mset ms"
  shows "slm_inv pg threshold (fst (predict_anomaly asc np decide threshold now clock d s lookback app))"
proof -
  let ?vs = "\<lambda>start. map me_value (query_window asc (measurements app) d s start now)"
  have "slm_inv pg threshold (fst (predict_readings np decide threshold clock d s (?vs start) app))" for start
  proof -
    let ?res = "predict_readings np decide threshold clock d s (?vs start) app"
    have co: "coherent (models app)" using assms(1) by (simp add: slm_inv_def)
    note spec = predict_readings_spec [OF co, of np decide threshold clock d s "?vs start"]
    have old: "explained threshold (fst ?res) a" if "a \<in> set (alerts app)" for a
      by (rule explained_mono [of threshold app a _ "[]"]) (use assms(1) that spec in \<open>simp_all add: slm_inv_def\<close>)
    show ?thesis
    proof (cases "snd ?res")
      case (Inl e)
      then have "alerts (fst ?res) = alerts app" "next_alert (fst ?res) = next_alert app" "measurements (fst ?res) = measurements app"
        "coherent (models (fst ?res))" using spec by simp_all
      then show ?thesis using assms(1) old by (simp add: slm_inv_def)
    next
      case (Inr r)
      note window_le [OF assms(3), of "measurements app" d s start now]
      moreover have "features_ok (pr_features r)"
        using extract_features_spec [OF assms(2), of "?vs start"] spec Inr by (auto simp: features_ok_def)
      ultimately show ?thesis
        using assms(1) spec Inr old by (auto simp: slm_inv_def explained_def split: if_splits)
    qed
  qed
  then show ?thesis
    using assms(1) by (auto simp: predict_anomaly_def split: option.split)
qed

lemma inv_restart: "slm_inv pg threshold app \<Longrightarrow> slm_inv pg threshold (app\<lparr>models := restart (models app)\<rparr>)"
  by (auto simp: slm_inv_def explained_def restart_def coherent_def)

lemma slm_reachable_inv:
  assumes "numlib_ok np" and "\<And>ms. mset (asc ms) = mset ms"
    and "(slm_step pg asc np train decide threshold)\<^sup>*\<^sup>* slm_init app"
  shows "slm_inv pg threshold app"
  using assms(3)
proof (induction rule: rtranclp_induct)
  case base
  show ?case by (simp add: slm_inv_def slm_init_def coherent_def)
next
  case (step app app')
  from step.hyps(2) step.IH assms(1,2) show ?case
    by (cases rule: slm_step.cases) (simp_all add: inv_ingest inv_train inv_predict inv_restart)
qed



end
