(* ===== verification/Portfolio_Data.thy ===== *)
theory Portfolio_Data
  imports Iso_Time Prelude
begin

text \<open>
  The portfolio dispatch service (\<open>renewables_portfolio_dispatch/app\<close>), first part: its tables
  (\<open>models/orm.py\<close>), its request bodies (\<open>models/schemas.py\<close>), dates, and the endpoints for assets
  and telemetry (\<open>telemetry/router.py\<close>). Times are instants in microseconds since 1970 (the columns
  are \<open>timestamptz\<close>), ids are drawn from the table they go into, and one request is one transaction:
  a handler that raises leaves the tables as they were.
\<close>

section \<open>Dates\<close>

text \<open>
  A \<open>datetime.date\<close> as (year, month, day), its ISO text, and the reading of that text.
  \<open>ymd2ord\<close> is the proleptic Gregorian ordinal of the standard library.
\<close>

type_synonym date = "nat \<times> nat \<times> nat"

definition leap :: "nat \<Rightarrow> bool" where
  "leap y \<longleftrightarrow> y mod 4 = 0 \<and> (y mod 100 \<noteq> 0 \<or> y mod 400 = 0)"

definition month_lengths :: "nat \<Rightarrow> nat list" where
  "month_lengths y = [31, if leap y then 29 else 28, 31, 30, 31, 30, 31, 31, 30, 31, 30, 31]"

fun date_ok :: "date \<Rightarrow> bool" where
  "date_ok (y, m, d) \<longleftrightarrow> 1 \<le> y \<and> y \<le> 9999 \<and> 1 \<le> m \<and> m \<le> 12 \<and> 1 \<le> d \<and> d \<le> month_lengths y ! (m - 1)"

fun iso_date :: "date \<Rightarrow> string" where
  "iso_date (y, m, d) = pad 4 y @ ''-'' @ pad 2 m @ ''-'' @ pad 2 d"

definition digits_val :: "string \<Rightarrow> nat" where
  "digits_val s = foldl (\<lambda>n c. 10 * n + (of_char c - 48)) 0 s"

definition is_digits :: "string \<Rightarrow> bool" where
  "is_digits s \<longleftrightarrow> list_all (\<lambda>c. 48 \<le> (of_char c :: nat) \<and> (of_char c :: nat) \<le> 57) s"

definition date_fromiso :: "string \<Rightarrow> date option" where
  "date_fromiso s =
     (let y = take 4 s; m = take 2 (drop 5 s); d = take 2 (drop 8 s);
          date = (digits_val y, digits_val m, digits_val d)
      in if length s = 10 \<and> s ! 4 = CHR ''-'' \<and> s ! 7 = CHR ''-'' \<and> is_digits y \<and> is_digits m \<and> is_digits d \<and> date_ok date
         then Some date else None)"

fun ymd2ord :: "date \<Rightarrow> nat" where
  "ymd2ord (y, m, d) =
     (let p = y - 1 in p * 365 + p div 4 - p div 100 + p div 400 + sum_list (take (m - 1) (month_lengths y)) + d)"

text \<open>Midnight UTC of a date; the ordinal of 1970-01-01 is 719163.\<close>

definition midnight :: "date \<Rightarrow> int" where
  "midnight date = (int (ymd2ord date) - 719163) * 86400000000"

lemma digits_val_snoc [simp]: "digits_val (s @ [c]) = 10 * digits_val s + (of_char c - 48)"
  by (simp add: digits_val_def)

lemma is_digits_snoc [simp]:
  "is_digits (s @ [c]) \<longleftrightarrow> is_digits s \<and> 48 \<le> (of_char c :: nat) \<and> (of_char c :: nat) \<le> 57"
  by (simp add: is_digits_def)

lemma digits_val_pad: "n < 10 ^ w \<Longrightarrow> digits_val (pad w n) = n"
proof (induction w arbitrary: n)
  case 0
  then show ?case by (simp add: digits_val_def)
next
  case (Suc w)
  then have "n div 10 < 10 ^ w" by (simp add: less_mult_imp_div_less)
  with Suc.IH show ?case by (simp add: of_char_digit)
qed

lemma is_digits_pad: "is_digits (pad w n)"
proof (induction w arbitrary: n)
  case 0
  show ?case by (simp add: is_digits_def)
next
  case (Suc w)
  then show ?case by (simp add: of_char_digit)
qed

lemma date_iso_roundtrip:
  assumes "date_ok date"
  shows "date_fromiso (iso_date date) = Some date"
proof -
  obtain y m d where date: "date = (y, m, d)" by (cases date)
  have ml: "month_lengths y ! (m - 1) \<le> 31" if "m \<le> 12"
  proof -
    have "m - 1 < length (month_lengths y)" using that by (simp add: month_lengths_def)
    then have "month_lengths y ! (m - 1) \<in> set (month_lengths y)" by (rule nth_mem)
    then show ?thesis by (auto simp: month_lengths_def split: if_splits)
  qed
  from assms have b: "y < 10 ^ 4" "m < 10 ^ 2" "d < 10 ^ 2"
    using ml by (auto simp: date)
  let ?s = "iso_date date"
  have "length ?s = 10" "?s ! 4 = CHR ''-''" "?s ! 7 = CHR ''-''"
    "take 4 ?s = pad 4 y" "take 2 (drop 5 ?s) = pad 2 m" "take 2 (drop 8 ?s) = pad 2 d"
    by (simp_all add: date length_pad nth_append)
  then show ?thesis
    using assms by (simp add: date_fromiso_def Let_def is_digits_pad digits_val_pad [OF b(1)]
        digits_val_pad [OF b(2)] digits_val_pad [OF b(3)] date)
qed


section \<open>The tables\<close>

datatype asset_type = WIND | SOLAR

datatype schedule_status = DRAFT | SUBMITTED | ACTIVE | SUPERSEDED

record asset =
  as_id :: nat
  as_name :: string
  as_type :: asset_type
  as_capacity :: real
  as_ramp :: real

record telemetry =
  te_id :: nat
  te_asset :: nat
  te_at :: int
  te_power :: real

record forecast_run =
  ru_id :: nat
  ru_asset :: nat
  ru_at :: int
  ru_horizon :: int
  ru_mape :: real

record forecast_interval =
  fi_id :: nat
  fi_run :: nat
  fi_start :: int
  fi_end :: int
  fi_mean :: real
  fi_std :: real

record schedule_row =
  sc_id :: uuid
  sc_portfolio :: int
  sc_date :: string
  sc_at :: int

record plan_row =
  pl_id :: nat
  pl_schedule :: uuid
  pl_asset :: int
  pl_start :: int
  pl_end :: int
  pl_mw :: real
  pl_status :: schedule_status

record portfolio_db =
  assets :: "asset list"
  telemetry_rows :: "telemetry list"
  runs :: "forecast_run list"
  forecast_ivls :: "forecast_interval list"
  schedules :: "schedule_row list"
  plan_rows :: "plan_row list"

definition portfolio_empty :: portfolio_db where
  "portfolio_empty = \<lparr>assets = [], telemetry_rows = [], runs = [], forecast_ivls = [], schedules = [], plan_rows = []\<rparr>"

text \<open>The next id of a table, one more than the largest so far.\<close>

definition fresh :: "nat list \<Rightarrow> nat" where
  "fresh ids = Suc (fold max ids 0)"

lemma fresh_greater: "i \<in> set ids \<Longrightarrow> i < fresh ids"
proof -
  assume "i \<in> set ids"
  then have "i \<le> Max (set (0 # ids))" by (intro Max_ge) auto
  then show ?thesis by (simp only: Max.set_eq_fold fresh_def less_Suc_eq_le)
qed

datatype plan_error =
    InvalidBody
  | AssetNotFound int
  | OverCapacity real real nat
  | MissingAssets
  | Infeasible
  | ScheduleNotFound
  | NoForecastRun
  | Unhandled \<comment> \<open>an exception no handler catches: a 500 response\<close>

section \<open>Assets\<close>

record asset_create =
  ac_name :: string
  ac_type :: string
  ac_capacity :: real
  ac_ramp :: "real option"

definition type_of :: "string \<Rightarrow> asset_type option" where
  "type_of s = (if s = ''wind'' then Some WIND else if s = ''solar'' then Some SOLAR else None)"

definition ramp_of :: "asset_create \<Rightarrow> real" where
  "ramp_of b = (case ac_ramp b of None \<Rightarrow> 999 | Some r \<Rightarrow> r)"

definition create_asset :: "asset_create \<Rightarrow> portfolio_db \<Rightarrow> portfolio_db \<times> (plan_error, asset) response" where
  "create_asset b db =
     (case type_of (ac_type b) of
        None \<Rightarrow> (db, Inl (HTTPException 422 InvalidBody))
      | Some t \<Rightarrow>
          if \<not> (0 < ac_capacity b \<and> 0 < ramp_of b) then (db, Inl (HTTPException 422 InvalidBody))
          else if ac_name b \<in> as_name ` set (assets db) then (db, Inl (HTTPException 500 Unhandled))
          else let a = \<lparr>as_id = fresh (map as_id (assets db)), as_name = ac_name b, as_type = t,
                        as_capacity = ac_capacity b, as_ramp = ramp_of b\<rparr>
               in (db\<lparr>assets := assets db @ [a]\<rparr>, Inr a))"

definition get_asset :: "int \<Rightarrow> portfolio_db \<Rightarrow> (plan_error, asset) response" where
  "get_asset i db =
     (case find (\<lambda>a. int (as_id a) = i) (assets db) of
        None \<Rightarrow> Inl (HTTPException 404 (AssetNotFound i))
      | Some a \<Rightarrow> Inr a)"

section \<open>Telemetry\<close>

record telemetry_row =
  tr_asset :: int
  tr_at :: pytime
  tr_power :: real

definition bulk_valid :: "telemetry_row list \<Rightarrow> bool" where
  "bulk_valid rows \<longleftrightarrow> length rows \<le> 200 \<and> list_all (\<lambda>r. 0 \<le> tr_power r) rows"

text \<open>\<open>capacity_map\<close>: the capacities of the assets the rows name.\<close>

definition capacity_map :: "telemetry_row list \<Rightarrow> portfolio_db \<Rightarrow> int \<rightharpoonup> real" where
  "capacity_map rows db =
     map_of (map (\<lambda>a. (int (as_id a), as_capacity a))
       (filter (\<lambda>a. int (as_id a) \<in> set (map tr_asset rows)) (assets db)))"

text \<open>The validation loop stops at the first bad row.\<close>

fun check_rows :: "(int \<rightharpoonup> real) \<Rightarrow> telemetry_row list \<Rightarrow> plan_error http_error option" where
  "check_rows caps [] = None"
| "check_rows caps (r # rs) =
     (case caps (tr_asset r) of
        None \<Rightarrow> Some (HTTPException 404 (AssetNotFound (tr_asset r)))
      | Some cap \<Rightarrow>
          if cap < tr_power r then Some (HTTPException 422 (OverCapacity (tr_power r) cap (nat (tr_asset r))))
          else check_rows caps rs)"

text \<open>
  The bulk insert fails as a whole on a second row for one asset and time. What the driver does with an empty
  list of rows, an insert of no row or of one default row, is its own (\<open>empty_ok\<close>), and so is what it does with a time without
  a zone (\<open>naive_ok\<close>).
\<close>

definition te_key :: "telemetry \<Rightarrow> nat \<times> int" where
  "te_key t = (te_asset t, te_at t)"

fun number_rows :: "nat \<Rightarrow> telemetry_row list \<Rightarrow> telemetry list" where
  "number_rows n [] = []"
| "number_rows n (r # rs) =
     \<lparr>te_id = n, te_asset = nat (tr_asset r), te_at = micros (tr_at r), te_power = tr_power r\<rparr> # number_rows (Suc n) rs"

definition insert_telemetry :: "bool \<Rightarrow> bool \<Rightarrow> telemetry_row list \<Rightarrow> telemetry list \<Rightarrow> telemetry list option" where
  "insert_telemetry naive_ok empty_ok rows stored =
     (let all = stored @ number_rows (fresh (map te_id stored)) rows
      in if rows = [] \<and> \<not> empty_ok \<or> \<not> naive_ok \<and> list_ex (is_naive \<circ> tr_at) rows \<or> \<not> distinct (map te_key all)
         then None else Some all)"

definition ingest_telemetry ::
  "bool \<Rightarrow> bool \<Rightarrow> telemetry_row list \<Rightarrow> portfolio_db \<Rightarrow> portfolio_db \<times> (plan_error, nat) response" where
  "ingest_telemetry naive_ok empty_ok rows db =
     (if \<not> bulk_valid rows then (db, Inl (HTTPException 422 InvalidBody))
      else case check_rows (capacity_map rows db) rows of
             Some e \<Rightarrow> (db, Inl e)
           | None \<Rightarrow>
               (case insert_telemetry naive_ok empty_ok rows (telemetry_rows db) of
                  None \<Rightarrow> (db, Inl (HTTPException 500 Unhandled))
                | Some all \<Rightarrow> (db\<lparr>telemetry_rows := all\<rparr>, Inr (length rows))))"

definition get_chunk_count :: "nat option \<Rightarrow> nat" where
  "get_chunk_count query = (case query of None \<Rightarrow> 0 | Some n \<Rightarrow> n)"


section \<open>The invariant of assets and telemetry\<close>

definition data_inv :: "portfolio_db \<Rightarrow> bool" where
  "data_inv db \<longleftrightarrow>
     distinct (map as_id (assets db)) \<and> distinct (map as_name (assets db)) \<and>
     (\<forall>a\<in>set (assets db). 0 < as_capacity a \<and> 0 < as_ramp a) \<and>
     distinct (map te_key (telemetry_rows db)) \<and>
     (\<forall>t\<in>set (telemetry_rows db). \<exists>a\<in>set (assets db). as_id a = te_asset t \<and> 0 \<le> te_power t \<and> te_power t \<le> as_capacity a)"

lemma data_inv_empty: "data_inv portfolio_empty"
  by (simp add: data_inv_def portfolio_empty_def)

lemma fresh_notin: "fresh ids \<notin> set ids"
  using fresh_greater by blast

lemma data_inv_create:
  assumes "data_inv db"
  shows "data_inv (fst (create_asset b db))"
  using assms fresh_notin [of "map as_id (assets db)"]
  by (auto simp: create_asset_def data_inv_def Let_def split: option.split)

lemma find_asset:
  assumes "data_inv db" and "a \<in> set (assets db)"
  shows "get_asset (int (as_id a)) db = Inr a"
  using find_distinct [of as_id "assets db" a] assms by (simp add: get_asset_def data_inv_def)

lemma get_asset_Inr: "get_asset i db = Inr a \<Longrightarrow> a \<in> set (assets db) \<and> int (as_id a) = i"
  by (auto simp: get_asset_def find_Some_iff split: option.splits)

text \<open>The map of the handler agrees with the table on the assets it asked for.\<close>

lemma capacity_map_eq:
  assumes "data_inv db" and "r \<in> set rows"
  shows "capacity_map rows db (tr_asset r) =
    (case get_asset (tr_asset r) db of Inl _ \<Rightarrow> None | Inr a \<Rightarrow> Some (as_capacity a))"
proof -
  have m: "map_of (map (\<lambda>a. (int (as_id a), as_capacity a)) (filter (\<lambda>a. int (as_id a) \<in> S) as)) i =
      map_option as_capacity (find (\<lambda>a. int (as_id a) = i) as)" if "i \<in> S" for as S i
    using that by (induction as) auto
  show ?thesis
    using m [of "tr_asset r" "set (map tr_asset rows)" "assets db"] assms(2)
    by (auto simp: capacity_map_def get_asset_def split: option.split)
qed

definition row_fits :: "portfolio_db \<Rightarrow> telemetry_row \<Rightarrow> bool" where
  "row_fits db r \<longleftrightarrow> (case get_asset (tr_asset r) db of Inl _ \<Rightarrow> False | Inr a \<Rightarrow> tr_power r \<le> as_capacity a)"

definition row_error :: "portfolio_db \<Rightarrow> telemetry_row \<Rightarrow> plan_error http_error" where
  "row_error db r =
     (case get_asset (tr_asset r) db of
        Inl e \<Rightarrow> e
      | Inr a \<Rightarrow> HTTPException 422 (OverCapacity (tr_power r) (as_capacity a) (nat (tr_asset r))))"

text \<open>The loop as a search for the first row that does not fit.\<close>

lemma check_rows_find:
  assumes "data_inv db" and "set rs \<subseteq> set rows"
  shows "check_rows (capacity_map rows db) rs = map_option (row_error db) (find (\<lambda>r. \<not> row_fits db r) rs)"
  using assms(2)
proof (induction rs)
  case Nil
  show ?case by simp
next
  case (Cons r rs)
  then have "capacity_map rows db (tr_asset r) =
      (case get_asset (tr_asset r) db of Inl _ \<Rightarrow> None | Inr a \<Rightarrow> Some (as_capacity a))"
    by (intro capacity_map_eq [OF assms(1)]) simp
  moreover have "get_asset i db = Inl e \<Longrightarrow> e = HTTPException 404 (AssetNotFound i)" for i e
    by (auto simp: get_asset_def split: option.splits)
  ultimately show ?case
    using Cons by (auto simp: row_fits_def row_error_def split: sum.splits)
qed

lemma number_rows_data:
  "map te_asset (number_rows n rs) = map (nat \<circ> tr_asset) rs \<and> map te_at (number_rows n rs) = map (micros \<circ> tr_at) rs \<and>
   map te_power (number_rows n rs) = map tr_power rs"
  by (induction rs arbitrary: n) auto

lemma number_rows_in: "t \<in> set (number_rows n rs) \<Longrightarrow>
    \<exists>r\<in>set rs. te_asset t = nat (tr_asset r) \<and> te_at t = micros (tr_at r) \<and> te_power t = tr_power r"
  by (induction rs arbitrary: n) auto

lemma data_inv_rows:
  assumes "data_inv db" and "list_all (row_fits db) rows" and "list_all (\<lambda>r. 0 \<le> tr_power r) rows"
    and "distinct (map te_key (telemetry_rows db @ number_rows n rows))"
  shows "data_inv (db\<lparr>telemetry_rows := telemetry_rows db @ number_rows n rows\<rparr>)"
proof -
  have "\<exists>a\<in>set (assets db). as_id a = te_asset t \<and> 0 \<le> te_power t \<and> te_power t \<le> as_capacity a"
    if "t \<in> set (number_rows n rows)" for t
  proof -
    from number_rows_in [OF that] obtain r where r: "r \<in> set rows" "te_asset t = nat (tr_asset r)" "te_power t = tr_power r"
      by blast
    then have "row_fits db r" "0 \<le> tr_power r" using assms(2,3) by (auto simp: list_all_iff)
    then obtain a where "get_asset (tr_asset r) db = Inr a" "tr_power r \<le> as_capacity a"
      by (auto simp: row_fits_def split: sum.splits)
    moreover from get_asset_Inr [OF this(1)] have "a \<in> set (assets db)" "as_id a = te_asset t"
      using r(2) by auto
    ultimately show ?thesis using r(3) \<open>0 \<le> tr_power r\<close> by auto
  qed
  then show ?thesis using assms(1,4) by (auto simp: data_inv_def)
qed

text \<open>What the insert stores, when the driver takes it.\<close>

definition row_key :: "telemetry_row \<Rightarrow> nat \<times> int" where
  "row_key r = (nat (tr_asset r), micros (tr_at r))"

lemma number_rows_keys: "map te_key (number_rows n rows) = map row_key rows"
  by (induction rows arbitrary: n) (simp_all add: te_key_def row_key_def)

lemma insert_telemetry_cases:
  "case insert_telemetry naive_ok empty_ok rows stored of
     None \<Rightarrow> rows = [] \<or> list_ex (is_naive \<circ> tr_at) rows \<or> \<not> distinct (map te_key stored @ map row_key rows)
   | Some all \<Rightarrow> all = stored @ number_rows (fresh (map te_id stored)) rows \<and> distinct (map te_key all)"
  by (auto simp: insert_telemetry_def Let_def number_rows_keys)

lemma data_inv_ingest:
  assumes "data_inv db"
  shows "data_inv (fst (ingest_telemetry naive_ok empty_ok rows db))"
proof (cases "bulk_valid rows \<and> find (\<lambda>r. \<not> row_fits db r) rows = None")
  case False
  then show ?thesis using assms by (auto simp: ingest_telemetry_def check_rows_find [OF assms subset_refl])
next
  case True
  then have "list_all (row_fits db) rows" "list_all (\<lambda>r. 0 \<le> tr_power r) rows"
    by (auto simp: find_None_iff list_all_iff bulk_valid_def)
  with data_inv_rows [OF assms] assms insert_telemetry_cases [where naive_ok = naive_ok and empty_ok = empty_ok and rows = rows and stored = "telemetry_rows db"]
  show ?thesis by (auto simp: ingest_telemetry_def split: option.splits)
qed

text \<open>
  Telemetry is stored as a whole or not at all: a body with more than 200 rows or a negative power
  is refused; otherwise the answer is that of the first row whose asset is unknown (404) or whose
  power exceeds its capacity (422); otherwise either all rows are appended in order under new ids, or
  the insert fails with 500: it breaks the uniqueness of an asset and time, or its driver refuses a time without a zone or an empty list. In each case the tables
  keep their invariant: every stored power lies between zero and the capacity of an existing asset.
\<close>

theorem ingest_telemetry_spec:
  assumes "data_inv db"
  shows "data_inv (fst (ingest_telemetry naive_ok empty_ok rows db)) \<and>
    (case snd (ingest_telemetry naive_ok empty_ok rows db) of
       Inl e \<Rightarrow> fst (ingest_telemetry naive_ok empty_ok rows db) = db \<and>
         (if \<not> bulk_valid rows then e = HTTPException 422 InvalidBody
          else case find (\<lambda>r. \<not> row_fits db r) rows of
                 Some r \<Rightarrow> e = row_error db r
               | None \<Rightarrow> e = HTTPException 500 Unhandled \<and>
                   (rows = [] \<or> list_ex (is_naive \<circ> tr_at) rows \<or>
                    \<not> distinct (map te_key (telemetry_rows db) @ map row_key rows)))
     | Inr n \<Rightarrow> n = length rows \<and> bulk_valid rows \<and> list_all (row_fits db) rows \<and>
         (\<exists>new. telemetry_rows (fst (ingest_telemetry naive_ok empty_ok rows db)) = telemetry_rows db @ new \<and>
            map te_power new = map tr_power rows \<and> map te_key new = map row_key rows))"
proof (cases "bulk_valid rows \<and> find (\<lambda>r. \<not> row_fits db r) rows = None")
  case False
  then show ?thesis using assms by (auto simp: ingest_telemetry_def check_rows_find [OF assms subset_refl])
next
  case True
  then have fits: "list_all (row_fits db) rows" by (auto simp: find_None_iff list_all_iff)
  note stored = insert_telemetry_cases [where naive_ok = naive_ok and empty_ok = empty_ok and rows = rows and stored = "telemetry_rows db"]
  have run: "ingest_telemetry naive_ok empty_ok rows db =
      (case insert_telemetry naive_ok empty_ok rows (telemetry_rows db) of
         None \<Rightarrow> (db, Inl (HTTPException 500 Unhandled)) | Some all \<Rightarrow> (db\<lparr>telemetry_rows := all\<rparr>, Inr (length rows)))"
    using True by (simp add: ingest_telemetry_def check_rows_find [OF assms subset_refl])
  show ?thesis
  proof (cases "insert_telemetry naive_ok empty_ok rows (telemetry_rows db)")
    case None
    then show ?thesis using assms True stored by (simp add: run)
  next
    case (Some all)
    then show ?thesis
      using True fits stored data_inv_ingest [OF assms, of naive_ok empty_ok rows] number_rows_keys number_rows_data
      by (simp add: run)
  qed
qed

definition wind_db :: portfolio_db where
  "wind_db = fst (create_asset \<lparr>ac_name = ''Wind-1'', ac_type = ''wind'', ac_capacity = 50, ac_ramp = None\<rparr> portfolio_empty)"

lemma data_inv_wind: "data_inv wind_db"
  unfolding wind_db_def by (intro data_inv_create data_inv_empty)

lemma assets_wind: "assets wind_db = [\<lparr>as_id = 1, as_name = ''Wind-1'', as_type = WIND, as_capacity = 50, as_ramp = 999\<rparr>]"
  by (simp add: wind_db_def create_asset_def type_of_def ramp_of_def portfolio_empty_def fresh_def Let_def)

definition sample_rows :: "telemetry_row list" where
  "sample_rows = [\<lparr>tr_asset = 1, tr_at = Aware 0, tr_power = 20\<rparr>, \<lparr>tr_asset = 1, tr_at = Aware 900, tr_power = 60\<rparr>]"

theorem ingest_telemetry_spec_witness:
  "ingest_telemetry False True sample_rows wind_db = (wind_db, Inl (HTTPException 422 (OverCapacity 60 50 1)))"
proof -
  have find: "find (\<lambda>r. \<not> row_fits wind_db r) sample_rows = Some \<lparr>tr_asset = 1, tr_at = Aware 900, tr_power = 60\<rparr>"
    by (simp add: row_fits_def get_asset_def assets_wind sample_rows_def)
  have err: "row_error wind_db \<lparr>tr_asset = 1, tr_at = Aware 900, tr_power = 60\<rparr> = HTTPException 422 (OverCapacity 60 50 1)"
    by (simp add: row_error_def get_asset_def assets_wind)
  have valid: "bulk_valid sample_rows" by (simp add: bulk_valid_def sample_rows_def)
  have "\<not> list_all (row_fits wind_db) sample_rows"
    by (simp add: row_fits_def get_asset_def assets_wind sample_rows_def)
  then show ?thesis
    using ingest_telemetry_spec [OF data_inv_wind, of False True sample_rows]
    by (cases "ingest_telemetry False True sample_rows wind_db")
      (auto simp: find err valid split: sum.splits)
qed

end
