(* ===== verification/Portfolio_Fahrplan.thy ===== *)
theory Portfolio_Fahrplan
  imports Portfolio_Data
begin

text \<open>
  The portfolio dispatch service, second part: schedules ("Fahrplan"), their validation
  (\<open>models/schemas.py\<close>), creation, reading and patching (\<open>fahrplan/router.py\<close>) and the archive behind
  the \<open>BlobStore\<close> protocol (\<open>fahrplan/blob_store.py\<close>).

  A \<open>SELECT\<close> without \<open>ORDER BY\<close> returns its rows in an order of the database's choice: the
  argument \<open>scan\<close>, of which the properties assume only that it permutes its rows.
\<close>

section \<open>The bodies\<close>

record interval =
  iv_asset :: int
  iv_start :: int
  iv_end :: int
  iv_mw :: real
  iv_status :: schedule_status

definition hour_us :: int where
  "hour_us = 3600000000"

definition interval_ok :: "interval \<Rightarrow> bool" where
  "interval_ok i \<longleftrightarrow> 0 \<le> iv_mw i \<and> \<not> 1000000 < \<bar>iv_end i - iv_start i - hour_us\<bar>"

record fahrplan =
  fp_id :: uuid
  fp_portfolio :: int
  fp_date :: date
  fp_at :: int
  fp_intervals :: "interval list"

definition fahrplan_ok :: "fahrplan \<Rightarrow> bool" where
  "fahrplan_ok f \<longleftrightarrow> date_ok (fp_date f) \<and> list_all interval_ok (fp_intervals f)"

record patch =
  pa_intervals :: "interval list option"
  pa_status :: "schedule_status option"

section \<open>The archive\<close>

text \<open>\<open>str(uuid)\<close>: 32 hexadecimal digits in groups of 8, 4, 4, 4 and 12.\<close>

definition hex_digit :: "nat \<Rightarrow> char" where
  "hex_digit n = char_of (if n < 10 then 48 + n else 87 + n)"

definition nibble :: "uuid \<Rightarrow> nat \<Rightarrow> nat" where
  "nibble u i = unat (take_bit 4 (drop_bit (4 * i) u))"

definition uuid_hex :: "uuid \<Rightarrow> string" where
  "uuid_hex u = map (\<lambda>i. hex_digit (nibble u (31 - i))) [0..<32]"

definition uuid_str :: "uuid \<Rightarrow> string" where
  "uuid_str u =
     (let h = uuid_hex u
      in take 8 h @ ''-'' @ take 4 (drop 8 h) @ ''-'' @ take 4 (drop 12 h) @ ''-'' @ take 4 (drop 16 h) @ ''-'' @ drop 20 h)"

text \<open>\<open>show_int\<close> is the decimal text of a portfolio number.\<close>

definition blob_key :: "(int \<Rightarrow> string) \<Rightarrow> fahrplan \<Rightarrow> string" where
  "blob_key show_int f =
     show_int (fp_portfolio f) @ ''/'' @ iso_date (fp_date f) @ ''/'' @ uuid_str (fp_id f) @ ''.json''"

text \<open>
  The two implementations of the protocol. The container of the Azure store maps keys to bodies, and
  an upload may raise (\<open>None\<close>), which leaves the container as it was.
\<close>

type_synonym container = "string \<rightharpoonup> fahrplan"

definition null_archive :: "(int \<Rightarrow> string) \<Rightarrow> container \<Rightarrow> fahrplan \<Rightarrow> container \<times> string option" where
  "null_archive show_int c f = (c, Some (''null/'' @ blob_key show_int f))"

definition azure_archive :: "(int \<Rightarrow> string) \<Rightarrow> (string \<Rightarrow> bool) \<Rightarrow> container \<Rightarrow> fahrplan \<Rightarrow> container \<times> string option" where
  "azure_archive show_int up c f =
     (let key = blob_key show_int f
      in if up key then (c(key \<mapsto> f), Some key) else (c, None))"

definition get_blob_store ::
  "(int \<Rightarrow> string) \<Rightarrow> (string \<Rightarrow> bool) \<Rightarrow> string \<Rightarrow> container \<Rightarrow> fahrplan \<Rightarrow> container \<times> string option" where
  "get_blob_store show_int up connection_string =
     (if connection_string \<noteq> [] then azure_archive show_int up else null_archive show_int)"

lemma hex_digit_inj: "m < 16 \<Longrightarrow> n < 16 \<Longrightarrow> hex_digit m = hex_digit n \<Longrightarrow> m = n"
proof -
  assume a: "m < 16" "n < 16" and "hex_digit m = hex_digit n"
  then have "(of_char (hex_digit m) :: nat) = of_char (hex_digit n)" by simp
  then show "m = n" using a by (simp add: hex_digit_def of_char_of split: if_splits)
qed

lemma nibble_less: "nibble u i < 16"
  using take_bit_nat_less_exp [of 4 "unat (drop_bit (4 * i) u)"]
  by (simp add: nibble_def unsigned_take_bit_eq)

lemma bit_nibble: "j < 4 \<Longrightarrow> bit (nibble u i) j \<longleftrightarrow> bit u (4 * i + j)"
  by (simp add: nibble_def bit_unsigned_iff bit_take_bit_iff bit_drop_bit_eq)

lemma uuid_hex_inj: "uuid_hex u = uuid_hex v \<Longrightarrow> u = v"
proof (rule bit_word_eqI)
  fix n assume eq: "uuid_hex u = uuid_hex v" and "n < LENGTH(128)"
  then have "n div 4 < 32" by simp
  from eq have "\<forall>i<32. hex_digit (nibble u (31 - i)) = hex_digit (nibble v (31 - i))"
    by (auto simp: uuid_hex_def)
  then have "hex_digit (nibble u (31 - (31 - n div 4))) = hex_digit (nibble v (31 - (31 - n div 4)))"
    by (rule allE [where x = "31 - n div 4"]) simp
  then have "nibble u (n div 4) = nibble v (n div 4)"
    using \<open>n div 4 < 32\<close> by (intro hex_digit_inj nibble_less) simp
  then show "bit u n = bit v n"
    using bit_nibble [of "n mod 4" u "n div 4"] bit_nibble [of "n mod 4" v "n div 4"]
    by (simp add: mult.commute)
qed

lemma length_uuid_hex [simp]: "length (uuid_hex u) = 32"
  by (simp add: uuid_hex_def)

lemma length_uuid_str [simp]: "length (uuid_str u) = 36"
  by (simp add: uuid_str_def Let_def)

lemma uuid_str_inj: "uuid_str u = uuid_str v \<Longrightarrow> u = v"
proof (rule uuid_hex_inj)
  assume eq: "uuid_str u = uuid_str v"
  have cut: "uuid_hex w = take 8 (uuid_str w) @ take 4 (drop 9 (uuid_str w)) @ take 4 (drop 14 (uuid_str w)) @
      take 4 (drop 19 (uuid_str w)) @ drop 24 (uuid_str w)" for w
    by (intro nth_equalityI) (auto simp: uuid_str_def Let_def nth_append)
  show "uuid_hex u = uuid_hex v" by (subst (1 2) cut) (simp only: eq)
qed


text \<open>
  The protocol: what a client of a store may rely on. A key belongs to one schedule, a failed upload changes
  nothing, and a successful one is found under its key (as \<open>content\<close>) and disturbs no other key.
\<close>

locale blob_store =
  fixes archive :: "'c \<Rightarrow> fahrplan \<Rightarrow> 'c \<times> string option"
    and holds :: "'c \<Rightarrow> string \<Rightarrow> fahrplan option"
    and content :: "fahrplan \<Rightarrow> fahrplan option"
  assumes key_unique: "snd (archive c f) = Some k \<Longrightarrow> snd (archive d g) = Some k \<Longrightarrow> fp_id f = fp_id g"
    and archived: "snd (archive c f) = Some k \<Longrightarrow> holds (fst (archive c f)) k = content f"
    and undisturbed: "snd (archive c f) \<noteq> Some k \<Longrightarrow> holds (fst (archive c f)) k = holds c k"
begin

text \<open>Plans archived after another, with other ids, leave it where it is.\<close>

lemma archived_stays:
  assumes "snd (archive c f) = Some k" and "fp_id f \<notin> fp_id ` set fs"
  shows "holds (foldl (\<lambda>c f. fst (archive c f)) (fst (archive c f)) fs) k = content f"
  using assms(2)
proof (induction fs rule: rev_induct)
  case Nil
  then show ?case using archived [OF assms(1)] by simp
next
  case (snoc g gs)
  then have "snd (archive d g) \<noteq> Some k" for d
    using key_unique [OF assms(1), of d g] by auto
  with snoc show ?case by (simp add: undisturbed)
qed

lemma archived_all:
  assumes "distinct (map fp_id (before @ f # after))"
    and "snd (archive (foldl (\<lambda>c f. fst (archive c f)) c before) f) = Some k"
  shows "holds (foldl (\<lambda>c f. fst (archive c f)) c (before @ f # after)) k = content f"
  using archived_stays [OF assms(2), of after] assms(1) by auto

end

lemma blob_key_id: "blob_key show_int f = blob_key show_int g \<Longrightarrow> fp_id f = fp_id g"
proof -
  assume eq: "blob_key show_int f = blob_key show_int g"
  have tail: "take 36 (rev (take 41 (rev (blob_key show_int h)))) = uuid_str (fp_id h)" for h
    by (simp add: blob_key_def)
  from eq have "uuid_str (fp_id f) = uuid_str (fp_id g)" by (metis tail)
  then show ?thesis by (rule uuid_str_inj)
qed

interpretation null_store: blob_store "null_archive show_int" "\<lambda>c k. None" "\<lambda>f. None"
  for show_int :: "int \<Rightarrow> string"
  by unfold_locales (auto simp: null_archive_def intro: blob_key_id [OF sym])

interpretation azure_store: blob_store "azure_archive show_int up" "\<lambda>c k. c k" Some
  for show_int :: "int \<Rightarrow> string" and up :: "string \<Rightarrow> bool"
proof unfold_locales
  show "snd (azure_archive show_int up c f) = Some k \<Longrightarrow> snd (azure_archive show_int up d g) = Some k \<Longrightarrow> fp_id f = fp_id g"
    for c f k d g
    using blob_key_id [of show_int f g] by (auto simp: azure_archive_def Let_def split: if_splits)
  show "snd (azure_archive show_int up c f) = Some k \<Longrightarrow> fst (azure_archive show_int up c f) k = Some f" for c f k
    by (auto simp: azure_archive_def Let_def split: if_splits)
  show "snd (azure_archive show_int up c f) \<noteq> Some k \<Longrightarrow> fst (azure_archive show_int up c f) k = c k" for c f k
    by (auto simp: azure_archive_def Let_def split: if_splits)
qed

section \<open>The endpoints\<close>

definition plan_row_of :: "uuid \<Rightarrow> nat \<Rightarrow> interval \<Rightarrow> plan_row" where
  "plan_row_of sid i iv =
     \<lparr>pl_id = i, pl_schedule = sid, pl_asset = iv_asset iv, pl_start = iv_start iv, pl_end = iv_end iv,
      pl_mw = iv_mw iv, pl_status = iv_status iv\<rparr>"

fun number_plan :: "uuid \<Rightarrow> nat \<Rightarrow> interval list \<Rightarrow> plan_row list" where
  "number_plan sid n [] = []"
| "number_plan sid n (iv # ivs) = plan_row_of sid n iv # number_plan sid (Suc n) ivs"

text \<open>Inserting a schedule with its intervals; \<open>None\<close> is a second schedule under one id.\<close>

definition insert_schedule :: "fahrplan \<Rightarrow> portfolio_db \<Rightarrow> portfolio_db option" where
  "insert_schedule f db =
     (if fp_id f \<in> sc_id ` set (schedules db) then None
      else Some (db\<lparr>schedules := schedules db @
               [\<lparr>sc_id = fp_id f, sc_portfolio = fp_portfolio f, sc_date = iso_date (fp_date f), sc_at = fp_at f\<rparr>],
             plan_rows := plan_rows db @ number_plan (fp_id f) (fresh (map pl_id (plan_rows db))) (fp_intervals f)\<rparr>))"

text \<open>The schedule is committed before it is archived.\<close>

definition create_fahrplan ::
  "('c \<Rightarrow> fahrplan \<Rightarrow> 'c \<times> string option) \<Rightarrow> fahrplan \<Rightarrow> portfolio_db \<times> 'c
   \<Rightarrow> (portfolio_db \<times> 'c) \<times> (plan_error, fahrplan) response" where
  "create_fahrplan archive body s =
     (case s of (db, blobs) \<Rightarrow>
       (if \<not> fahrplan_ok body then (s, Inl (HTTPException 422 InvalidBody))
        else case insert_schedule body db of
               None \<Rightarrow> (s, Inl (HTTPException 500 Unhandled))
             | Some db' \<Rightarrow>
                 (case archive blobs body of
                    (blobs', None) \<Rightarrow> ((db', blobs'), Inl (HTTPException 500 Unhandled))
                  | (blobs', Some key) \<Rightarrow> ((db', blobs'), Inr body))))"

definition interval_of :: "plan_row \<Rightarrow> interval" where
  "interval_of r =
     \<lparr>iv_asset = pl_asset r, iv_start = pl_start r, iv_end = pl_end r, iv_mw = pl_mw r, iv_status = pl_status r\<rparr>"

text \<open>Reading validates what it reads: a bad stored interval or date fails with 500.\<close>

definition get_fahrplan ::
  "(plan_row list \<Rightarrow> plan_row list) \<Rightarrow> uuid \<Rightarrow> portfolio_db \<Rightarrow> (plan_error, fahrplan) response" where
  "get_fahrplan scan sid db =
     (case find (\<lambda>s. sc_id s = sid) (schedules db) of
        None \<Rightarrow> Inl (HTTPException 404 ScheduleNotFound)
      | Some s \<Rightarrow>
          let ivs = map interval_of (scan (filter (\<lambda>r. pl_schedule r = sid) (plan_rows db)))
          in if \<not> list_all interval_ok ivs then Inl (HTTPException 500 Unhandled)
             else case date_fromiso (sc_date s) of
                    None \<Rightarrow> Inl (HTTPException 500 Unhandled)
                  | Some date \<Rightarrow> Inr \<lparr>fp_id = sid, fp_portfolio = sc_portfolio s, fp_date = date,
                                    fp_at = sc_at s, fp_intervals = ivs\<rparr>)"

definition apply_status :: "uuid \<Rightarrow> schedule_status \<Rightarrow> plan_row list \<Rightarrow> plan_row list" where
  "apply_status sid st = map (\<lambda>r. if pl_schedule r = sid then r\<lparr>pl_status := st\<rparr> else r)"

text \<open>The inner loop of a patch: every stored interval of the asset takes the power and the status.\<close>

definition apply_interval :: "uuid \<Rightarrow> interval \<Rightarrow> plan_row list \<Rightarrow> plan_row list" where
  "apply_interval sid iv =
     map (\<lambda>r. if pl_schedule r = sid \<and> pl_asset r = iv_asset iv then r\<lparr>pl_mw := iv_mw iv, pl_status := iv_status iv\<rparr> else r)"

definition patch_valid :: "patch \<Rightarrow> bool" where
  "patch_valid p \<longleftrightarrow> (case pa_intervals p of None \<Rightarrow> True | Some ivs \<Rightarrow> list_all interval_ok ivs)"

definition patch_fahrplan ::
  "(plan_row list \<Rightarrow> plan_row list) \<Rightarrow> uuid \<Rightarrow> patch \<Rightarrow> portfolio_db \<Rightarrow> portfolio_db \<times> (plan_error, fahrplan) response" where
  "patch_fahrplan scan sid p db =
     (if \<not> patch_valid p then (db, Inl (HTTPException 422 InvalidBody))
      else if find (\<lambda>s. sc_id s = sid) (schedules db) = None then (db, Inl (HTTPException 404 ScheduleNotFound))
      else let rows1 = (case pa_status p of None \<Rightarrow> plan_rows db | Some st \<Rightarrow> apply_status sid st (plan_rows db));
               rows2 = (case pa_intervals p of None \<Rightarrow> rows1 | Some ivs \<Rightarrow> fold (apply_interval sid) ivs rows1);
               db' = db\<lparr>plan_rows := rows2\<rparr>
           in (db', get_fahrplan scan sid db'))"


section \<open>The invariant of schedules\<close>

definition stored_date :: "string \<Rightarrow> bool" where
  "stored_date s \<longleftrightarrow> (\<exists>d. date_ok d \<and> s = iso_date d)"

lemma stored_dateI: "date_ok d \<Longrightarrow> stored_date (iso_date d)"
  unfolding stored_date_def by blast

definition plan_inv :: "portfolio_db \<Rightarrow> bool" where
  "plan_inv db \<longleftrightarrow>
     distinct (map sc_id (schedules db)) \<and> distinct (map pl_id (plan_rows db)) \<and>
     (\<forall>r\<in>set (plan_rows db). interval_ok (interval_of r) \<and> pl_schedule r \<in> sc_id ` set (schedules db)) \<and>
     (\<forall>s\<in>set (schedules db). stored_date (sc_date s))"

lemma plan_inv_empty: "plan_inv portfolio_empty"
  by (simp add: plan_inv_def portfolio_empty_def)

lemma number_plan_sel:
  "map pl_id (number_plan sid n ivs) = [n..<n + length ivs] \<and> map interval_of (number_plan sid n ivs) = ivs \<and>
   list_all (\<lambda>r. pl_schedule r = sid) (number_plan sid n ivs)"
proof (induction ivs arbitrary: n)
  case (Cons iv ivs)
  have "[n..<n + length (iv # ivs)] = n # [Suc n..<Suc n + length ivs]" by (simp add: upt_rec)
  with Cons show ?case by (simp add: plan_row_of_def interval_of_def)
qed simp

lemma number_plan_in:
  assumes "r \<in> set (number_plan sid n ivs)"
  shows "pl_schedule r = sid" and "n \<le> pl_id r" and "interval_of r \<in> set ivs"
proof -
  have "pl_id r \<in> set (map pl_id (number_plan sid n ivs))" "interval_of r \<in> set (map interval_of (number_plan sid n ivs))"
    using assms by auto
  then show "n \<le> pl_id r" "interval_of r \<in> set ivs"
    using number_plan_sel [of sid n ivs] by auto
  show "pl_schedule r = sid" using assms number_plan_sel [of sid n ivs] by (auto simp: list_all_iff)
qed

lemma plan_inv_insert:
  assumes "plan_inv db" and "fahrplan_ok f" and "insert_schedule f db = Some db'"
  shows "plan_inv db'"
proof -
  let ?n = "fresh (map pl_id (plan_rows db))"
  let ?new = "number_plan (fp_id f) ?n (fp_intervals f)"
  from assms(3) have new: "fp_id f \<notin> sc_id ` set (schedules db)"
    and db': "schedules db' = schedules db @
        [\<lparr>sc_id = fp_id f, sc_portfolio = fp_portfolio f, sc_date = iso_date (fp_date f), sc_at = fp_at f\<rparr>]"
      "plan_rows db' = plan_rows db @ ?new"
    by (auto simp: insert_schedule_def split: if_splits)
  have "distinct (map pl_id ?new)" using number_plan_sel [of "fp_id f" ?n "fp_intervals f"] by simp
  moreover have "pl_id r \<noteq> pl_id r'" if "r \<in> set (plan_rows db)" "r' \<in> set ?new" for r r'
    using number_plan_in(2) [OF that(2)] fresh_greater [of "pl_id r" "map pl_id (plan_rows db)"] that(1) by auto
  ultimately have "distinct (map pl_id (plan_rows db'))"
    using assms(1) by (fastforce simp: db' plan_inv_def)
  moreover have "interval_ok (interval_of r) \<and> pl_schedule r \<in> sc_id ` set (schedules db')" if "r \<in> set (plan_rows db')" for r
    using that assms(1,2) number_plan_in [of r] by (auto simp: db' plan_inv_def fahrplan_ok_def list_all_iff)
  ultimately show ?thesis
    using assms(1,2) new by (auto simp: plan_inv_def db'(1) fahrplan_ok_def stored_dateI simp del: date_ok.simps iso_date.simps)
qed

text \<open>The rows of a schedule, and reading it on well-formed tables.\<close>

definition rows_for :: "uuid \<Rightarrow> portfolio_db \<Rightarrow> plan_row list" where
  "rows_for sid db = filter (\<lambda>r. pl_schedule r = sid) (plan_rows db)"

definition permuting :: "('r list \<Rightarrow> 'r list) \<Rightarrow> bool" where
  "permuting scan \<longleftrightarrow> (\<forall>rows. mset (scan rows) = mset rows)"

lemma permuting_set: "permuting scan \<Longrightarrow> set (scan rows) = set rows"
  unfolding permuting_def by (metis set_mset_mset)

lemma get_fahrplan_eq:
  assumes "plan_inv db" and "permuting scan" and "s \<in> set (schedules db)" and "date_ok d" and "sc_date s = iso_date d"
  shows "get_fahrplan scan (sc_id s) db =
    Inr \<lparr>fp_id = sc_id s, fp_portfolio = sc_portfolio s, fp_date = d, fp_at = sc_at s,
      fp_intervals = map interval_of (scan (rows_for (sc_id s) db))\<rparr>"
proof -
  have "find (\<lambda>t. sc_id t = sc_id s) (schedules db) = Some s"
    using assms(1,3) by (intro find_distinct) (auto simp: plan_inv_def)
  moreover have "list_all interval_ok (map interval_of (scan (rows_for (sc_id s) db)))"
    using assms(1) permuting_set [OF assms(2)] by (auto simp: list_all_iff rows_for_def plan_inv_def)
  ultimately show ?thesis
    using date_iso_roundtrip [OF assms(4)] assms(5) by (simp add: get_fahrplan_def rows_for_def Let_def)
qed

lemma get_fahrplan_unknown: "sid \<notin> sc_id ` set (schedules db) \<Longrightarrow> get_fahrplan scan sid db = Inl (HTTPException 404 ScheduleNotFound)"
proof -
  assume "sid \<notin> sc_id ` set (schedules db)"
  then have "find (\<lambda>s. sc_id s = sid) (schedules db) = None" by (auto simp: find_None_iff)
  then show ?thesis by (simp add: get_fahrplan_def)
qed

lemma insert_schedule_reads:
  assumes "plan_inv db" and "fahrplan_ok f" and "insert_schedule f db = Some db'" and "permuting scan"
  shows "\<exists>ivs. get_fahrplan scan (fp_id f) db' = Inr (f\<lparr>fp_intervals := ivs\<rparr>) \<and> mset ivs = mset (fp_intervals f)"
    and "sid \<noteq> fp_id f \<Longrightarrow> get_fahrplan scan sid db' = get_fahrplan scan sid db"
proof -
  let ?n = "fresh (map pl_id (plan_rows db))"
  let ?new = "number_plan (fp_id f) ?n (fp_intervals f)"
  let ?s = "\<lparr>sc_id = fp_id f, sc_portfolio = fp_portfolio f, sc_date = iso_date (fp_date f), sc_at = fp_at f\<rparr>"
  from assms(3) have new: "fp_id f \<notin> sc_id ` set (schedules db)"
    and db': "schedules db' = schedules db @ [?s]" "plan_rows db' = plan_rows db @ ?new"
    by (auto simp: insert_schedule_def split: if_splits)
  have "pl_schedule r \<noteq> fp_id f" if "r \<in> set (plan_rows db)" for r
  proof -
    have "pl_schedule r \<in> sc_id ` set (schedules db)" using assms(1) that by (simp add: plan_inv_def)
    then show ?thesis using new by metis
  qed
  then have old: "filter (\<lambda>r. pl_schedule r = fp_id f) (plan_rows db) = []"
    by (simp add: filter_empty_conv)
  have "filter (\<lambda>r. pl_schedule r = fp_id f) ?new = ?new"
    using number_plan_in(1) by (intro filter_True) auto
  then have rows: "rows_for (fp_id f) db' = ?new" by (simp add: rows_for_def db' old)
  let ?ivs = "map interval_of (scan ?new)"
  have "mset ?ivs = image_mset interval_of (mset ?new)" using assms(4) by (simp add: permuting_def)
  also have "\<dots> = mset (fp_intervals f)"
    using number_plan_sel [of "fp_id f" ?n "fp_intervals f"] by (metis mset_map)
  finally have "mset ?ivs = mset (fp_intervals f)" .
  moreover have "get_fahrplan scan (fp_id f) db' = Inr (f\<lparr>fp_intervals := ?ivs\<rparr>)"
    using get_fahrplan_eq [OF plan_inv_insert [OF assms(1-3)] assms(4), of ?s "fp_date f"] assms(2)
    by (simp add: db' rows fahrplan_ok_def)
  ultimately show "\<exists>ivs. get_fahrplan scan (fp_id f) db' = Inr (f\<lparr>fp_intervals := ivs\<rparr>) \<and> mset ivs = mset (fp_intervals f)"
    by blast
  assume ne: "sid \<noteq> fp_id f"
  then have "filter (\<lambda>r. pl_schedule r = sid) ?new = []"
    using number_plan_in(1) by (auto simp: filter_empty_conv)
  then have rows: "filter (\<lambda>r. pl_schedule r = sid) (plan_rows db') = filter (\<lambda>r. pl_schedule r = sid) (plan_rows db)"
    by (simp add: db')
  have "find (\<lambda>s. sc_id s = sid) (ss @ [?s]) = find (\<lambda>s. sc_id s = sid) ss" for ss
    using ne by (induction ss) auto
  then show "get_fahrplan scan sid db' = get_fahrplan scan sid db"
    unfolding get_fahrplan_def rows db'(1) by simp
qed


text \<open>
  C38. Creating and reading schedules: a valid schedule under a new id is stored, and reading it gives it back,
  with its intervals in some order, while every other schedule reads as before; this is so even when
  the archive then fails and the request is answered with 500. Creating it a second time is not the upsert the
  code announces: it fails with 500 and changes nothing. The tables keep their invariant.
\<close>

theorem fahrplan_roundtrip:
  assumes "plan_inv db" and "permuting scan" and "fahrplan_ok f"
    and "create_fahrplan archive f (db, blobs) = ((db', blobs'), answer)"
  shows "if fp_id f \<in> sc_id ` set (schedules db)
    then db' = db \<and> blobs' = blobs \<and> answer = Inl (HTTPException 500 Unhandled)
    else plan_inv db' \<and> blobs' = fst (archive blobs f) \<and>
      (\<exists>ivs. get_fahrplan scan (fp_id f) db' = Inr (f\<lparr>fp_intervals := ivs\<rparr>) \<and> mset ivs = mset (fp_intervals f)) \<and>
      (\<forall>sid. sid \<noteq> fp_id f \<longrightarrow> get_fahrplan scan sid db' = get_fahrplan scan sid db) \<and>
      answer = (if snd (archive blobs f) = None then Inl (HTTPException 500 Unhandled) else Inr f)"
proof (cases "insert_schedule f db")
  case None
  then have "fp_id f \<in> sc_id ` set (schedules db)" by (auto simp: insert_schedule_def split: if_splits)
  then show ?thesis using assms(3,4) None by (simp add: create_fahrplan_def)
next
  case (Some db2)
  then have new: "fp_id f \<notin> sc_id ` set (schedules db)" by (auto simp: insert_schedule_def split: if_splits)
  have "db' = db2" "blobs' = fst (archive blobs f)"
    "answer = (if snd (archive blobs f) = None then Inl (HTTPException 500 Unhandled) else Inr f)"
    using assms(3,4) Some by (auto simp: create_fahrplan_def split: prod.splits option.splits)
  then show ?thesis
    using new plan_inv_insert [OF assms(1,3) Some] insert_schedule_reads [OF assms(1,3) Some assms(2)] by simp
qed

definition one_hour :: "int \<Rightarrow> real \<Rightarrow> interval" where
  "one_hour t mw = \<lparr>iv_asset = 1, iv_start = t * hour_us, iv_end = (t + 1) * hour_us, iv_mw = mw, iv_status = DRAFT\<rparr>"

definition two_hours :: fahrplan where
  "two_hours = \<lparr>fp_id = 7, fp_portfolio = 1, fp_date = (2026, 5, 1), fp_at = 0, fp_intervals = [one_hour 0 10, one_hour 1 20]\<rparr>"

lemma two_hours_ok: "fahrplan_ok two_hours"
  by (simp add: fahrplan_ok_def two_hours_def interval_ok_def one_hour_def hour_us_def month_lengths_def)

lemma permuting_rev: "permuting rev"
  by (simp add: permuting_def)

theorem fahrplan_roundtrip_witness:
  "\<exists>ivs. get_fahrplan rev 7 (fst (fst (create_fahrplan (null_archive (\<lambda>_. ''1'')) two_hours (portfolio_empty, Map.empty)))) =
     Inr (two_hours\<lparr>fp_intervals := ivs\<rparr>)"
proof -
  have "fp_id two_hours = 7" "fp_id two_hours \<notin> sc_id ` set (schedules portfolio_empty)"
    by (simp_all add: two_hours_def portfolio_empty_def)
  then show ?thesis
    using fahrplan_roundtrip [OF plan_inv_empty permuting_rev two_hours_ok, where archive = "null_archive (\<lambda>_. ''1'')"]
    by (metis prod.collapse)
qed

section \<open>Patching\<close>

text \<open>What the nested loops make of one row: the last interval of the patch for its asset wins.\<close>

definition last_for :: "interval list \<Rightarrow> int \<Rightarrow> interval option" where
  "last_for ivs asset = find (\<lambda>iv. iv_asset iv = asset) (rev ivs)"

definition patched_row :: "uuid \<Rightarrow> patch \<Rightarrow> plan_row \<Rightarrow> plan_row" where
  "patched_row sid p r =
     (if pl_schedule r \<noteq> sid then r
      else let r1 = (case pa_status p of None \<Rightarrow> r | Some st \<Rightarrow> r\<lparr>pl_status := st\<rparr>)
           in case pa_intervals p of
                None \<Rightarrow> r1
              | Some ivs \<Rightarrow> (case last_for ivs (pl_asset r) of
                              None \<Rightarrow> r1
                            | Some iv \<Rightarrow> r1\<lparr>pl_mw := iv_mw iv, pl_status := iv_status iv\<rparr>))"

lemma fold_apply_interval:
  "fold (apply_interval sid) ivs rows =
   map (\<lambda>r. if pl_schedule r = sid
            then (case last_for ivs (pl_asset r) of None \<Rightarrow> r | Some iv \<Rightarrow> r\<lparr>pl_mw := iv_mw iv, pl_status := iv_status iv\<rparr>)
            else r) rows"
proof (induction ivs rule: rev_induct)
  case Nil
  then show ?case by (simp add: last_for_def map_idI)
next
  case (snoc iv ivs)
  then show ?case by (auto simp: last_for_def apply_interval_def split: option.split)
qed

lemma patched_row_sel [simp]:
  "pl_id (patched_row sid p r) = pl_id r" "pl_schedule (patched_row sid p r) = pl_schedule r"
  "pl_asset (patched_row sid p r) = pl_asset r" "pl_start (patched_row sid p r) = pl_start r"
  "pl_end (patched_row sid p r) = pl_end r"
  by (auto simp: patched_row_def Let_def split: option.split)

lemma last_for_in: "last_for ivs a = Some iv \<Longrightarrow> iv \<in> set ivs"
  by (metis find_Some_iff last_for_def nth_mem set_rev)

lemma patched_row_ok:
  assumes "interval_ok (interval_of r)" and "patch_valid p"
  shows "interval_ok (interval_of (patched_row sid p r))"
proof -
  have "0 \<le> pl_mw (patched_row sid p r)"
    using assms by (auto simp: patched_row_def Let_def interval_ok_def interval_of_def patch_valid_def
        list_all_iff dest: last_for_in split: option.split)
  then show ?thesis using assms(1) by (simp add: interval_ok_def interval_of_def)
qed

lemma patch_rows:
  assumes "patch_valid p" and "sid \<in> sc_id ` set (schedules db)"
  shows "patch_fahrplan scan sid p db =
    (let db' = db\<lparr>plan_rows := map (patched_row sid p) (plan_rows db)\<rparr> in (db', get_fahrplan scan sid db'))"
proof -
  obtain s where "find (\<lambda>s. sc_id s = sid) (schedules db) = Some s"
    using assms(2) by (cases "find (\<lambda>s. sc_id s = sid) (schedules db)") (auto simp: find_None_iff)
  moreover have "(case pa_intervals p of None \<Rightarrow> rows1 | Some ivs \<Rightarrow> fold (apply_interval sid) ivs rows1) =
      map (patched_row sid p) rows"
    if "rows1 = (case pa_status p of None \<Rightarrow> rows | Some st \<Rightarrow> apply_status sid st rows)" for rows rows1
    unfolding that fold_apply_interval
    by (auto simp: patched_row_def Let_def apply_status_def map_idI split: option.split)
  ultimately show ?thesis using assms(1) by (simp add: patch_fahrplan_def Let_def)
qed

lemma plan_inv_patched:
  assumes "plan_inv db" and "patch_valid p"
  shows "plan_inv (db\<lparr>plan_rows := map (patched_row sid p) (plan_rows db)\<rparr>)"
  using assms by (auto simp: plan_inv_def comp_def intro: patched_row_ok)

text \<open>
  C13. A patch on every branch: an invalid body (422) or an unknown schedule (404) changes nothing; otherwise the request
  never fails, no interval is added, removed or moved, other schedules keep their rows, and each interval of the
  schedule takes the power and the status of the last interval the patch has for its asset, whatever
  hours the two stand for. So all hours of an asset that a patch names end with one power.
\<close>

theorem patch_fahrplan_spec:
  assumes "plan_inv db" and "permuting scan" and "patch_fahrplan scan sid p db = (db', answer)"
  shows "plan_inv db' \<and> schedules db' = schedules db \<and>
    (if \<not> patch_valid p then db' = db \<and> answer = Inl (HTTPException 422 InvalidBody)
     else if sid \<notin> sc_id ` set (schedules db) then db' = db \<and> answer = Inl (HTTPException 404 ScheduleNotFound)
     else plan_rows db' = map (patched_row sid p) (plan_rows db) \<and>
       (\<exists>f. answer = Inr f \<and> fp_id f = sid \<and> mset (fp_intervals f) = mset (map interval_of (rows_for sid db'))) \<and>
       (\<forall>ivs. pa_intervals p = Some ivs \<longrightarrow>
          (\<forall>r\<in>set (rows_for sid db'). \<forall>q\<in>set (rows_for sid db').
             pl_asset r = pl_asset q \<and> pl_asset r \<in> iv_asset ` set ivs \<longrightarrow> pl_mw r = pl_mw q)))"
proof (cases "patch_valid p \<and> sid \<in> sc_id ` set (schedules db)")
  case False
  then have "find (\<lambda>s. sc_id s = sid) (schedules db) = None" if "patch_valid p"
    using that by (auto simp: find_None_iff)
  then show ?thesis using False assms(1,3) by (auto simp: patch_fahrplan_def split: if_splits)
next
  case True
  let ?db = "db\<lparr>plan_rows := map (patched_row sid p) (plan_rows db)\<rparr>"
  have db': "db' = ?db" and answer: "answer = get_fahrplan scan sid ?db"
    using assms(3) True by (auto simp: patch_rows Let_def)
  have inv: "plan_inv ?db" using plan_inv_patched [OF assms(1)] True by blast
  from True obtain s where s: "s \<in> set (schedules ?db)" "sc_id s = sid" by auto
  with inv obtain d where d: "date_ok d" "sc_date s = iso_date d" by (auto simp: plan_inv_def stored_date_def simp del: date_ok.simps iso_date.simps)
  have "mset (map interval_of (scan (rows_for sid ?db))) = mset (map interval_of (rows_for sid ?db))"
    using assms(2) by (simp add: permuting_def)
  then have "\<exists>f. answer = Inr f \<and> fp_id f = sid \<and> mset (fp_intervals f) = mset (map interval_of (rows_for sid ?db))"
    using get_fahrplan_eq [OF inv assms(2) s(1) d] s(2) by (auto simp: answer)
  moreover have mw: "pl_mw (patched_row sid p r) = pl_mw (patched_row sid p q)"
    if "pa_intervals p = Some ivs" "pl_schedule r = sid" "pl_schedule q = sid" "pl_asset r = pl_asset q"
      "pl_asset r \<in> iv_asset ` set ivs" for r q ivs
  proof -
    from that(5) have "last_for ivs (pl_asset r) \<noteq> None" by (auto simp: last_for_def find_None_iff)
    then show ?thesis using that by (auto simp: patched_row_def Let_def)
  qed
  have "rows_for sid ?db = map (patched_row sid p) (rows_for sid db)"
    by (simp add: rows_for_def filter_map comp_def)
  then have rows: "set (rows_for sid ?db) = patched_row sid p ` set (rows_for sid db)" by simp
  have "\<forall>r\<in>set (rows_for sid db). pl_schedule r = sid" by (simp add: rows_for_def)
  then have "\<forall>ivs. pa_intervals p = Some ivs \<longrightarrow> (\<forall>r\<in>set (rows_for sid ?db). \<forall>q\<in>set (rows_for sid ?db).
      pl_asset r = pl_asset q \<and> pl_asset r \<in> iv_asset ` set ivs \<longrightarrow> pl_mw r = pl_mw q)"
    unfolding rows ball_simps patched_row_sel by (blast intro: mw)
  ultimately show ?thesis using True inv unfolding db' by simp
qed


definition two_hours_db :: portfolio_db where
  "two_hours_db = the (insert_schedule two_hours portfolio_empty)"

definition two_patch :: patch where
  "two_patch = \<lparr>pa_intervals = Some [one_hour 0 30, one_hour 1 40], pa_status = None\<rparr>"

lemma insert_two_hours: "insert_schedule two_hours portfolio_empty = Some two_hours_db"
  by (simp add: two_hours_db_def insert_schedule_def portfolio_empty_def)

theorem patch_fahrplan_spec_witness:
  "map pl_mw (plan_rows (fst (patch_fahrplan rev 7 two_patch two_hours_db))) = [40, 40]"
proof -
  obtain db' answer where run: "patch_fahrplan rev 7 two_patch two_hours_db = (db', answer)" by fastforce
  have rows: "plan_rows two_hours_db = [plan_row_of 7 1 (one_hour 0 10), plan_row_of 7 2 (one_hour 1 20)]"
    "sc_id ` set (schedules two_hours_db) = {7}"
    by (simp_all add: two_hours_db_def insert_schedule_def portfolio_empty_def two_hours_def fresh_def numeral_2_eq_2)
  have valid: "patch_valid two_patch"
    by (simp add: patch_valid_def two_patch_def interval_ok_def one_hour_def hour_us_def)
  have "plan_rows db' = map (patched_row 7 two_patch) (plan_rows two_hours_db)"
    using patch_fahrplan_spec [OF plan_inv_insert [OF plan_inv_empty two_hours_ok insert_two_hours] permuting_rev run]
    by (simp add: valid rows(2))
  then show ?thesis
    unfolding run fst_conv by (simp add: rows(1) patched_row_def plan_row_of_def one_hour_def two_patch_def last_for_def Let_def)
qed

text \<open>The archive after a list of plans, with the store the configuration selects.\<close>

definition archive_run ::
  "(int \<Rightarrow> string) \<Rightarrow> (string \<Rightarrow> bool) \<Rightarrow> string \<Rightarrow> container \<Rightarrow> fahrplan list \<Rightarrow> container" where
  "archive_run show_int up conn = foldl (\<lambda>c f. fst (get_blob_store show_int up conn c f))"

lemma archive_run_null: "archive_run show_int up [] c fs = c"
  by (induction fs arbitrary: c) (simp_all add: archive_run_def get_blob_store_def null_archive_def)

text \<open>
  What is archived stays archived: when plans with different ids are archived one after another in
  the configured store, every plan whose upload succeeded is in the end found unchanged under its key, which
  is the portfolio, the date and the id; without a connection string nothing is stored and every plan is given
  a key all the same.
\<close>

theorem blob_archive_keeps:
  assumes "distinct (map fp_id (before @ f # after))"
  shows "(conn \<noteq> [] \<and> up (blob_key show_int f) \<longrightarrow>
      archive_run show_int up conn c (before @ f # after) (blob_key show_int f) = Some f) \<and>
    archive_run show_int up [] c (before @ f # after) = c \<and> snd (get_blob_store show_int up [] c f) = Some (''null/'' @ blob_key show_int f)"
proof (intro conjI impI)
  assume conn: "conn \<noteq> [] \<and> up (blob_key show_int f)"
  then have "snd (azure_archive show_int up c f) = Some (blob_key show_int f)" for c
    by (simp add: azure_archive_def Let_def)
  then show "archive_run show_int up conn c (before @ f # after) (blob_key show_int f) = Some f"
    using azure_store.archived_all [OF assms(1)] conn unfolding archive_run_def get_blob_store_def by simp
next
  show "archive_run show_int up [] c (before @ f # after) = c" by (rule archive_run_null)
  show "snd (get_blob_store show_int up [] c f) = Some (''null/'' @ blob_key show_int f)"
    by (simp add: get_blob_store_def null_archive_def)
qed

theorem blob_archive_keeps_witness:
  "archive_run (\<lambda>_. ''1'') (\<lambda>_. True) ''conn'' Map.empty [two_hours, two_hours\<lparr>fp_id := 8\<rparr>]
     (blob_key (\<lambda>_. ''1'') two_hours) = Some two_hours"
  using blob_archive_keeps [of "[]" two_hours "[two_hours\<lparr>fp_id := 8\<rparr>]" "''conn''" "\<lambda>_. True" "\<lambda>_. ''1''" Map.empty]
  by (simp add: two_hours_def)

end
