(* ===== verification/Portfolio_Dispatch.thy ===== *)
theory Portfolio_Dispatch
  imports Portfolio_Fahrplan
begin

text \<open>
  The portfolio dispatch service, third part: the linear program of the dispatch optimiser
  (\<open>optimizer/dispatch.py\<close>) and the endpoint that plans a day (\<open>optimizer/router.py\<close>). CVXPY with OSQP
  is a parameter: a function from the program that the code builds to a status and a point. Of it
  the properties assume, as \<open>solver_ok e\<close>, that a feasible program is accepted, and that the point of an accepted
  one meets every constraint and the best objective up to the tolerance \<open>e\<close>. A program that CVXPY does not
  build (a variable without rows is a \<open>ValueError\<close>) is a status that is not accepted.
\<close>

section \<open>The linear program\<close>

record asset_spec =
  sp_asset :: nat
  sp_capacity :: real
  sp_ramp :: real

record lp =
  lp_assets :: "asset_spec list"
  lp_prices :: "real list"
  lp_mu :: "real list list"
  lp_tol :: real
  lp_penalty :: real

type_synonym matrix = "real list list"

text \<open>\<open>cp.sum(p, axis=0)\<close> and \<open>mu.sum(axis=0)\<close> at one hour.\<close>

definition col_sum :: "matrix \<Rightarrow> nat \<Rightarrow> real" where
  "col_sum p t = sum_list (map (\<lambda>row. row ! t) p)"

definition imbalance :: "lp \<Rightarrow> matrix \<Rightarrow> real" where
  "imbalance prob p = sum_list (map (\<lambda>t. \<bar>col_sum p t - col_sum (lp_mu prob) t\<bar>) [0..<length (lp_prices prob)])"

definition revenue :: "lp \<Rightarrow> matrix \<Rightarrow> real" where
  "revenue prob p = sum_list (map (\<lambda>t. lp_prices prob ! t * col_sum p t) [0..<length (lp_prices prob)])"

definition objective :: "lp \<Rightarrow> matrix \<Rightarrow> real" where
  "objective prob p = revenue prob p - lp_penalty prob * imbalance prob p"

definition shape :: "nat \<Rightarrow> nat \<Rightarrow> matrix \<Rightarrow> bool" where
  "shape n T p \<longleftrightarrow> length p = n \<and> list_all (\<lambda>row. length row = T) p"

text \<open>The constraints on the powers of one asset, each relaxed by \<open>e\<close>.\<close>

definition row_ok :: "real \<Rightarrow> asset_spec \<Rightarrow> real list \<Rightarrow> bool" where
  "row_ok e a row \<longleftrightarrow>
     list_all (\<lambda>x. - e \<le> x \<and> x \<le> sp_capacity a + e) row \<and>
     list_all (\<lambda>t. \<bar>row ! Suc t - row ! t\<bar> \<le> sp_ramp a * 60 + e) [0..<length row - 1]"

definition feasible :: "real \<Rightarrow> lp \<Rightarrow> matrix \<Rightarrow> bool" where
  "feasible e prob p \<longleftrightarrow>
     shape (length (lp_assets prob)) (length (lp_prices prob)) p \<and>
     list_all (\<lambda>(a, row). row_ok e a row) (zip (lp_assets prob) p) \<and>
     imbalance prob p \<le> lp_tol prob + e"

datatype solver_status = OPTIMAL | OPTIMAL_INACCURATE | OtherStatus string

record solution =
  so_status :: solver_status
  so_value :: "real option"
  so_p :: "matrix option"

definition accepted :: "solution \<Rightarrow> bool" where
  "accepted s \<longleftrightarrow> so_status s = OPTIMAL \<or> so_status s = OPTIMAL_INACCURATE"

definition solver_ok :: "real \<Rightarrow> lp \<Rightarrow> solution \<Rightarrow> bool" where
  "solver_ok e prob s \<longleftrightarrow>
     ((\<exists>p. feasible 0 prob p) \<longrightarrow> accepted s) \<and>
     (accepted s \<longrightarrow> (case so_p s of None \<Rightarrow> False
        | Some p \<Rightarrow> feasible e prob p \<and> (\<forall>q. feasible 0 prob q \<longrightarrow> objective prob q \<le> objective prob p + e)))"

record schedule_result =
  sr_objective :: real
  sr_schedule :: matrix

text \<open>The call with the default tolerance of 10 MWh and penalty of 10; \<open>None\<close> is the \<open>ValueError\<close>.\<close>

definition dispatch_lp :: "asset_spec list \<Rightarrow> real list \<Rightarrow> matrix \<Rightarrow> lp" where
  "dispatch_lp specs prices forecasts =
     \<lparr>lp_assets = specs, lp_prices = prices, lp_mu = forecasts, lp_tol = 10, lp_penalty = 10\<rparr>"

definition dispatch_optimise ::
  "(lp \<Rightarrow> solution) \<Rightarrow> asset_spec list \<Rightarrow> real list \<Rightarrow> matrix \<Rightarrow> schedule_result option" where
  "dispatch_optimise solve specs prices forecasts =
     (let s = solve (dispatch_lp specs prices forecasts)
      in if \<not> accepted s then None
         else Some \<lparr>sr_objective = (case so_value s of None \<Rightarrow> 0 | Some v \<Rightarrow> v),
                    sr_schedule = (case so_p s of
                        None \<Rightarrow> replicate (length specs) (replicate (length prices) 0)
                      | Some p \<Rightarrow> p)\<rparr>)"

section \<open>What the program allows\<close>

text \<open>A forecast within the limits of the assets is a feasible plan of the program.\<close>

definition forecast_fits :: "asset_spec list \<Rightarrow> nat \<Rightarrow> matrix \<Rightarrow> bool" where
  "forecast_fits specs T mu \<longleftrightarrow> shape (length specs) T mu \<and> list_all (\<lambda>(a, row). row_ok 0 a row) (zip specs mu)"

lemma imbalance_forecast [simp]: "imbalance prob (lp_mu prob) = 0"
  by (simp add: imbalance_def sum_list_0)

lemma forecast_feasible:
  "forecast_fits specs (length prices) mu \<Longrightarrow> feasible 0 (dispatch_lp specs prices mu) mu"
  using imbalance_forecast [of "dispatch_lp specs prices mu"]
  by (simp add: feasible_def forecast_fits_def dispatch_lp_def)

lemma sum_abs_le: "\<bar>sum_list xs\<bar> \<le> sum_list (map abs xs)" for xs :: "real list"
  by (induction xs) auto

text \<open>The energy of a plan differs from that of the forecast by at most the imbalance.\<close>

definition energy :: "nat \<Rightarrow> matrix \<Rightarrow> real" where
  "energy T p = sum_list (map (col_sum p) [0..<T])"

lemma energy_imbalance: "\<bar>energy (length (lp_prices prob)) p - energy (length (lp_prices prob)) (lp_mu prob)\<bar> \<le> imbalance prob p"
proof -
  have "energy T p - energy T q = sum_list (map (\<lambda>t. col_sum p t - col_sum q t) [0..<T])" for T q
    by (simp add: energy_def sum_list_subtractf)
  then show ?thesis
    using sum_abs_le [of "map (\<lambda>t. col_sum p t - col_sum (lp_mu prob) t) [0..<length (lp_prices prob)]"]
    by (simp add: imbalance_def comp_def)
qed

lemma row_sums_le:
  assumes "length as = length p" and "list_all (\<lambda>(a, row). row_ok e a row) (zip as p)"
    and "list_all (\<lambda>row. length row = T) p" and "t < T"
  shows "sum_list (map (\<lambda>row. row ! t) p) \<le> sum_list (map (\<lambda>a. sp_capacity a + e) as)"
  using assms(1-3)
proof (induction as p rule: list_induct2)
  case (Cons a as row p)
  then have "row ! t \<in> set row" using assms(4) by simp
  then have "row ! t \<le> sp_capacity a + e" using Cons.prems(1) by (simp add: row_ok_def list_all_iff)
  with Cons show ?case by simp
qed simp

lemma energy_le:
  assumes "feasible e prob p"
  shows "energy (length (lp_prices prob)) p \<le>
    real (length (lp_prices prob)) * sum_list (map (\<lambda>a. sp_capacity a + e) (lp_assets prob))"
proof -
  let ?T = "length (lp_prices prob)" and ?c = "sum_list (map (\<lambda>a. sp_capacity a + e) (lp_assets prob))"
  have "col_sum p t \<le> ?c" if "t < ?T" for t
    using assms row_sums_le [of "lp_assets prob" p e ?T t] that
    by (simp add: feasible_def shape_def col_sum_def)
  then have "sum_list (map (col_sum p) [0..<?T]) \<le> sum_list (map (\<lambda>t. ?c) [0..<?T])"
    by (intro sum_list_mono) simp
  then show ?thesis by (simp add: energy_def sum_list_triv)
qed


text \<open>One asset for one hour, and a solver that runs it at full power.\<close>

definition demo_specs :: "asset_spec list" where
  "demo_specs = [\<lparr>sp_asset = 1, sp_capacity = 50, sp_ramp = 999\<rparr>]"

definition demo_solve :: "lp \<Rightarrow> solution" where
  "demo_solve prob = \<lparr>so_status = OPTIMAL, so_value = Some 1450, so_p = Some [[50]]\<rparr>"

lemma demo_solver_ok: "solver_ok 0 (dispatch_lp demo_specs [30] [[45]]) (demo_solve (dispatch_lp demo_specs [30] [[45]]))"
proof -
  have "objective (dispatch_lp demo_specs [30] [[45]]) q \<le> 1450" if "feasible 0 (dispatch_lp demo_specs [30] [[45]]) q" for q
  proof -
    from that obtain x where q: "q = [[x]]" and x: "x \<le> 50"
      by (auto simp: feasible_def dispatch_lp_def demo_specs_def shape_def row_ok_def length_Suc_conv)
    have "30 * x - 10 * \<bar>x - 45\<bar> \<le> 1450" using x by (cases "45 \<le> x") auto
    then show ?thesis by (simp add: q objective_def revenue_def imbalance_def dispatch_lp_def col_sum_def)
  qed
  then show ?thesis
    by (auto simp: solver_ok_def accepted_def demo_solve_def feasible_def dispatch_lp_def demo_specs_def shape_def row_ok_def
        objective_def revenue_def imbalance_def col_sum_def)
qed



section \<open>Planning a day\<close>

record optimise_request =
  or_portfolio :: int
  or_date :: date
  or_assets :: "int list"
  or_prices :: "real list"

definition request_ok :: "optimise_request \<Rightarrow> bool" where
  "request_ok b \<longleftrightarrow> date_ok (or_date b) \<and> 1 \<le> length (or_prices b) \<and> length (or_prices b) \<le> 96"

text \<open>
  The forecast of an asset: the means of its latest run (\<open>latest\<close> is \<open>ORDER BY created_at DESC\<close>), in the
  order of their starts (\<open>by_start\<close> is \<open>ORDER BY interval_start\<close>), cut or padded with zeros to the hours of the price curve.
\<close>

definition forecast_for ::
  "(forecast_run list \<Rightarrow> forecast_run list) \<Rightarrow> (forecast_interval list \<Rightarrow> forecast_interval list) \<Rightarrow> portfolio_db
   \<Rightarrow> nat \<Rightarrow> nat \<Rightarrow> real list" where
  "forecast_for latest by_start db T a =
     (case latest (filter (\<lambda>r. ru_asset r = a) (runs db)) of
        [] \<Rightarrow> replicate T 0
      | run # _ \<Rightarrow>
          let mus = map fi_mean (take T (by_start (filter (\<lambda>i. fi_run i = ru_id run) (forecast_ivls db))))
          in take T (mus @ replicate (T - length mus) 0))"

definition spec_of :: "asset \<Rightarrow> asset_spec" where
  "spec_of a = \<lparr>sp_asset = as_id a, sp_capacity = as_capacity a, sp_ramp = as_ramp a\<rparr>"

text \<open>The draft intervals: asset by asset, hour by hour from midnight UTC of the date.\<close>

definition draft_interval :: "date \<Rightarrow> asset \<Rightarrow> nat \<Rightarrow> real \<Rightarrow> interval" where
  "draft_interval d a t mw =
     \<lparr>iv_asset = int (as_id a), iv_start = midnight d + int t * hour_us, iv_end = midnight d + int t * hour_us + hour_us,
      iv_mw = mw, iv_status = DRAFT\<rparr>"

definition draft_intervals :: "date \<Rightarrow> asset list \<Rightarrow> nat \<Rightarrow> matrix \<Rightarrow> interval list" where
  "draft_intervals d as T p =
     concat (map (\<lambda>(a, row). map (\<lambda>t. draft_interval d a t (row ! t)) [0..<T]) (zip as p))"

definition chosen_assets :: "(asset list \<Rightarrow> asset list) \<Rightarrow> optimise_request \<Rightarrow> portfolio_db \<Rightarrow> asset list" where
  "chosen_assets scan b db = scan (filter (\<lambda>a. int (as_id a) \<in> set (or_assets b)) (assets db))"

text \<open>
  The new schedule takes the id \<open>new_id\<close> and the time \<open>now\<close>. A negative power, which a solver may return within its
  tolerance, fails the validation of the interval after the solver has been asked: a 500.
\<close>

definition optimise_schedule ::
  "(asset list \<Rightarrow> asset list) \<Rightarrow> (forecast_run list \<Rightarrow> forecast_run list) \<Rightarrow> (forecast_interval list \<Rightarrow> forecast_interval list)
   \<Rightarrow> (lp \<Rightarrow> solution) \<Rightarrow> uuid \<Rightarrow> int \<Rightarrow> optimise_request \<Rightarrow> portfolio_db \<Rightarrow> portfolio_db \<times> (plan_error, fahrplan) response" where
  "optimise_schedule scan latest by_start solve new_id now b db =
     (if \<not> request_ok b then (db, Inl (HTTPException 422 InvalidBody))
      else let as = chosen_assets scan b db
           in if length as \<noteq> length (or_assets b) then (db, Inl (HTTPException 404 MissingAssets))
              else let T = length (or_prices b);
                       forecasts = map (\<lambda>a. forecast_for latest by_start db T (as_id a)) as
                   in case dispatch_optimise solve (map spec_of as) (or_prices b) forecasts of
                        None \<Rightarrow> (db, Inl (HTTPException 422 Infeasible))
                      | Some r \<Rightarrow>
                          let ivs = draft_intervals (or_date b) as T (sr_schedule r);
                              f = \<lparr>fp_id = new_id, fp_portfolio = or_portfolio b, fp_date = or_date b, fp_at = now, fp_intervals = ivs\<rparr>
                          in if \<not> list_all interval_ok ivs then (db, Inl (HTTPException 500 Unhandled))
                             else case insert_schedule f db of
                                    None \<Rightarrow> (db, Inl (HTTPException 500 Unhandled))
                                  | Some db' \<Rightarrow> (db', Inr f))"

lemma draft_interval_ok [simp]: "interval_ok (draft_interval d a t mw) \<longleftrightarrow> 0 \<le> mw"
  by (simp add: interval_ok_def draft_interval_def hour_us_def)

lemma draft_intervals_ok_iff:
  assumes "shape (length as) T p"
  shows "list_all interval_ok (draft_intervals d as T p) \<longleftrightarrow> list_all (list_all (\<lambda>x. 0 \<le> x)) p"
proof -
  have len: "length as = length p" and rows: "list_all (\<lambda>row. length row = T) p" using assms by (simp_all add: shape_def)
  show ?thesis
    unfolding draft_intervals_def using len rows
  proof (induction as p rule: list_induct2)
    case (Cons a as row p)
    have "list_all interval_ok (map (\<lambda>t. draft_interval d a t (row ! t)) [0..<T]) \<longleftrightarrow> list_all (\<lambda>x. 0 \<le> x) row"
      using Cons.prems by (auto simp: list_all_length)
    with Cons show ?case by simp
  qed simp
qed

lemma col_sum_simps: "col_sum [] = (\<lambda>t. 0)" "col_sum (row # p) = (\<lambda>t. row ! t + col_sum p t)"
  by (simp_all add: col_sum_def fun_eq_iff)

lemma energy_Cons: "length row = T \<Longrightarrow> energy T (row # p) = sum_list row + energy T p"
proof -
  assume "length row = T"
  then have "map ((!) row) [0..<T] = row" by (intro nth_equalityI) auto
  then show ?thesis by (simp add: energy_def col_sum_simps sum_list_addf)
qed

lemma energy_zero: "energy T [] = 0"
  by (simp add: energy_def col_sum_simps sum_list_0)

lemma draft_intervals_energy:
  assumes "shape (length as) T p"
  shows "sum_list (map iv_mw (draft_intervals d as T p)) = energy T p"
proof -
  have len: "length as = length p" and rows: "list_all (\<lambda>row. length row = T) p" using assms by (simp_all add: shape_def)
  show ?thesis
    unfolding draft_intervals_def using len rows
  proof (induction as p rule: list_induct2)
    case Nil
    show ?case by (simp add: energy_zero)
  next
    case (Cons a as row p)
    have "map (iv_mw \<circ> (\<lambda>t. draft_interval d a t (row ! t))) [0..<T] = row"
      using Cons.prems by (intro nth_equalityI) (auto simp: draft_interval_def)
    with Cons show ?case by (simp add: energy_Cons)
  qed
qed

lemma length_draft_intervals:
  "length as = length p \<Longrightarrow> length (draft_intervals d as T p) = length as * T"
  unfolding draft_intervals_def by (induction as p rule: list_induct2) auto


definition day_forecasts ::
  "(asset list \<Rightarrow> asset list) \<Rightarrow> (forecast_run list \<Rightarrow> forecast_run list) \<Rightarrow> (forecast_interval list \<Rightarrow> forecast_interval list)
   \<Rightarrow> optimise_request \<Rightarrow> portfolio_db \<Rightarrow> matrix" where
  "day_forecasts scan latest by_start b db =
     map (\<lambda>a. forecast_for latest by_start db (length (or_prices b)) (as_id a)) (chosen_assets scan b db)"

definition day_lp ::
  "(asset list \<Rightarrow> asset list) \<Rightarrow> (forecast_run list \<Rightarrow> forecast_run list) \<Rightarrow> (forecast_interval list \<Rightarrow> forecast_interval list)
   \<Rightarrow> optimise_request \<Rightarrow> portfolio_db \<Rightarrow> lp" where
  "day_lp scan latest by_start b db =
     dispatch_lp (map spec_of (chosen_assets scan b db)) (or_prices b) (day_forecasts scan latest by_start b db)"

lemma forecast_for_no_run:
  assumes "order_desc key latest" and "\<forall>r\<in>set (runs db). ru_asset r \<noteq> a"
  shows "forecast_for latest by_start db T a = replicate T 0"
proof -
  have "filter (\<lambda>r. ru_asset r = a) (runs db) = []" using assms(2) by (simp add: filter_empty_conv)
  moreover have "latest [] = []" using order_desc.set_order [OF assms(1), of "[]"] by simp
  ultimately show ?thesis by (simp add: forecast_for_def)
qed

lemma energy_zeros: "energy T (map (\<lambda>a. replicate T 0) as) = 0"
  by (induction as) (simp_all add: energy_zero energy_Cons sum_list_replicate)

lemma dispatch_shape:
  assumes "solver_ok e (dispatch_lp specs prices mu) (solve (dispatch_lp specs prices mu))"
    and "dispatch_optimise solve specs prices mu = Some r"
  shows "shape (length specs) (length prices) (sr_schedule r)"
    and "\<bar>energy (length prices) (sr_schedule r) - energy (length prices) mu\<bar> \<le> 10 + e"
  using assms energy_imbalance [of "dispatch_lp specs prices mu" "sr_schedule r"]
  by (auto simp: dispatch_optimise_def solver_ok_def Let_def feasible_def dispatch_lp_def split: if_splits option.splits)

lemma dispatch_refused:
  assumes "solver_ok e (dispatch_lp specs prices mu) (solve (dispatch_lp specs prices mu))"
    and "dispatch_optimise solve specs prices mu = None"
  shows "\<not> feasible 0 (dispatch_lp specs prices mu) p"
  using assms by (auto simp: dispatch_optimise_def solver_ok_def Let_def split: if_splits)

lemma draft_intervals_in:
  assumes "i \<in> set (draft_intervals d as T p)"
  shows "iv_end i - iv_start i = hour_us \<and> iv_status i = DRAFT"
  using assms by (auto simp: draft_intervals_def draft_interval_def)


lemma optimise_schedule_cases:
  assumes "optimise_schedule scan latest by_start solve new_id now b db = (db', answer)"
  shows "db' = db \<or> (\<exists>f. fahrplan_ok f \<and> insert_schedule f db = Some db')"
  using assms by (auto simp: optimise_schedule_def Let_def fahrplan_ok_def request_ok_def split: if_splits option.splits)

text \<open>The two ways a request to plan a day can end.\<close>

lemma optimise_refused:
  assumes "optimise_schedule scan latest by_start solve new_id now b db = (db', Inl err)"
  shows "db' = db \<and> (err = HTTPException 422 InvalidBody \<or> err = HTTPException 500 Unhandled \<or>
      err = HTTPException 404 MissingAssets \<and> length (chosen_assets scan b db) \<noteq> length (or_assets b) \<or>
      err = HTTPException 422 Infeasible \<and> dispatch_optimise solve (map spec_of (chosen_assets scan b db)) (or_prices b)
        (day_forecasts scan latest by_start b db) = None)"
  using assms unfolding optimise_schedule_def day_forecasts_def [symmetric] Let_def
  by (auto split: if_splits option.splits)

lemma optimise_stored:
  assumes "optimise_schedule scan latest by_start solve new_id now b db = (db', Inr f)"
  obtains r where "length (chosen_assets scan b db) = length (or_assets b)"
    and "dispatch_optimise solve (map spec_of (chosen_assets scan b db)) (or_prices b) (day_forecasts scan latest by_start b db) = Some r"
    and "f = \<lparr>fp_id = new_id, fp_portfolio = or_portfolio b, fp_date = or_date b, fp_at = now,
        fp_intervals = draft_intervals (or_date b) (chosen_assets scan b db) (length (or_prices b)) (sr_schedule r)\<rparr>"
    and "fahrplan_ok f" and "insert_schedule f db = Some db'"
  using assms unfolding optimise_schedule_def day_forecasts_def [symmetric] Let_def
  by (auto simp: fahrplan_ok_def request_ok_def split: if_splits option.splits)

lemma energy_no_runs:
  assumes "order_desc ru_at latest" and "\<forall>a\<in>set (chosen_assets scan b db). \<forall>r\<in>set (runs db). ru_asset r \<noteq> as_id a"
  shows "energy (length (or_prices b)) (day_forecasts scan latest by_start b db) = 0"
proof -
  have "day_forecasts scan latest by_start b db = map (\<lambda>a. replicate (length (or_prices b)) 0) (chosen_assets scan b db)"
    unfolding day_forecasts_def using assms(2) by (intro map_cong refl forecast_for_no_run [OF assms(1)]) auto
  then show ?thesis by (simp add: energy_zeros)
qed

text \<open>
  C24. Planning a day: an invalid body (422), an asset that is unknown or named twice (404), a program without
  solution (422) and a plan with a negative power (500) change nothing. Otherwise a new schedule
  is stored that reads back as answered: one draft interval of exactly an hour for each asset
  and hour, with powers that are not negative and whose total differs from the forecasts by at most 10 MWh (up to
  the tolerance of the solver). When none of the assets has a forecast run the whole day gets at most
  those 10 MWh, whatever the capacities and the prices.
\<close>

theorem optimise_schedule_spec:
  fixes solve :: "lp \<Rightarrow> solution" and e :: real
  assumes "plan_inv db" and "permuting reading" and "order_desc ru_at latest"
    and "solver_ok e (day_lp scan latest by_start b db) (solve (day_lp scan latest by_start b db))"
    and "optimise_schedule scan latest by_start solve new_id now b db = (db', answer)"
  shows "plan_inv db' \<and>
    (case answer of
       Inl err \<Rightarrow> db' = db \<and> status_code err \<in> {404, 422, 500} \<and>
         (detail err = MissingAssets \<longrightarrow> length (chosen_assets scan b db) \<noteq> length (or_assets b)) \<and>
         (detail err = Infeasible \<longrightarrow> (\<forall>p. \<not> feasible 0 (day_lp scan latest by_start b db) p))
     | Inr f \<Rightarrow> fp_id f = new_id \<and> fp_portfolio f = or_portfolio b \<and> fp_date f = or_date b \<and>
         length (fp_intervals f) = length (or_assets b) * length (or_prices b) \<and>
         list_all (\<lambda>i. 0 \<le> iv_mw i \<and> iv_end i - iv_start i = hour_us \<and> iv_status i = DRAFT) (fp_intervals f) \<and>
         \<bar>sum_list (map iv_mw (fp_intervals f)) - energy (length (or_prices b)) (day_forecasts scan latest by_start b db)\<bar> \<le> 10 + e \<and>
         (\<exists>ivs. get_fahrplan reading new_id db' = Inr (f\<lparr>fp_intervals := ivs\<rparr>) \<and> mset ivs = mset (fp_intervals f)) \<and>
         ((\<forall>a\<in>set (chosen_assets scan b db). \<forall>r\<in>set (runs db). ru_asset r \<noteq> as_id a) \<longrightarrow>
            sum_list (map iv_mw (fp_intervals f)) \<le> 10 + e))"
proof (cases answer)
  case (Inl err)
  have "\<not> feasible 0 (day_lp scan latest by_start b db) p"
    if "dispatch_optimise solve (map spec_of (chosen_assets scan b db)) (or_prices b)
        (day_forecasts scan latest by_start b db) = None" for p
    using dispatch_refused [OF assms(4) [unfolded day_lp_def] that] by (simp add: day_lp_def)
  then show ?thesis using optimise_refused [OF assms(5) [unfolded Inl]] assms(1) Inl by auto
next
  case (Inr f)
  let ?as = "chosen_assets scan b db" and ?T = "length (or_prices b)" and ?mu = "day_forecasts scan latest by_start b db"
  from optimise_stored [OF assms(5) [unfolded Inr]] obtain r where as: "length ?as = length (or_assets b)"
    and r: "dispatch_optimise solve (map spec_of ?as) (or_prices b) ?mu = Some r"
    and f: "f = \<lparr>fp_id = new_id, fp_portfolio = or_portfolio b, fp_date = or_date b, fp_at = now,
        fp_intervals = draft_intervals (or_date b) ?as ?T (sr_schedule r)\<rparr>"
    and fok: "fahrplan_ok f" and ins: "insert_schedule f db = Some db'" .
  note shape = dispatch_shape [OF assms(4) [unfolded day_lp_def] r]
  have shape_as: "shape (length ?as) ?T (sr_schedule r)" using shape(1) by simp
  have energy: "sum_list (map iv_mw (fp_intervals f)) = energy ?T (sr_schedule r)"
    using draft_intervals_energy [OF shape_as] by (simp add: f)
  have "list_all (\<lambda>i. 0 \<le> iv_mw i \<and> iv_end i - iv_start i = hour_us \<and> iv_status i = DRAFT) (fp_intervals f)"
    using fok draft_intervals_in unfolding f fahrplan_ok_def list_all_iff interval_ok_def by auto
  moreover have "length (fp_intervals f) = length (or_assets b) * ?T"
    using shape_as as by (simp add: f shape_def length_draft_intervals)
  moreover have "fp_id f = new_id" "fp_portfolio f = or_portfolio b" "fp_date f = or_date b" by (simp_all add: f)
  ultimately show ?thesis
    using plan_inv_insert [OF assms(1) fok ins] insert_schedule_reads(1) [OF assms(1) fok ins assms(2)] shape(2)
      energy_no_runs [OF assms(3), of scan b db by_start]
    unfolding Inr sum.case energy by auto
qed


definition demo_request :: optimise_request where
  "demo_request = \<lparr>or_portfolio = 1, or_date = (2026, 5, 1), or_assets = [1], or_prices = [30]\<rparr>"

definition ten_mw :: "lp \<Rightarrow> solution" where
  "ten_mw prob = \<lparr>so_status = OPTIMAL, so_value = Some 200, so_p = Some [[10]]\<rparr>"

lemma demo_chosen: "chosen_assets rev demo_request wind_db = assets wind_db"
  by (simp add: chosen_assets_def demo_request_def assets_wind)

lemma demo_lp: "day_lp rev (newest_first ru_at) id demo_request wind_db =
    \<lparr>lp_assets = [\<lparr>sp_asset = 1, sp_capacity = 50, sp_ramp = 999\<rparr>], lp_prices = [30], lp_mu = [[0]], lp_tol = 10, lp_penalty = 10\<rparr>"
proof -
  have "runs wind_db = []" by (simp add: wind_db_def create_asset_def portfolio_empty_def type_of_def Let_def ramp_of_def)
  then have "forecast_for (newest_first ru_at) id wind_db 1 a = [0]" for a
    by (simp add: forecast_for_def newest_first_def)
  then show ?thesis
    unfolding day_lp_def day_forecasts_def demo_chosen by (simp add: dispatch_lp_def spec_of_def assets_wind demo_request_def)
qed

lemma ten_mw_ok: "solver_ok 0 (day_lp rev (newest_first ru_at) id demo_request wind_db)
    (ten_mw (day_lp rev (newest_first ru_at) id demo_request wind_db))"
proof -
  let ?prob = "day_lp rev (newest_first ru_at) id demo_request wind_db"
  have "objective ?prob q \<le> 200" if q: "feasible 0 ?prob q" for q
  proof -
    from q obtain x where "q = [[x]]" "0 \<le> x" "x \<le> 10"
      by (auto simp: demo_lp feasible_def shape_def row_ok_def length_Suc_conv imbalance_def col_sum_def)
    then show ?thesis by (simp add: demo_lp objective_def revenue_def imbalance_def col_sum_def)
  qed
  then show ?thesis
    by (auto simp: demo_lp solver_ok_def accepted_def ten_mw_def feasible_def shape_def row_ok_def
        objective_def revenue_def imbalance_def col_sum_def)
qed

theorem optimise_schedule_spec_witness:
  "\<exists>f. snd (optimise_schedule rev (newest_first ru_at) id ten_mw 7 0 demo_request wind_db) = Inr f \<and>
     sum_list (map iv_mw (fp_intervals f)) \<le> 10"
proof -
  let ?run = "optimise_schedule rev (newest_first ru_at) id ten_mw 7 0 demo_request wind_db"
  have inv: "plan_inv wind_db" and runs: "runs wind_db = []" and new: "schedules wind_db = []"
    by (simp_all add: wind_db_def create_asset_def portfolio_empty_def type_of_def ramp_of_def Let_def plan_inv_def)
  have ok: "request_ok demo_request" "length (assets wind_db) = length (or_assets demo_request)"
    by (simp_all add: request_ok_def demo_request_def month_lengths_def assets_wind)
  have dis: "dispatch_optimise ten_mw specs prices mu = Some \<lparr>sr_objective = 200, sr_schedule = [[10]]\<rparr>" for specs prices mu
    by (simp add: dispatch_optimise_def ten_mw_def accepted_def)
  have "list_all interval_ok (draft_intervals (or_date demo_request) (assets wind_db) (length (or_prices demo_request)) [[10]])"
    by (simp add: draft_intervals_def assets_wind demo_request_def)
  then obtain f where f: "snd ?run = Inr f"
    using ok by (simp add: optimise_schedule_def demo_chosen dis Let_def insert_schedule_def new)
  have "?run = (fst ?run, Inr f)" using f by (metis prod.collapse)
  from optimise_schedule_spec [where solve = ten_mw, OF inv permuting_rev order_desc_newest_first ten_mw_ok this]
  show ?thesis using f runs by simp
qed

end
