(* ===== verification/Portfolio_Forecast.thy ===== *)
theory Portfolio_Forecast
  imports Portfolio_Dispatch
begin

text \<open>
  The portfolio dispatch service, fourth part: the ensemble forecast (\<open>forecast/pipeline.py\<close>), the
  task that runs it (\<open>forecast/tasks.py\<close>) and its endpoints (\<open>forecast/router.py\<close>). statsmodels
  and XGBoost are parameters, of which the properties assume only that a forecast has one value for each
  step asked for (\<open>lib_ok\<close>). NumPy arrays and pandas series are lists; a series is a list of times and values.
\<close>

section \<open>Features\<close>

type_synonym series = "(int \<times> real) list"

definition hour_of :: "int \<Rightarrow> int" where
  "hour_of t = (t div 3600000000) mod 24"

text \<open>Monday is 0; the first of January 1970 was a Thursday.\<close>

definition dow_of :: "int \<Rightarrow> int" where
  "dow_of t = (t div 86400000000 + 3) mod 7"

text \<open>\<open>shift(k)\<close>, with zero for what is missing.\<close>

definition lag :: "nat \<Rightarrow> real list \<Rightarrow> real list" where
  "lag k ys = take (length ys) (replicate k 0 @ ys)"

text \<open>The last 96 values up to and including position \<open>i\<close>, \<open>rolling(96, min_periods=1)\<close>.\<close>

definition last96 :: "real list \<Rightarrow> nat \<Rightarrow> real list" where
  "last96 ys i = drop (Suc i - 96) (take (Suc i) ys)"

definition roll_mean :: "real list \<Rightarrow> nat \<Rightarrow> real" where
  "roll_mean ys i = mean_of (last96 ys i)"

definition roll_std :: "real list \<Rightarrow> nat \<Rightarrow> real" where
  "roll_std ys i = (if length (last96 ys i) < 2 then 0 else stdev (last96 ys i))"

text \<open>The columns hour, dow, lag_1, lag_96, roll_mean_24h and roll_std_24h of one row.\<close>

definition build_features :: "series \<Rightarrow> real list list" where
  "build_features series =
     (let ys = map snd series
      in map (\<lambda>i. [of_int (hour_of (fst (series ! i))), of_int (dow_of (fst (series ! i))),
                 lag 4 ys ! i, lag 96 ys ! i, roll_mean ys i, roll_std ys i]) [0..<length series])"

section \<open>The pipeline\<close>

record ('s, 'x) forecast_lib =
  sarima_fit :: "nat \<times> nat \<times> nat \<Rightarrow> (nat \<times> nat \<times> nat \<times> nat) option \<Rightarrow> real list \<Rightarrow> 's"
  sarima_std :: "'s \<Rightarrow> real" \<comment> \<open>\<open>np.std\<close> of the residuals\<close>
  sarima_forecast :: "'s \<Rightarrow> nat \<Rightarrow> real list"
  xgb_fit :: "real list list \<Rightarrow> real list \<Rightarrow> 'x"
  xgb_predict :: "'x \<Rightarrow> real list list \<Rightarrow> real list"

definition lib_ok :: "('s, 'x) forecast_lib \<Rightarrow> bool" where
  "lib_ok lib \<longleftrightarrow>
     (\<forall>s n. length (sarima_forecast lib s n) = n) \<and> (\<forall>x X. length (xgb_predict lib x X) = length X)"

record ('s, 'x) pipeline =
  pp_order :: "nat \<times> nat \<times> nat"
  pp_seasonal :: "(nat \<times> nat \<times> nat \<times> nat) option"
  pp_sarima :: "'s option"
  pp_xgb :: "'x option"
  pp_sigma :: real
  pp_mape_sarima :: "real option"
  pp_mape_ensemble :: "real option"

definition pipeline_init :: "nat \<times> nat \<times> nat \<Rightarrow> (nat \<times> nat \<times> nat \<times> nat) option \<Rightarrow> ('s, 'x) pipeline" where
  "pipeline_init order seasonal =
     \<lparr>pp_order = order, pp_seasonal = seasonal, pp_sarima = None, pp_xgb = None, pp_sigma = 1,
      pp_mape_sarima = None, pp_mape_ensemble = None\<rparr>"

definition default_order :: "nat \<times> nat \<times> nat" where "default_order = (1, 1, 1)"

definition default_seasonal :: "nat \<times> nat \<times> nat \<times> nat" where "default_seasonal = (1, 1, 0, 96)"

definition clip0 :: "real list \<Rightarrow> real list" where
  "clip0 = map (max 0)"

definition log1p :: "real \<Rightarrow> real" where "log1p x = ln (1 + x)"

definition expm1 :: "real \<Rightarrow> real" where "expm1 x = exp x - 1"

definition ensemble :: "real list \<Rightarrow> real list \<Rightarrow> real list" where
  "ensemble xs ys = map2 (\<lambda>x y. 1 / 2 * x + 1 / 2 * y) xs ys"

definition mape :: "real list \<Rightarrow> real list \<Rightarrow> real" where
  "mape actual pred = mean_of (map2 (\<lambda>a p. \<bar>a - p\<bar> / (\<bar>a\<bar> + 1)) actual pred)"

text \<open>\<open>int(n * (1 - holdout_frac))\<close>.\<close>

definition split_at :: "nat \<Rightarrow> real \<Rightarrow> nat" where
  "split_at n holdout = nat \<lfloor>real n * (1 - holdout)\<rfloor>"

definition fit :: "('s, 'x) forecast_lib \<Rightarrow> series \<Rightarrow> real \<Rightarrow> ('s, 'x) pipeline \<Rightarrow> ('s, 'x) pipeline" where
  "fit lib series holdout pp =
     (let k = split_at (length series) holdout;
          ys = map snd series;
          log_train = map log1p (clip0 (take k ys));
          s = sarima_fit lib (pp_order pp) (pp_seasonal pp) log_train;
          sarima_pred = clip0 (map expm1 (sarima_forecast lib s (length ys - k)));
          features = build_features series;
          x = xgb_fit lib (take k features) (clip0 (take k ys));
          xgb_pred = clip0 (xgb_predict lib x (drop k features));
          actual = clip0 (drop k ys)
      in pp\<lparr>pp_sarima := Some s, pp_sigma := sarima_std lib s, pp_xgb := Some x,
            pp_mape_sarima := Some (mape actual sarima_pred),
            pp_mape_ensemble := Some (mape actual (ensemble sarima_pred xgb_pred))\<rparr>)"

datatype pipeline_error = NotFitted

definition mape_ensemble :: "('s, 'x) pipeline \<Rightarrow> pipeline_error + real" where
  "mape_ensemble pp = (case pp_mape_ensemble pp of None \<Rightarrow> Inl NotFitted | Some m \<Rightarrow> Inr m)"

definition mape_sarima :: "('s, 'x) pipeline \<Rightarrow> pipeline_error + real" where
  "mape_sarima pp = (case pp_mape_sarima pp of None \<Rightarrow> Inl NotFitted | Some m \<Rightarrow> Inr m)"

text \<open>The features of the future steps are all zero.\<close>

definition predict :: "('s, 'x) forecast_lib \<Rightarrow> nat \<Rightarrow> ('s, 'x) pipeline \<Rightarrow> pipeline_error + real list \<times> real list" where
  "predict lib n pp =
     (case (pp_sarima pp, pp_xgb pp) of
        (Some s, Some x) \<Rightarrow>
          let mu_sarima = clip0 (map expm1 (sarima_forecast lib s n));
              mu_xgb = clip0 (xgb_predict lib x (replicate n (replicate 6 0)))
          in Inr (ensemble mu_sarima mu_xgb, replicate n (max (pp_sigma pp) (1 / 10)))
      | _ \<Rightarrow> Inl NotFitted)"

section \<open>The task and the endpoints\<close>

text \<open>The order of the model depends on the number of values.\<close>

definition choose_pipeline :: "nat \<Rightarrow> ('s, 'x) pipeline" where
  "choose_pipeline n = (if n < 500 then pipeline_init (1, 0, 1) None else pipeline_init default_order (Some default_seasonal))"

datatype run_result = InsufficientData | RunStored nat real | RunFailed

fun number_intervals :: "nat \<Rightarrow> nat \<Rightarrow> int \<Rightarrow> (real \<times> real) list \<Rightarrow> forecast_interval list" where
  "number_intervals n run now [] = []"
| "number_intervals n run now ((m, s) # ms) =
     \<lparr>fi_id = n, fi_run = run, fi_start = now, fi_end = now, fi_mean = m, fi_std = s\<rparr> # number_intervals (Suc n) run now ms"

definition run_forecast ::
  "(telemetry list \<Rightarrow> telemetry list) \<Rightarrow> ('s, 'x) forecast_lib \<Rightarrow> int \<Rightarrow> nat \<Rightarrow> nat \<Rightarrow> portfolio_db \<Rightarrow> portfolio_db \<times> run_result" where
  "run_forecast newest lib now asset horizon_h db =
     (let rows = take 8640 (newest (filter (\<lambda>t. te_asset t = asset) (telemetry_rows db)))
      in if length rows < 40 then (db, InsufficientData)
         else let series = map (\<lambda>t. (te_at t, te_power t)) (rev rows);
                  pp = fit lib series (1 / 5) (choose_pipeline (length series))
              in case (predict lib (horizon_h * 4) pp, mape_ensemble pp) of
                   (Inr (mu, sigma), Inr m) \<Rightarrow>
                     let run = \<lparr>ru_id = fresh (map ru_id (runs db)), ru_asset = asset, ru_at = now,
                                ru_horizon = int horizon_h, ru_mape = m\<rparr>;
                         ivs = number_intervals (fresh (map fi_id (forecast_ivls db))) (ru_id run) now
                                 (map (\<lambda>i. (mu ! i, sigma ! i)) [0..<horizon_h * 4])
                     in (db\<lparr>runs := runs db @ [run], forecast_ivls := forecast_ivls db @ ivs\<rparr>, RunStored (ru_id run) m)
                 | _ \<Rightarrow> (db, RunFailed))"

text \<open>A trigger only queues the task.\<close>

definition trigger_forecast :: "nat \<Rightarrow> nat \<Rightarrow> (nat \<times> nat) list \<Rightarrow> (nat \<times> nat) list \<times> string" where
  "trigger_forecast asset horizon_h queue = (queue @ [(asset, horizon_h)], ''accepted'')"

text \<open>
  The answer of the latest run is built from the attributes of the table object: a required field of
  the response model that is no attribute of it fails the validation of the response, a 500.
\<close>

definition ForecastRun_attributes :: "string list" where
  "ForecastRun_attributes =
     [''id'', ''asset_id'', ''created_at'', ''horizon_h'', ''mape'', ''model_params_json'', ''intervals'']"

definition ForecastRunRead_required :: "string list" where
  "ForecastRunRead_required = [''run_id'', ''asset_id'', ''created_at'', ''mape'']"

definition get_latest_forecast ::
  "(forecast_run list \<Rightarrow> forecast_run list) \<Rightarrow> nat \<Rightarrow> portfolio_db \<Rightarrow> (plan_error, forecast_run) response" where
  "get_latest_forecast latest asset db =
     (case latest (filter (\<lambda>r. ru_asset r = asset) (runs db)) of
        [] \<Rightarrow> Inl (HTTPException 404 NoForecastRun)
      | run # _ \<Rightarrow>
          if list_all (\<lambda>f. f \<in> set ForecastRun_attributes) ForecastRunRead_required then Inr run
          else Inl (HTTPException 500 Unhandled))"


section \<open>The pipeline's results\<close>

lemma length_clip0 [simp]: "length (clip0 xs) = length xs"
  by (simp add: clip0_def)

lemma clip0_nonneg: "x \<in> set (clip0 xs) \<Longrightarrow> 0 \<le> x"
  by (auto simp: clip0_def)

lemma length_ensemble [simp]: "length (ensemble xs ys) = min (length xs) (length ys)"
  by (simp add: ensemble_def)

lemma ensemble_nth: "i < length xs \<Longrightarrow> i < length ys \<Longrightarrow> ensemble xs ys ! i = 1 / 2 * xs ! i + 1 / 2 * ys ! i"
  by (simp add: ensemble_def)

lemma ensemble_nonneg: "list_all (\<lambda>x. 0 \<le> x) (ensemble (clip0 xs) (clip0 ys))"
  by (simp add: list_all_length ensemble_nth) (simp add: clip0_def)

lemma mean_of_mono:
  "length xs = length ys \<Longrightarrow> (\<And>i. i < length xs \<Longrightarrow> xs ! i \<le> ys ! i) \<Longrightarrow> mean_of xs \<le> mean_of ys"
proof -
  assume len: "length xs = length ys" and le: "\<And>i. i < length xs \<Longrightarrow> xs ! i \<le> ys ! i"
  have "sum_list xs \<le> sum_list ys"
    unfolding sum_list_sum_nth len using le len by (intro sum_mono) simp
  then show ?thesis using len by (simp add: mean_of_def divide_right_mono)
qed

lemma mean_of_avg:
  "length xs = length ys \<Longrightarrow> mean_of (map2 (\<lambda>x y. (x + y) / 2) xs ys) = (mean_of xs + mean_of ys) / 2"
proof -
  assume len: "length xs = length ys"
  then have "sum_list (map2 (\<lambda>x y. (x + y) / 2) xs ys) = (sum_list xs + sum_list ys) / 2"
    by (induction xs ys rule: list_induct2) (auto simp: add_divide_distrib)
  then show ?thesis using len by (simp add: mean_of_def add_divide_distrib)
qed

text \<open>An ensemble is on average no worse than the mean of its parts.\<close>

lemma mape_ensemble_le:
  assumes "length xs = length actual" and "length ys = length actual"
  shows "mape actual (ensemble xs ys) \<le> (mape actual xs + mape actual ys) / 2"
proof -
  let ?err = "\<lambda>a p. \<bar>a - p\<bar> / (\<bar>a\<bar> + 1) :: real"
  have "?err a (1 / 2 * x + 1 / 2 * y) \<le> (?err a x + ?err a y) / 2" for a x y
  proof -
    have "\<bar>a - (1 / 2 * x + 1 / 2 * y)\<bar> \<le> (\<bar>a - x\<bar> + \<bar>a - y\<bar>) / 2" by (simp add: abs_le_iff field_simps) linarith
    then have "?err a (1 / 2 * x + 1 / 2 * y) \<le> (\<bar>a - x\<bar> + \<bar>a - y\<bar>) / 2 / (\<bar>a\<bar> + 1)"
      by (intro divide_right_mono) auto
    also have "\<dots> = (?err a x + ?err a y) / 2" by (simp add: add_divide_distrib mult.commute)
    finally show ?thesis .
  qed
  then have "mape actual (ensemble xs ys) \<le> mean_of (map2 (\<lambda>x y. (x + y) / 2) (map2 ?err actual xs) (map2 ?err actual ys))"
    unfolding mape_def using assms by (intro mean_of_mono) (simp_all add: ensemble_nth)
  then show ?thesis using assms by (simp add: mean_of_avg mape_def)
qed

lemma mape_nonneg: "0 \<le> mape actual pred"
  by (auto simp: mape_def mean_of_def intro!: divide_nonneg_nonneg sum_list_nonneg)

lemma length_build_features [simp]: "length (build_features series) = length series"
  by (simp add: build_features_def Let_def)

definition xgb_part :: "('s, 'x) forecast_lib \<Rightarrow> series \<Rightarrow> real \<Rightarrow> real list" where
  "xgb_part lib series h =
     (let k = split_at (length series) h; fs = build_features series
      in clip0 (xgb_predict lib (xgb_fit lib (take k fs) (clip0 (take k (map snd series)))) (drop k fs)))"

definition sarima_part :: "('s, 'x) forecast_lib \<Rightarrow> series \<Rightarrow> real \<Rightarrow> ('s, 'x) pipeline \<Rightarrow> real list" where
  "sarima_part lib series h pp =
     (let k = split_at (length series) h;
          s = sarima_fit lib (pp_order pp) (pp_seasonal pp) (map log1p (clip0 (take k (map snd series))))
      in clip0 (map expm1 (sarima_forecast lib s (length series - k))))"

definition held_out :: "series \<Rightarrow> real \<Rightarrow> real list" where
  "held_out series h = clip0 (drop (split_at (length series) h) (map snd series))"

lemma fit_errors:
  "mape_ensemble (fit lib series h pp) =
     Inr (mape (held_out series h) (ensemble (sarima_part lib series h pp) (xgb_part lib series h)))"
  "mape_sarima (fit lib series h pp) = Inr (mape (held_out series h) (sarima_part lib series h pp))"
  by (simp_all add: mape_ensemble_def mape_sarima_def fit_def Let_def held_out_def sarima_part_def xgb_part_def)

lemma part_lengths:
  assumes "lib_ok lib"
  shows "length (sarima_part lib series h pp) = length (held_out series h)"
    and "length (xgb_part lib series h) = length (held_out series h)"
  using assms by (simp_all add: lib_ok_def held_out_def sarima_part_def xgb_part_def Let_def)

lemma fit_predict:
  assumes "lib_ok lib"
  shows "\<exists>mu sg. predict lib n (fit lib series h pp) = Inr (mu, replicate n sg) \<and>
    length mu = n \<and> list_all (\<lambda>x. 0 \<le> x) mu \<and> 1 / 10 \<le> sg"
proof -
  obtain xs ys sg where p: "predict lib n (fit lib series h pp) = Inr (ensemble (clip0 xs) (clip0 ys), replicate n (max sg (1 / 10)))"
    and "length xs = n" "length ys = n"
    using assms by (simp add: predict_def fit_def Let_def lib_ok_def) (metis length_map length_replicate)
  then show ?thesis using ensemble_nonneg [of xs ys] by auto
qed

text \<open>
  The pipeline: before it is fitted, predictions and errors are refused; after it, every forecast of
  \<open>n\<close> steps has \<open>n\<close> means that are not negative and one standard deviation of at least 0.1, the reported errors
  are not negative, and that of the ensemble is at most the mean of the errors of its two models.
\<close>

theorem pipeline_spec:
  fixes lib :: "('s, 'x) forecast_lib" and pp :: "('s, 'x) pipeline"
  assumes "lib_ok lib"
  shows "predict lib n (pipeline_init order seasonal) = Inl NotFitted \<and>
    mape_ensemble (pipeline_init order seasonal :: ('s, 'x) pipeline) = Inl NotFitted \<and>
    (\<exists>mu sg me ms. predict lib n (fit lib series h pp) = Inr (mu, replicate n sg) \<and>
       length mu = n \<and> list_all (\<lambda>x. 0 \<le> x) mu \<and> 1 / 10 \<le> sg \<and>
       mape_ensemble (fit lib series h pp) = Inr me \<and> mape_sarima (fit lib series h pp) = Inr ms \<and> 0 \<le> me \<and>
       me \<le> (ms + mape (held_out series h) (xgb_part lib series h)) / 2)"
  using fit_predict [OF assms, of n series h pp] mape_ensemble_le [OF part_lengths [OF assms]]
  by (auto simp: fit_errors mape_nonneg) (simp_all add: pipeline_init_def predict_def mape_ensemble_def)


definition flat_lib :: "(unit, unit) forecast_lib" where
  "flat_lib = \<lparr>sarima_fit = (\<lambda>_ _ _. ()), sarima_std = (\<lambda>_. 0), sarima_forecast = (\<lambda>_ n. replicate n 0),
     xgb_fit = (\<lambda>_ _. ()), xgb_predict = (\<lambda>_ X. replicate (length X) 3)\<rparr>"

lemma lib_ok_flat: "lib_ok flat_lib"
  by (simp add: lib_ok_def flat_lib_def)

theorem pipeline_spec_witness:
  "\<exists>mu sg. predict flat_lib 4 (fit flat_lib [(0, 1), (1, 2)] (1 / 5) (choose_pipeline 2)) = Inr (mu, replicate 4 sg) \<and>
     length mu = 4 \<and> 1 / 10 \<le> sg"
  using pipeline_spec [OF lib_ok_flat, of 4 default_order None "[(0, 1), (1, 2)]" "1 / 5" "choose_pipeline 2"] by blast

section \<open>The features of a row contain its target\<close>

definition prefix_sum :: "real list \<Rightarrow> nat \<Rightarrow> real" where
  "prefix_sum ys n = sum_list (take n ys)"

lemma sum_drop_take: "a \<le> b \<Longrightarrow> sum_list (drop a (take b ys)) = prefix_sum ys b - prefix_sum ys a"
proof -
  assume "a \<le> b"
  then have "take b ys = take a ys @ drop a (take b ys)"
    by (metis append_take_drop_id min.absorb1 take_take)
  then have "prefix_sum ys b = prefix_sum ys a + sum_list (drop a (take b ys))"
    unfolding prefix_sum_def by (metis sum_list_append)
  then show ?thesis by simp
qed

lemma prefix_sum_Suc: "i < length ys \<Longrightarrow> prefix_sum ys (Suc i) = prefix_sum ys i + ys ! i"
  by (simp add: prefix_sum_def take_Suc_conv_app_nth)

text \<open>The rolling mean, as a difference of prefix sums.\<close>

lemma roll_mean_eq:
  assumes "i < length ys"
  shows "roll_mean ys i * real (min 96 (Suc i)) = prefix_sum ys (Suc i) - prefix_sum ys (Suc i - 96)"
proof -
  have "length (last96 ys i) = min 96 (Suc i)" using assms by (simp add: last96_def)
  moreover have "sum_list (last96 ys i) = prefix_sum ys (Suc i) - prefix_sum ys (Suc i - 96)"
    unfolding last96_def by (rule sum_drop_take) simp
  ultimately show ?thesis by (simp add: roll_mean_def mean_of_def)
qed

lemma build_features_nth:
  assumes "i < length series"
  shows "build_features series ! i ! 3 = lag 96 (map snd series) ! i"
    and "build_features series ! i ! 4 = roll_mean (map snd series) i"
  using assms by (simp_all add: build_features_def Let_def)

text \<open>
  The features leak the target: from the rolling mean of a row and of the row before it, and the lag of a
  day, the power of the row itself is computed exactly, at every position of the series. The errors that \<open>fit\<close>
  measures on the held-out rows are therefore those of a model that is shown what it has to predict.
\<close>

theorem features_reveal_target:
  assumes "i < length series"
  defines "F \<equiv> build_features series"
  shows "snd (series ! i) =
    (if i < 96 then real (Suc i) * F ! i ! 4 - real i * F ! (i - 1) ! 4
     else 96 * (F ! i ! 4 - F ! (i - 1) ! 4) + F ! i ! 3)"
proof -
  let ?ys = "map snd series"
  have here: "F ! i ! 4 * real (min 96 (Suc i)) = prefix_sum ?ys (Suc i) - prefix_sum ?ys (Suc i - 96)"
    unfolding F_def build_features_nth(2) [OF assms(1)] using assms(1) by (intro roll_mean_eq) simp
  have y: "prefix_sum ?ys (Suc i) = prefix_sum ?ys i + snd (series ! i)"
    using assms(1) prefix_sum_Suc [of i ?ys] by simp
  have before: "F ! (i - 1) ! 4 * real (min 96 i) = prefix_sum ?ys i - prefix_sum ?ys (i - 96)" if "0 < i"
  proof -
    have "i - 1 < length series" "Suc (i - 1) = i" using assms(1) that by auto
    then show ?thesis
      unfolding F_def build_features_nth(2) [OF \<open>i - 1 < length series\<close>] using roll_mean_eq [of "i - 1" ?ys] by simp
  qed
  show ?thesis
  proof (cases "i < 96")
    case True
    then have "real (Suc i) * F ! i ! 4 = prefix_sum ?ys (Suc i)" using here by (simp add: prefix_sum_def mult.commute)
    moreover have "real i * F ! (i - 1) ! 4 = prefix_sum ?ys i"
      using before True by (cases "i = 0") (simp_all add: prefix_sum_def mult.commute)
    ultimately show ?thesis using True y by simp
  next
    case False
    then have "F ! i ! 3 = snd (series ! (i - 96))"
      using assms(1) build_features_nth(1) [OF assms(1)] by (simp add: F_def lag_def nth_append)
    moreover have "prefix_sum ?ys (Suc i - 96) = prefix_sum ?ys (i - 96) + snd (series ! (i - 96))"
    proof -
      have "Suc i - 96 = Suc (i - 96)" "i - 96 < length series" using False assms(1) by auto
      then show ?thesis using prefix_sum_Suc [of "i - 96" ?ys] by simp
    qed
    ultimately show ?thesis using False here before y by simp
  qed
qed

theorem features_reveal_target_witness:
  "real 2 * build_features [(0, 3), (900, 7)] ! 1 ! 4 - real 1 * build_features [(0, 3), (900, 7)] ! 0 ! 4 = 7"
  using features_reveal_target [of 1 "[(0, 3), (900, 7)]"] by simp


section \<open>What the task stores\<close>

lemma number_intervals_data:
  "map fi_mean (number_intervals n run now ms) = map fst ms \<and> map fi_std (number_intervals n run now ms) = map snd ms \<and>
   list_all (\<lambda>i. fi_run i = run \<and> fi_start i = now \<and> fi_end i = now) (number_intervals n run now ms)"
  by (induction n run now ms rule: number_intervals.induct) auto

lemma number_intervals_in:
  assumes "i \<in> set (number_intervals n run now ms)"
  shows "fi_mean i \<in> fst ` set ms" and "fi_std i \<in> snd ` set ms"
  using assms by (induction n run now ms rule: number_intervals.induct) auto

lemma length_number_intervals: "length (number_intervals n run now ms) = length ms"
  using number_intervals_data [of n run now ms] by (metis length_map)

lemma equal_keys_sorted: "list_all (\<lambda>i. key i = c) xs \<Longrightarrow> sorted_wrt (\<lambda>a b. key a \<le> (key b :: int)) xs"
  by (induction xs) (auto simp: list_all_iff)

lemma get_latest_never:
  assumes "order_desc ru_at latest" and "r \<in> set (runs db)" and "ru_asset r = asset"
  shows "get_latest_forecast latest asset db = Inl (HTTPException 500 Unhandled)"
proof -
  let ?rs = "filter (\<lambda>r. ru_asset r = asset) (runs db)"
  have "?rs \<noteq> []" using assms(2,3) by (auto simp: filter_empty_conv)
  then have "latest ?rs \<noteq> []" using order_desc.order_Nil_iff [OF assms(1)] by blast
  then show ?thesis
    by (cases "latest ?rs") (auto simp: get_latest_forecast_def ForecastRunRead_required_def ForecastRun_attributes_def)
qed

definition run_intervals_ok :: "forecast_run \<Rightarrow> forecast_interval list \<Rightarrow> bool" where
  "run_intervals_ok run ivs \<longleftrightarrow>
     list_all (\<lambda>i. fi_run i = ru_id run \<and> fi_start i = ru_at run \<and> fi_end i = ru_at run \<and> 0 \<le> fi_mean i \<and> 1 / 10 \<le> fi_std i) ivs"

lemma run_forecast_few:
  assumes "order_desc te_at newest" and "length (filter (\<lambda>t. te_asset t = asset) (telemetry_rows db)) < 40"
  shows "run_forecast newest lib now asset h db = (db, InsufficientData)"
  using assms(2) order_desc.length_order [OF assms(1)] by (simp add: run_forecast_def)

lemma run_forecast_stores:
  fixes lib :: "('s, 'x) forecast_lib"
  assumes "lib_ok lib" and "order_desc te_at newest"
    and "\<not> length (filter (\<lambda>t. te_asset t = asset) (telemetry_rows db)) < 40"
  shows "\<exists>run new. run_forecast newest lib now asset h db =
      (db\<lparr>runs := runs db @ [run], forecast_ivls := forecast_ivls db @ new\<rparr>, RunStored (ru_id run) (ru_mape run)) \<and>
    ru_id run = fresh (map ru_id (runs db)) \<and> ru_asset run = asset \<and> ru_at run = now \<and> 0 \<le> ru_mape run \<and>
    length new = h * 4 \<and> run_intervals_ok run new"
proof -
  define rows where "rows = take 8640 (newest (filter (\<lambda>t. te_asset t = asset) (telemetry_rows db)))"
  define series where "series = map (\<lambda>t. (te_at t, te_power t)) (rev rows)"
  let ?pp = "fit lib series (1 / 5) (choose_pipeline (length series)) :: ('s, 'x) pipeline"
  have enough: "\<not> length rows < 40" using assms(3) order_desc.length_order [OF assms(2)] by (simp add: rows_def)
  obtain mu sg where p: "predict lib (h * 4) ?pp = Inr (mu, replicate (h * 4) sg)"
    and mu: "length mu = h * 4" "list_all (\<lambda>x. 0 \<le> x) mu" "1 / 10 \<le> sg"
    using fit_predict [OF assms(1)] by blast
  obtain m where m: "mape_ensemble ?pp = Inr m" "0 \<le> m" by (simp add: fit_errors mape_nonneg)
  define run where "run = \<lparr>ru_id = fresh (map ru_id (runs db)), ru_asset = asset, ru_at = now, ru_horizon = int h, ru_mape = m\<rparr>"
  define new where "new = number_intervals (fresh (map fi_id (forecast_ivls db))) (ru_id run) now
      (map (\<lambda>i. (mu ! i, replicate (h * 4) sg ! i)) [0..<h * 4])"
  have "run_forecast newest lib now asset h db =
      (db\<lparr>runs := runs db @ [run], forecast_ivls := forecast_ivls db @ new\<rparr>, RunStored (ru_id run) m)"
    using enough unfolding run_forecast_def rows_def [symmetric] Let_def series_def [symmetric] p m sum.case prod.case
    by (simp add: run_def new_def)
  moreover have "0 \<le> fi_mean i \<and> 1 / 10 \<le> fi_std i" if "i \<in> set new" for i
    using number_intervals_in [OF that [unfolded new_def]] mu by (auto simp: list_all_length)
  then have "run_intervals_ok run new"
    using number_intervals_data [of "fresh (map fi_id (forecast_ivls db))" "ru_id run" now]
    by (auto simp: run_intervals_ok_def new_def list_all_iff run_def)
  moreover have "length new = h * 4" by (simp add: new_def length_number_intervals)
  ultimately show ?thesis using m(2) by (intro exI [of _ run] exI [of _ new]) (simp add: run_def)
qed

text \<open>
  C39. A forecast run: with fewer than 40 measurements of the asset nothing is stored; otherwise one run under a new
  id and four intervals for each hour, all with means that are not negative and deviations of at least 0.1. All of them
  start and end at the moment of the run, so every order of them is a correct answer to the optimiser's
  \<open>ORDER BY interval_start\<close>: which hour a mean stands for is lost. And the endpoint that shows the latest run
  answers every asset that has a run with 500, since its response needs a field the table lacks.
\<close>

theorem run_forecast_spec:
  fixes lib :: "('s, 'x) forecast_lib"
  assumes "lib_ok lib" and "order_desc te_at newest" and "order_desc ru_at latest"
    and "run_forecast newest lib now asset h db = (db', result)"
  shows "if length (filter (\<lambda>t. te_asset t = asset) (telemetry_rows db)) < 40 then db' = db \<and> result = InsufficientData
    else \<exists>run new m. result = RunStored (ru_id run) m \<and> runs db' = runs db @ [run] \<and>
      ru_id run \<notin> ru_id ` set (runs db) \<and> ru_asset run = asset \<and> ru_at run = now \<and> ru_mape run = m \<and> 0 \<le> m \<and>
      forecast_ivls db' = forecast_ivls db @ new \<and> length new = h * 4 \<and>
      list_all (\<lambda>i. fi_run i = ru_id run \<and> fi_start i = now \<and> fi_end i = now \<and> 0 \<le> fi_mean i \<and> 1 / 10 \<le> fi_std i) new \<and>
      (\<forall>ivs. mset ivs = mset new \<longrightarrow> sorted_wrt (\<lambda>a b. fi_start a \<le> fi_start b) ivs) \<and>
      get_latest_forecast latest asset db' = Inl (HTTPException 500 Unhandled)"
proof (cases "length (filter (\<lambda>t. te_asset t = asset) (telemetry_rows db)) < 40")
  case True
  then show ?thesis using assms(4) run_forecast_few [OF assms(2) True, of lib now h] by simp
next
  case False
  from run_forecast_stores [OF assms(1,2) False, of now h] assms(4) obtain run new
    where db': "db' = db\<lparr>runs := runs db @ [run], forecast_ivls := forecast_ivls db @ new\<rparr>" "result = RunStored (ru_id run) (ru_mape run)"
      and run: "ru_id run = fresh (map ru_id (runs db))" "ru_asset run = asset" "ru_at run = now" "0 \<le> ru_mape run"
      and new: "length new = h * 4" "run_intervals_ok run new"
    by auto
  have "sorted_wrt (\<lambda>a b. fi_start a \<le> fi_start b) ivs" if "mset ivs = mset new" for ivs
    using new(2) mset_eq_setD [OF that]
    by (intro equal_keys_sorted [where c = now]) (simp add: list_all_iff run_intervals_ok_def run(3))
  moreover have "get_latest_forecast latest asset db' = Inl (HTTPException 500 Unhandled)"
    by (rule get_latest_never [OF assms(3), of run]) (simp_all add: db' run(2))
  moreover have "ru_id run \<notin> ru_id ` set (runs db)" using fresh_notin [of "map ru_id (runs db)"] by (simp add: run(1))
  ultimately show ?thesis using False run new
    unfolding if_not_P [OF False]
    by (intro exI [of _ run] exI [of _ new] exI [of _ "ru_mape run"]) (simp add: db' run_intervals_ok_def)
qed

definition forty_rows_db :: portfolio_db where
  "forty_rows_db = portfolio_empty\<lparr>telemetry_rows :=
     map (\<lambda>i. \<lparr>te_id = Suc i, te_asset = 1, te_at = int i, te_power = 5\<rparr>) [0..<40]\<rparr>"

theorem run_forecast_spec_witness:
  "get_latest_forecast (newest_first ru_at) 1 (fst (run_forecast (newest_first te_at) flat_lib 0 1 24 forty_rows_db)) =
     Inl (HTTPException 500 Unhandled)"
proof -
  have "filter (\<lambda>t. te_asset t = 1) (telemetry_rows forty_rows_db) = telemetry_rows forty_rows_db"
    by (intro filter_True) (auto simp: forty_rows_db_def)
  moreover have "length (telemetry_rows forty_rows_db) = 40" by (simp add: forty_rows_db_def)
  ultimately have "\<not> length (filter (\<lambda>t. te_asset t = 1) (telemetry_rows forty_rows_db)) < 40" by simp
  moreover obtain db' result where run: "run_forecast (newest_first te_at) flat_lib 0 1 24 forty_rows_db = (db', result)"
    by fastforce
  ultimately have "get_latest_forecast (newest_first ru_at) 1 db' = Inl (HTTPException 500 Unhandled)"
    using run_forecast_spec [OF lib_ok_flat order_desc_newest_first order_desc_newest_first run] by auto
  then show ?thesis unfolding run fst_conv .
qed

end
