(* ===== verification/Portfolio_System.thy ===== *)
theory Portfolio_System
  imports Portfolio_Forecast
begin

text \<open>
  The portfolio dispatch service as a whole: the requests and tasks that change its tables as one step
  relation, and what holds in every state they reach. The parameters of the steps (orders of result rows,
  solver, forecast libraries, archive outcome, ids and clocks) are chosen anew at each step.
\<close>

section \<open>The steps\<close>

inductive portfolio_step :: "portfolio_db \<Rightarrow> portfolio_db \<Rightarrow> bool" where
  Asset: "portfolio_step db (fst (create_asset b db))"
| Telemetry: "portfolio_step db (fst (ingest_telemetry naive_ok empty_ok rows db))"
| Forecast: "lib_ok lib \<Longrightarrow> order_desc te_at newest \<Longrightarrow>
    portfolio_step db (fst (run_forecast newest (lib :: (nat, nat) forecast_lib) now asset h db))"
| Optimise: "portfolio_step db (fst (optimise_schedule scan latest by_start solve new_id now req db))"
| Create: "portfolio_step db (fst (fst (create_fahrplan archive f (db, blobs :: container))))"
| Patch: "portfolio_step db (fst (patch_fahrplan scan' sid p db))"

inductive_cases portfolio_stepE: "portfolio_step db db'"

section \<open>The invariant\<close>

definition run_inv :: "portfolio_db \<Rightarrow> bool" where
  "run_inv db \<longleftrightarrow>
     distinct (map ru_id (runs db)) \<and>
     (\<forall>i\<in>set (forecast_ivls db). fi_run i \<in> ru_id ` set (runs db) \<and> 0 \<le> fi_mean i)"

definition portfolio_inv :: "portfolio_db \<Rightarrow> bool" where
  "portfolio_inv db \<longleftrightarrow> data_inv db \<and> plan_inv db \<and> run_inv db"

text \<open>Each part of the invariant depends on its own tables only.\<close>

lemma data_inv_cong: "assets db' = assets db \<Longrightarrow> telemetry_rows db' = telemetry_rows db \<Longrightarrow> data_inv db' = data_inv db"
  by (simp add: data_inv_def)

lemma plan_inv_cong: "schedules db' = schedules db \<Longrightarrow> plan_rows db' = plan_rows db \<Longrightarrow> plan_inv db' = plan_inv db"
  by (simp add: plan_inv_def)

lemma run_inv_cong: "runs db' = runs db \<Longrightarrow> forecast_ivls db' = forecast_ivls db \<Longrightarrow> run_inv db' = run_inv db"
  by (simp add: run_inv_def)

lemma create_asset_frame:
  "schedules (fst (create_asset b db)) = schedules db \<and> plan_rows (fst (create_asset b db)) = plan_rows db \<and>
   runs (fst (create_asset b db)) = runs db \<and> forecast_ivls (fst (create_asset b db)) = forecast_ivls db"
  by (simp add: create_asset_def Let_def split: option.split)

lemma ingest_telemetry_frame:
  "schedules (fst (ingest_telemetry nok ok rows db)) = schedules db \<and> plan_rows (fst (ingest_telemetry nok ok rows db)) = plan_rows db \<and>
   runs (fst (ingest_telemetry nok ok rows db)) = runs db \<and> forecast_ivls (fst (ingest_telemetry nok ok rows db)) = forecast_ivls db"
  by (simp add: ingest_telemetry_def Let_def split: option.split)

lemma run_forecast_frame:
  "assets (fst (run_forecast newest lib now asset h db)) = assets db \<and>
   telemetry_rows (fst (run_forecast newest lib now asset h db)) = telemetry_rows db \<and>
   schedules (fst (run_forecast newest lib now asset h db)) = schedules db \<and>
   plan_rows (fst (run_forecast newest lib now asset h db)) = plan_rows db"
  by (simp add: run_forecast_def Let_def split: sum.split)

lemma insert_schedule_frame:
  "insert_schedule f db = Some db' \<Longrightarrow> assets db' = assets db \<and> telemetry_rows db' = telemetry_rows db \<and>
   runs db' = runs db \<and> forecast_ivls db' = forecast_ivls db"
  by (auto simp: insert_schedule_def split: if_splits)

lemma patch_frame:
  "assets (fst (patch_fahrplan scan sid p db)) = assets db \<and> telemetry_rows (fst (patch_fahrplan scan sid p db)) = telemetry_rows db \<and>
   runs (fst (patch_fahrplan scan sid p db)) = runs db \<and> forecast_ivls (fst (patch_fahrplan scan sid p db)) = forecast_ivls db"
  by (simp add: patch_fahrplan_def Let_def)


lemma plan_inv_create:
  "plan_inv db \<Longrightarrow> plan_inv (fst (fst (create_fahrplan archive f (db, blobs))))"
  by (auto simp: create_fahrplan_def intro: plan_inv_insert split: option.split prod.split)

lemma create_frame:
  "assets (fst (fst (create_fahrplan archive f (db, blobs)))) = assets db \<and>
   telemetry_rows (fst (fst (create_fahrplan archive f (db, blobs)))) = telemetry_rows db \<and>
   runs (fst (fst (create_fahrplan archive f (db, blobs)))) = runs db \<and>
   forecast_ivls (fst (fst (create_fahrplan archive f (db, blobs)))) = forecast_ivls db"
  by (auto simp: create_fahrplan_def dest: insert_schedule_frame split: option.split prod.split)

lemma plan_inv_patch:
  assumes "plan_inv db"
  shows "plan_inv (fst (patch_fahrplan scan sid p db))"
proof (cases "patch_valid p \<and> sid \<in> sc_id ` set (schedules db)")
  case True
  then show ?thesis using plan_inv_patched [OF assms] by (simp add: patch_rows Let_def)
next
  case False
  then have "find (\<lambda>s. sc_id s = sid) (schedules db) = None" if "patch_valid p"
    using that by (auto simp: find_None_iff)
  then show ?thesis using False assms by (auto simp: patch_fahrplan_def)
qed

lemma run_inv_forecast:
  assumes "run_inv db" and "lib_ok lib" and "order_desc te_at newest"
  shows "run_inv (fst (run_forecast newest lib now asset h db))"
proof (cases "length (filter (\<lambda>t. te_asset t = asset) (telemetry_rows db)) < 40")
  case True
  then show ?thesis using assms(1) run_forecast_few [OF assms(3) True, of lib now h] by simp
next
  case False
  from run_forecast_stores [OF assms(2,3) False, of now h] obtain run new
    where "fst (run_forecast newest lib now asset h db) = db\<lparr>runs := runs db @ [run], forecast_ivls := forecast_ivls db @ new\<rparr>"
      and "ru_id run = fresh (map ru_id (runs db))" and "run_intervals_ok run new"
    by auto
  then show ?thesis
    using assms(1) fresh_notin [of "map ru_id (runs db)"] by (auto simp: run_inv_def run_intervals_ok_def list_all_iff)
qed

lemma portfolio_inv_step:
  assumes "portfolio_step db db'" and "portfolio_inv db"
  shows "portfolio_inv db'"
  using assms(1)
proof (cases rule: portfolio_step.cases)
  case (Asset b)
  then show ?thesis
    using assms(2) data_inv_create create_asset_frame plan_inv_cong run_inv_cong unfolding portfolio_inv_def by metis
next
  case (Telemetry ok rows)
  then show ?thesis
    using assms(2) data_inv_ingest ingest_telemetry_frame plan_inv_cong run_inv_cong unfolding portfolio_inv_def by metis
next
  case (Forecast lib newest now asset h)
  then show ?thesis
    using assms(2) run_inv_forecast run_forecast_frame plan_inv_cong data_inv_cong unfolding portfolio_inv_def by metis
next
  case (Optimise scan latest by_start solve new_id now req)
  then have "db' = db \<or> (\<exists>f. fahrplan_ok f \<and> insert_schedule f db = Some db')"
    using optimise_schedule_cases by (metis prod.collapse)
  then show ?thesis
    using assms(2) plan_inv_insert insert_schedule_frame run_inv_cong data_inv_cong unfolding portfolio_inv_def by metis
next
  case (Create archive f blobs)
  then show ?thesis
    using assms(2) plan_inv_create create_frame run_inv_cong data_inv_cong unfolding portfolio_inv_def by metis
next
  case (Patch scan sid p)
  then show ?thesis
    using assms(2) plan_inv_patch patch_frame run_inv_cong data_inv_cong unfolding portfolio_inv_def by metis
qed


lemma portfolio_reachable_inv: "portfolio_step\<^sup>*\<^sup>* portfolio_empty db \<Longrightarrow> portfolio_inv db"
proof (induction rule: rtranclp_induct)
  case base
  show ?case by (simp add: portfolio_inv_def data_inv_empty plan_inv_empty run_inv_def) (simp add: portfolio_empty_def)
next
  case (step db db')
  then show ?case by (blast intro: portfolio_inv_step)
qed



end
