(* ===== verification/Portfolio_Reopt.thy ===== *)
theory Portfolio_Reopt
  imports Json
begin

text \<open>
  The portfolio dispatch service, fifth part: intraday re-optimisation (\<open>reopt/worker.py\<close>) and the Celery application that
  is to run it (\<open>celery_app.py\<close>, \<open>docker-compose.yml\<close>). Deviations are published on a Redis channel as JSON texts, a
  subscriber sends a task for each, and the task skips stale ones. Parameters: the grammar of \<open>datetime.fromisoformat\<close>
  (\<open>fromiso\<close>), the text of a float (\<open>repr_float\<close>) and Celery's choice of a queue (\<open>route\<close>).
\<close>

record pub_message =
  pm_type :: string
  pm_data :: string

record reopt_task =
  rt_asset :: json
  rt_delta :: json
  rt_timestamp :: json

section \<open>Publishing and subscribing\<close>

text \<open>What the subscriber of the channel receives for a published deviation.\<close>

definition publish_deviation :: "(real \<Rightarrow> string) \<Rightarrow> string \<Rightarrow> int \<Rightarrow> real \<Rightarrow> pub_message" where
  "publish_deviation repr_float now_iso asset delta =
     \<lparr>pm_type = ''message'',
      pm_data = dump_object [(''asset_id'', show_int asset), (''delta_mw'', repr_float delta), (''timestamp'', json_string now_iso)]\<rparr>"

text \<open>
  One message: ignored, a warning (\<open>JSONDecodeError\<close> or \<open>KeyError\<close>), a task, or, for a JSON value that is no object, the
  \<open>TypeError\<close> of subscripting it, which the handler does not catch.
\<close>

datatype outcome = Ignored | Warned | Queued reopt_task | Raised

definition on_message :: "pub_message \<Rightarrow> outcome" where
  "on_message m =
     (if pm_type m \<noteq> ''message'' then Ignored
      else case loads (pm_data m) of
             None \<Rightarrow> Warned
           | Some (JObj obj) \<Rightarrow>
               (case (field_of ''asset_id'' obj, field_of ''delta_mw'' obj, field_of ''timestamp'' obj) of
                  (Some a, Some d, Some t) \<Rightarrow> Queued \<lparr>rt_asset = a, rt_delta = d, rt_timestamp = t\<rparr>
                | _ \<Rightarrow> Warned)
           | Some _ \<Rightarrow> Raised)"

text \<open>The loop: the tasks it queues, and whether it still listens.\<close>

fun subscriber :: "pub_message list \<Rightarrow> reopt_task list \<times> bool" where
  "subscriber [] = ([], True)"
| "subscriber (m # ms) =
     (case on_message m of
        Raised \<Rightarrow> ([], False)
      | Queued t \<Rightarrow> (let (ts, alive) = subscriber ms in (t # ts, alive))
      | _ \<Rightarrow> subscriber ms)"

section \<open>The task\<close>

datatype reopt_result = SkippedStale int | ReoptOk json | TaskFailed

text \<open>
  \<open>now\<close> and the instants of messages are microseconds; a time without a zone is read as UTC. The first line of the log formats
  the delta as a number, and \<open>fromisoformat\<close> takes texts only: anything else fails the task.
\<close>

definition is_number :: "json \<Rightarrow> bool" where
  "is_number v = (case v of JNum _ \<Rightarrow> True | JBool _ \<Rightarrow> True | JNaN \<Rightarrow> True | JInfinity _ \<Rightarrow> True | _ \<Rightarrow> False)"

definition reopt_cycle :: "(string \<Rightarrow> pytime option) \<Rightarrow> int \<Rightarrow> reopt_task \<Rightarrow> reopt_result" where
  "reopt_cycle fromiso now task =
     (if \<not> is_number (rt_delta task) then TaskFailed
      else case rt_timestamp task of
             JStr timestamp \<Rightarrow>
               (case fromiso timestamp of
                  None \<Rightarrow> ReoptOk (rt_asset task)
                | Some t \<Rightarrow>
                    let age = now - (case t of Aware u \<Rightarrow> u | Naive u \<Rightarrow> u)
                    in if 3600000000 < age then SkippedStale age else ReoptOk (rt_asset task))
           | _ \<Rightarrow> TaskFailed)"

section \<open>The Celery application\<close>

record celery =
  ca_name :: string
  ca_broker :: string
  ca_backend :: string
  ca_include :: "string list"
  ca_task_serializer :: string
  ca_result_serializer :: string
  ca_accept_content :: "string list"
  ca_timezone :: string
  ca_task_track_started :: bool
  ca_task_routes :: "(string \<times> string) list"

text \<open>No routes are configured.\<close>

definition celery_app :: "string \<Rightarrow> string \<Rightarrow> celery" where
  "celery_app celery_broker_url celery_result_backend =
     \<lparr>ca_name = ''renewables_dispatch'', ca_broker = celery_broker_url, ca_backend = celery_result_backend,
      ca_include = [''app.forecast.tasks'', ''app.reopt.worker''], ca_task_serializer = ''json'', ca_result_serializer = ''json'',
      ca_accept_content = [''json''], ca_timezone = ''UTC'', ca_task_track_started = True, ca_task_routes = []\<rparr>"

text \<open>The settings with their defaults; an environment variable of the same name comes first.\<close>

definition celery_settings :: "(string \<rightharpoonup> string) \<Rightarrow> string \<times> string" where
  "celery_settings env =
     (case env ''CELERY_BROKER_URL'' of Some u \<Rightarrow> u | None \<Rightarrow> ''redis://localhost:6379/1'',
      case env ''CELERY_RESULT_BACKEND'' of Some u \<Rightarrow> u | None \<Rightarrow> ''redis://localhost:6379/2'')"

definition forecast_task :: string where "forecast_task = ''forecast.run_forecast''"
definition reforecast_task :: string where "reforecast_task = ''reopt.intraday_reforecast''"

text \<open>The tasks of the modules a worker imports.\<close>

definition shared_tasks :: "string \<Rightarrow> string list" where
  "shared_tasks m =
     (if m = ''app.forecast.tasks'' then [forecast_task]
      else if m = ''app.reopt.worker'' then [reforecast_task] else [])"

definition registered :: "celery \<Rightarrow> string list" where
  "registered app = concat (map shared_tasks (ca_include app))"

text \<open>The option \<open>-Q\<close> of the worker in \<open>docker-compose.yml\<close>.\<close>

definition compose_queues :: "string list" where
  "compose_queues = [''forecast'', ''reopt'']"

section \<open>Publisher, subscriber, broker and worker\<close>

text \<open>
  The messages that wait for the subscriber, whether it listens, the queues of the broker, and the results of the worker.
  A message on a channel without a subscriber is lost; a broker that cannot be reached ends the subscriber.
\<close>

record reopt_system =
  rs_inbox :: "pub_message list"
  rs_listening :: bool
  rs_queues :: "string \<Rightarrow> reopt_task list"
  rs_results :: "(reopt_task \<times> reopt_result) list"

definition reopt_init :: reopt_system where
  "reopt_init = \<lparr>rs_inbox = [], rs_listening = True, rs_queues = (\<lambda>_. []), rs_results = []\<rparr>"

definition publish :: "pub_message \<Rightarrow> reopt_system \<Rightarrow> reopt_system" where
  "publish m s = (if rs_listening s then s\<lparr>rs_inbox := rs_inbox s @ [m]\<rparr> else s)"

definition enqueue :: "string \<Rightarrow> reopt_task \<Rightarrow> reopt_system \<Rightarrow> reopt_system" where
  "enqueue q t s = s\<lparr>rs_queues := (rs_queues s)(q := rs_queues s q @ [t])\<rparr>"

definition deliver :: "(celery \<Rightarrow> string \<Rightarrow> string) \<Rightarrow> celery \<Rightarrow> bool \<Rightarrow> reopt_system \<Rightarrow> reopt_system" where
  "deliver route app reached s =
     (case rs_inbox s of
        [] \<Rightarrow> s
      | m # ms \<Rightarrow>
          (case on_message m of
             Raised \<Rightarrow> s\<lparr>rs_inbox := ms, rs_listening := False\<rparr>
           | Queued t \<Rightarrow>
               if reached then enqueue (route app reforecast_task) t (s\<lparr>rs_inbox := ms\<rparr>)
               else s\<lparr>rs_inbox := ms, rs_listening := False\<rparr>
           | _ \<Rightarrow> s\<lparr>rs_inbox := ms\<rparr>))"

text \<open>A worker takes a task from one of its queues; it drops one whose name it does not know.\<close>

definition work :: "celery \<Rightarrow> (string \<Rightarrow> pytime option) \<Rightarrow> int \<Rightarrow> string \<Rightarrow> reopt_system \<Rightarrow> reopt_system" where
  "work app fromiso now q s =
     (case rs_queues s q of
        [] \<Rightarrow> s
      | t # ts \<Rightarrow>
          s\<lparr>rs_queues := (rs_queues s)(q := ts),
            rs_results := rs_results s @ (if reforecast_task \<in> set (registered app) then [(t, reopt_cycle fromiso now t)] else [])\<rparr>)"

inductive reopt_step ::
  "(celery \<Rightarrow> string \<Rightarrow> string) \<Rightarrow> celery \<Rightarrow> (string \<Rightarrow> pytime option) \<Rightarrow> string list \<Rightarrow> reopt_system \<Rightarrow> reopt_system \<Rightarrow> bool"
  for route app fromiso qs where
  published: "reopt_step route app fromiso qs s (publish m s)"
| delivered: "rs_listening s \<Longrightarrow> reopt_step route app fromiso qs s (deliver route app reached s)"
| worked: "q \<in> set qs \<Longrightarrow> reopt_step route app fromiso qs s (work app fromiso now q s)"

inductive_cases reopt_stepE: "reopt_step route app fromiso qs s s'"

abbreviation reopt_reachable ::
  "(celery \<Rightarrow> string \<Rightarrow> string) \<Rightarrow> celery \<Rightarrow> (string \<Rightarrow> pytime option) \<Rightarrow> string list \<Rightarrow> reopt_system \<Rightarrow> bool" where
  "reopt_reachable route app fromiso qs s \<equiv> (reopt_step route app fromiso qs)\<^sup>*\<^sup>* reopt_init s"

text \<open>Celery's documentation: a task without a route goes to the default queue, \<open>celery\<close>.\<close>

definition default_queue :: "(celery \<Rightarrow> string \<Rightarrow> string) \<Rightarrow> bool" where
  "default_queue route \<longleftrightarrow> (\<forall>app task. ca_task_routes app = [] \<longrightarrow> route app task = ''celery'')"

section \<open>Properties\<close>

definition poison :: "pub_message \<Rightarrow> bool" where
  "poison m \<longleftrightarrow> on_message m = Raised"

definition task_of :: "pub_message \<Rightarrow> reopt_task option" where
  "task_of m = (case on_message m of Queued t \<Rightarrow> Some t | _ \<Rightarrow> None)"

definition is_object :: "json \<Rightarrow> bool" where
  "is_object v \<longleftrightarrow> (case v of JObj _ \<Rightarrow> True | _ \<Rightarrow> False)"

lemma poison_iff: "poison m \<longleftrightarrow> pm_type m = ''message'' \<and> (\<exists>v. loads (pm_data m) = Some v \<and> \<not> is_object v)"
  by (auto simp: poison_def on_message_def is_object_def split: option.split json.split)

lemma subscriber_eq:
  "subscriber ms = (List.map_filter task_of (takeWhile (\<lambda>m. \<not> poison m) ms), list_all (\<lambda>m. \<not> poison m) ms)"
  by (induction ms) (auto simp: poison_def task_of_def List.map_filter_def split: outcome.split)

text \<open>What was published is received.\<close>

definition published_task :: "string \<times> int \<times> real \<Rightarrow> reopt_task" where
  "published_task = (\<lambda>(stamp, a, d). \<lparr>rt_asset = JNum (of_int a), rt_delta = JNum d, rt_timestamp = JStr stamp\<rparr>)"

lemma on_publish:
  assumes "value_text (JNum d) (repr_float d)"
  shows "on_message (publish_deviation repr_float stamp a d) = Queued (published_task (stamp, a, d))"
proof -
  have "loads (pm_data (publish_deviation repr_float stamp a d)) =
      Some (JObj [(''asset_id'', JNum (of_int a)), (''delta_mw'', JNum d), (''timestamp'', JStr stamp)])"
    unfolding publish_deviation_def pub_message.simps
    by (rule loads_dump_object) (simp add: assms value_text_int value_text_string)
  then show ?thesis
    by (simp add: on_message_def field_of_def published_task_def) (simp add: publish_deviation_def)
qed

text \<open>
  The subscriber queues, in order, the task of every well-formed message up to the first one whose data
  is JSON but not an object, and stops listening exactly when there is such a message: malformed text and missing fields are
  survived, a bare number or list is not, and nothing published after it is seen. Published deviations, written as JSON and
  read again, are all queued with the values they were published with.
\<close>

theorem subscriber_spec:
  assumes "\<forall>(stamp, a, d)\<in>set ds. value_text (JNum d) (repr_float d)"
  shows "subscriber ms = (List.map_filter task_of (takeWhile (\<lambda>m. \<not> poison m) ms), list_all (\<lambda>m. \<not> poison m) ms) \<and>
    (poison m \<longleftrightarrow> pm_type m = ''message'' \<and> (\<exists>v. loads (pm_data m) = Some v \<and> \<not> is_object v)) \<and>
    subscriber (map (\<lambda>(stamp, a, d). publish_deviation repr_float stamp a d) ds) = (map published_task ds, True) \<and>
    (poison m \<longrightarrow> fst (subscriber (ms @ m # ns)) = fst (subscriber ms))"
proof (intro conjI impI)
  show "subscriber (map (\<lambda>(stamp, a, d). publish_deviation repr_float stamp a d) ds) = (map published_task ds, True)"
    using assms by (induction ds) (auto simp: on_publish)
  assume "poison m"
  then show "fst (subscriber (ms @ m # ns)) = fst (subscriber ms)"
    by (induction ms) (auto simp: poison_def split: outcome.split prod.split)
qed (rule subscriber_eq, rule poison_iff)

text \<open>
  The stale guard: a task with a number and a text is skipped exactly when its timestamp can be read and lies more than an hour
  back; one whose timestamp cannot be read is processed.
\<close>

lemma reopt_cycle_spec:
  "is_number (rt_delta t) \<Longrightarrow> rt_timestamp t = JStr ts \<Longrightarrow> reopt_cycle fromiso now t = ReoptOk (rt_asset t) \<longleftrightarrow>
     (\<forall>u. fromiso ts = Some (Aware u) \<or> fromiso ts = Some (Naive u) \<longrightarrow> now - u \<le> 3600000000)"
  by (auto simp: reopt_cycle_def Let_def split: option.split pytime.split)

lemma route_default: "default_queue route \<Longrightarrow> route (celery_app broker backend) task = ''celery''"
  by (simp add: default_queue_def celery_app_def)

lemma compose_step:
  assumes "default_queue route" and "reopt_step route (celery_app broker backend) fromiso compose_queues s s'"
    and "rs_results s = [] \<and> (\<forall>q. q \<noteq> ''celery'' \<longrightarrow> rs_queues s q = [])"
  shows "rs_results s' = [] \<and> (\<forall>q. q \<noteq> ''celery'' \<longrightarrow> rs_queues s' q = [])"
  using assms(2)
proof (cases rule: reopt_step.cases)
  case (published m)
  with assms(3) show ?thesis by (simp add: publish_def)
next
  case (delivered reached)
  with assms(3) show ?thesis
    by (simp add: deliver_def enqueue_def route_default [OF assms(1)] split: list.split outcome.split)
next
  case (worked q now)
  then have "rs_queues s q = []" using assms(3) by (auto simp: compose_queues_def)
  with worked assms(3) show ?thesis by (simp add: work_def)
qed

lemma compose_reachable:
  assumes "default_queue route" and "reopt_reachable route (celery_app broker backend) fromiso compose_queues s"
  shows "rs_results s = [] \<and> (\<forall>q. q \<noteq> ''celery'' \<longrightarrow> rs_queues s q = [])"
  using assms(2)
proof (induction rule: rtranclp_induct)
  case (step s s')
  show ?case by (rule compose_step [OF assms(1) step.hyps(2) step.IH])
qed (simp add: reopt_init_def)

lemma two_steps: "R\<^sup>*\<^sup>* a b \<Longrightarrow> R b c \<Longrightarrow> R c d \<Longrightarrow> R\<^sup>*\<^sup>* a d"
  by (blast intro: rtranclp.rtrancl_into_rtrancl)

text \<open>Any deviations can arrive in the queue.\<close>

lemma deviations_arrive:
  assumes "default_queue route" and "\<forall>(stamp, a, d)\<in>set ds. value_text (JNum d) (repr_float d)"
  shows "(reopt_step route (celery_app broker backend) fromiso qs)\<^sup>*\<^sup>* reopt_init
    (reopt_init\<lparr>rs_queues := (\<lambda>_. [])(''celery'' := map published_task ds)\<rparr>)"
  using assms(2)
proof (induction ds rule: rev_induct)
  case Nil
  have "((\<lambda>_. []) :: string \<Rightarrow> reopt_task list)(''celery'' := []) = (\<lambda>_. [])" by auto
  then show ?case by (simp add: reopt_init_def del: fun_upd_apply)
next
  case (snoc dev ds)
  let ?s = "reopt_init\<lparr>rs_queues := (\<lambda>_. [])(''celery'' := map published_task ds)\<rparr>"
  obtain stamp a d where dev: "dev = (stamp, a, d)" by (cases dev)
  let ?m = "publish_deviation repr_float stamp a d"
  have m: "on_message ?m = Queued (published_task dev)" using snoc.prems dev on_publish by auto
  have step1: "reopt_step route (celery_app broker backend) fromiso qs ?s (publish ?m ?s)" by (rule published)
  have step2: "reopt_step route (celery_app broker backend) fromiso qs (publish ?m ?s)
      (deliver route (celery_app broker backend) True (publish ?m ?s))"
    by (rule delivered) (simp add: publish_def reopt_init_def)
  have eq: "deliver route (celery_app broker backend) True (publish ?m ?s) =
      reopt_init\<lparr>rs_queues := (\<lambda>_. [])(''celery'' := map published_task (ds @ [dev]))\<rparr>"
    by (simp add: deliver_def publish_def enqueue_def reopt_init_def m route_default [OF assms(1)])
  have reach: "reopt_reachable route (celery_app broker backend) fromiso qs ?s" using snoc by (simp del: fun_upd_apply)
  from step2 have step3: "reopt_step route (celery_app broker backend) fromiso qs (publish ?m ?s)
      (reopt_init\<lparr>rs_queues := (\<lambda>_. [])(''celery'' := map published_task (ds @ [dev]))\<rparr>)" by (simp only: eq)
  show ?case using reach step1 step3 by (rule two_steps)
qed

lemma reforecast_registered: "reforecast_task \<in> set (registered (celery_app broker backend))"
  by (simp add: registered_def celery_app_def shared_tasks_def)

lemma default_worker:
  assumes "rs_queues s ''celery'' = t # ts" and "''celery'' \<in> set qs"
  shows "\<exists>s'. reopt_step route (celery_app broker backend) fromiso qs s s' \<and> rs_results s' = rs_results s @ [(t, reopt_cycle fromiso now t)]"
  using worked [OF assms(2), of route "celery_app broker backend" fromiso s now] assms(1)
  by (intro exI conjI) (assumption, simp add: work_def reforecast_registered)


definition half :: "real \<Rightarrow> string" where
  "half _ = ''0.5''"

lemma half_text: "value_text (JNum (1 / 2)) (half x)"
  by (auto simp: value_text_def half_def is_ws_def scan_literal_def literals_def scan_number_def read_int_def read_frac_def read_exp_def
      is_dec_def dec_value_def)


theorem subscriber_spec_witness:
  "subscriber [publish_deviation half ''t'' 7 (1 / 2)] = ([published_task (''t'', 7, 1 / 2)], True)"
  using subscriber_spec [of "[(''t'', 7, 1 / 2)]" half, THEN conjunct2, THEN conjunct2, THEN conjunct1]
  by (simp add: half_text del: subscriber.simps)

end
