(* ===== verification/Db_Session.thy ===== *)
theory Db_Session
  imports Prelude
begin

text \<open>
  SQLAlchemy's sessions as the services use them: objects are added, sent to the database, committed or rolled back; a
  dependency opens a session for a request and closes it. The library is a parameter, a factory of sessions with their
  operations; its documented behaviour is the locale \<open>orm_session\<close>, stated over a session as the documentation describes
  it. A database whose tables were never created is \<open>None\<close>: every statement on it fails.
\<close>

section \<open>A session as documented\<close>

text \<open>
  What is committed, what the open transaction sees, and the objects that were added and not yet sent. An added object is the
  insertion of its row, which the database may refuse, and which gives the row its key.
\<close>

type_synonym ('d, 'k) insertion = "'d \<Rightarrow> ('d \<times> 'k) option"

record ('d, 'k) session =
  committed :: "'d option"
  working :: "'d option"
  added :: "('d, 'k) insertion list"
  autoflush :: bool

text \<open>A program changes the session and gives a value, or raises (\<open>None\<close>).\<close>

type_synonym ('s, 'a) prog = "'s \<Rightarrow> 's \<times> 'a option"

definition bind :: "('s, 'a) prog \<Rightarrow> ('a \<Rightarrow> ('s, 'b) prog) \<Rightarrow> ('s, 'b) prog" where
  "bind p f s = (case p s of (s', None) \<Rightarrow> (s', None) | (s', Some a) \<Rightarrow> f a s')"

definition open_session :: "bool \<Rightarrow> 'd option \<Rightarrow> ('d, 'k) session" where
  "open_session flushes tables = \<lparr>committed = tables, working = tables, added = [], autoflush = flushes\<rparr>"

definition rollback :: "('d, 'k) session \<Rightarrow> ('d, 'k) session" where
  "rollback s = s\<lparr>working := committed s, added := []\<rparr>"

fun insert_rows :: "('d, 'k) insertion list \<Rightarrow> 'd \<Rightarrow> ('d \<times> 'k list) option" where
  "insert_rows [] d = Some (d, [])"
| "insert_rows (row # rows) d =
     (case row d of
        None \<Rightarrow> None
      | Some (d', k) \<Rightarrow> map_option (apsnd (Cons k)) (insert_rows rows d'))"

text \<open>Sending the added objects; a failure rolls the transaction back.\<close>

definition flush :: "(('d, 'k) session, 'k list) prog" where
  "flush s =
     (if added s = [] then (s, Some [])
      else case Option.bind (working s) (insert_rows (added s)) of
             None \<Rightarrow> (rollback s, None)
           | Some (d, ks) \<Rightarrow> (s\<lparr>working := Some d, added := []\<rparr>, Some ks))"

definition commit :: "(('d, 'k) session, 'k list) prog" where
  "commit = bind flush (\<lambda>ks s. (s\<lparr>committed := working s\<rparr>, Some ks))"

text \<open>The tables a query sees, preceded by a flush when the session does so on its own; without tables a statement fails.\<close>

definition autoflushed :: "(('d, 'k) session, 'k list) prog" where
  "autoflushed s = (if autoflush s then flush s else (s, Some []))"

definition read :: "(('d, 'k) session, 'd) prog" where
  "read = bind autoflushed (\<lambda>_ s. case working s of None \<Rightarrow> (rollback s, None) | Some d \<Rightarrow> (s, Some d))"

definition update_all :: "('d \<Rightarrow> 'd) \<Rightarrow> (('d, 'k) session, unit) prog" where
  "update_all f = bind read (\<lambda>d s. (s\<lparr>working := Some (f d)\<rparr>, Some ()))"

section \<open>The library\<close>

text \<open>A session of the library: how it is opened on a database, its operations, and the tables it leaves in the database.\<close>

record ('s, 'd, 'k) orm =
  orm_open :: "'d option \<Rightarrow> 's"
  orm_add :: "('d, 'k) insertion list \<Rightarrow> 's \<Rightarrow> 's"
  orm_flush :: "('s, 'k list) prog"
  orm_commit :: "('s, 'k list) prog"
  orm_read :: "('s, 'd) prog"
  orm_update :: "('d \<Rightarrow> 'd) \<Rightarrow> ('s, unit) prog"
  orm_close :: "'s \<Rightarrow> 's"
  orm_tables :: "'s \<Rightarrow> 'd option"

text \<open>
  The laws: each operation does to what a session is documented to be (\<open>view\<close>) what the documentation says. The factory takes
  whether its sessions flush on their own; a closed session can be used again.
\<close>

definition simulates :: "('s \<Rightarrow> 't) \<Rightarrow> ('s, 'a) prog \<Rightarrow> ('t, 'a) prog \<Rightarrow> bool" where
  "simulates view p p' \<longleftrightarrow> (\<forall>s. map_prod view id (p s) = p' (view s))"

locale orm_session =
  fixes sessionmaker :: "bool \<Rightarrow> ('s, 'd, 'k) orm" and view :: "'s \<Rightarrow> ('d, 'k) session"
  assumes opens: "view (orm_open (sessionmaker flushes) tables) = open_session flushes tables"
    and adds: "view (orm_add (sessionmaker flushes) rows s) = (view s)\<lparr>added := added (view s) @ rows\<rparr>"
    and flushed: "simulates view (orm_flush (sessionmaker flushes)) flush"
    and commits: "simulates view (orm_commit (sessionmaker flushes)) commit"
    and reads: "simulates view (orm_read (sessionmaker flushes)) read"
    and updates: "simulates view (orm_update (sessionmaker flushes) f) (update_all f)"
    and closes: "view (orm_close (sessionmaker flushes) s) = rollback (view s)"
    and leaves: "orm_tables (sessionmaker flushes) s = committed (view s)"

definition documented :: "bool \<Rightarrow> (('d, 'k) session, 'd, 'k) orm" where
  "documented flushes =
     \<lparr>orm_open = open_session flushes, orm_add = (\<lambda>rows s. s\<lparr>added := added s @ rows\<rparr>), orm_flush = flush, orm_commit = commit,
      orm_read = read, orm_update = update_all, orm_close = rollback, orm_tables = committed\<rparr>"

definition session_laws :: "(bool \<Rightarrow> ('s, 'd, 'k) orm) \<Rightarrow> bool" where
  "session_laws sessionmaker \<longleftrightarrow> (\<exists>view. orm_session sessionmaker view)"

interpretation documented: orm_session documented "\<lambda>s. s"
  by unfold_locales (simp_all add: documented_def simulates_def map_prod_def id_def)

lemma session_laws_documented: "session_laws documented"
  unfolding session_laws_def using documented.orm_session_axioms by blast

section \<open>Programs\<close>

definition add :: "('s, 'd, 'k) orm \<Rightarrow> ('d, 'k) insertion list \<Rightarrow> ('s, unit) prog" where
  "add orm rows s = (orm_add orm rows s, Some ())"

definition query :: "('s, 'd, 'k) orm \<Rightarrow> ('d \<Rightarrow> 'a option) \<Rightarrow> ('s, 'a) prog" where
  "query orm q = bind (orm_read orm) (\<lambda>d s. (s, q d))"

definition close :: "('s, 'd, 'k) orm \<Rightarrow> ('s, unit) prog" where
  "close orm s = (orm_close orm s, Some ())"

text \<open>Add, commit, read back by key.\<close>

definition insert_and_refresh :: "('s, 'd, 'k) orm \<Rightarrow> ('d, 'k) insertion \<Rightarrow> ('k \<Rightarrow> 'd \<Rightarrow> 'a option) \<Rightarrow> ('s, 'a) prog" where
  "insert_and_refresh orm row by_key = bind (add orm [row]) (\<lambda>_. bind (orm_commit orm) (\<lambda>ks. query orm (by_key (last ks))))"

text \<open>The dependency: a session for the request, closed at its end, also after an exception.\<close>

definition with_session :: "('s, 'd, 'k) orm \<Rightarrow> ('s, 'a) prog \<Rightarrow> 'd option \<Rightarrow> 'd option \<times> 'a option" where
  "with_session orm p tables = (case p (orm_open orm tables) of (s, r) \<Rightarrow> (orm_tables orm (orm_close orm s), r))"

section \<open>From the library to the documentation\<close>

named_theorems simulation "programs over a session of the library simulate those over a documented session"

lemma simulates_bind [simulation]:
  assumes "simulates view p p'" and "\<And>a. simulates view (f a) (f' a)"
  shows "simulates view (bind p f) (bind p' f')"
  unfolding simulates_def
proof
  fix s
  obtain s1 r where p: "p s = (s1, r)" by fastforce
  then have "p' (view s) = (view s1, r)" using assms(1) by (metis simulates_def map_prod_simp id_apply)
  then show "map_prod view id (bind p f s) = bind p' f' (view s)"
    using p assms(2) by (cases r) (auto simp: bind_def simulates_def)
qed

lemma simulates_return [simulation]: "simulates view (\<lambda>s. (s, x)) (\<lambda>s. (s, x))"
  by (simp add: simulates_def)

context orm_session
begin

lemma simulates_operations [simulation]:
  "simulates view (orm_flush (sessionmaker flushes)) (orm_flush (documented flushes'))"
  "simulates view (orm_commit (sessionmaker flushes)) (orm_commit (documented flushes'))"
  "simulates view (orm_read (sessionmaker flushes)) (orm_read (documented flushes'))"
  "simulates view (orm_update (sessionmaker flushes) f) (orm_update (documented flushes') f)"
  "simulates view (add (sessionmaker flushes) rows) (add (documented flushes') rows)"
  "simulates view (close (sessionmaker flushes)) (close (documented flushes'))"
  using flushed commits reads updates adds closes by (simp_all add: documented_def simulates_def add_def close_def)

lemma simulates_query [simulation]: "simulates view (query (sessionmaker flushes) q) (query (documented flushes') q)"
  unfolding query_def by (intro simulation)

lemma simulates_insert [simulation]:
  "simulates view (insert_and_refresh (sessionmaker flushes) row by_key) (insert_and_refresh (documented flushes') row by_key)"
  unfolding insert_and_refresh_def by (intro simulation)

text \<open>A request gives what it gives over the documented session.\<close>

lemma with_session_eq:
  assumes "simulates view p p'"
  shows "with_session (sessionmaker flushes) p tables = with_session (documented flushes) p' tables"
proof -
  obtain s r where p: "p (orm_open (sessionmaker flushes) tables) = (s, r)" by fastforce
  then have "p' (open_session flushes tables) = (view s, r)" using assms opens by (metis simulates_def map_prod_simp id_apply)
  then show ?thesis using p by (simp add: with_session_def documented_def leaves closes)
qed

end

section \<open>A session of one insertion\<close>

lemmas session_simps = with_session_def documented_def open_session_def close_def rollback_def bind_def add_def flush_def commit_def
  query_def read_def autoflushed_def update_all_def insert_and_refresh_def

lemma insert_and_refresh_session:
  "with_session (documented flushes) (insert_and_refresh (documented flushes) row by_key) tables =
     (case tables of
        None \<Rightarrow> (None, None)
      | Some d \<Rightarrow> (case row d of None \<Rightarrow> (Some d, None) | Some (d', k) \<Rightarrow> (Some d', by_key k d')))"
  by (auto simp: session_simps split: option.split)

lemma add_commit:
  "added s = [] \<Longrightarrow> working s = Some d \<Longrightarrow> bind (add (documented flushes) rows) (\<lambda>_. orm_commit (documented flushes)) s =
     (case insert_rows rows d of
        None \<Rightarrow> (rollback s, None)
      | Some (d', ks) \<Rightarrow> (s\<lparr>committed := Some d', working := Some d', added := []\<rparr>, Some ks))"
  by (cases rows) (auto simp: bind_def add_def documented_def commit_def flush_def rollback_def split: option.split)

lemma query_session:
  "with_session (documented flushes) (query (documented flushes) q) tables = (tables, Option.bind tables q)"
  by (auto simp: session_simps split: option.split)

end
