(* ===== verification/Service_Sessions.thy ===== *)
theory Service_Sessions
  imports Db_Session Fleet_Auth Aws_Events Slm_System Portfolio_Fahrplan Grid_Service
begin

text \<open>
  The database code of the grid, fleet, event, analytics and portfolio services as programs over a session: the session factories and the
  dependencies that hand a session to a request (\<open>db/base.py\<close>, \<open>db/session.py\<close>, \<open>database.py\<close>),
  the endpoints and the repositories. The other theories take a request to be one transaction; here this is shown, for every
  library that keeps the laws of \<open>orm_session\<close>.
\<close>

section \<open>The factories\<close>

text \<open>The fleet service switches the automatic flush off.\<close>

definition fleet_get_db ::
  "(bool \<Rightarrow> ('s, 'd, 'k) orm) \<Rightarrow> (('s, 'd, 'k) orm \<Rightarrow> ('s, 'a) prog) \<Rightarrow> 'd option \<Rightarrow> 'd option \<times> 'a option" where
  "fleet_get_db sessionmaker p = with_session (sessionmaker False) (p (sessionmaker False))"

definition aws_get_session ::
  "(bool \<Rightarrow> ('s, 'd, 'k) orm) \<Rightarrow> (('s, 'd, 'k) orm \<Rightarrow> ('s, 'a) prog) \<Rightarrow> 'd option \<Rightarrow> 'd option \<times> 'a option" where
  "aws_get_session sessionmaker p = with_session (sessionmaker True) (p (sessionmaker True))"

definition slm_get_db ::
  "(bool \<Rightarrow> ('s, 'd, 'k) orm) \<Rightarrow> (('s, 'd, 'k) orm \<Rightarrow> ('s, 'a) prog) \<Rightarrow> 'd option \<Rightarrow> 'd option \<times> 'a option" where
  "slm_get_db sessionmaker p = with_session (sessionmaker True) (p (sessionmaker True))"

definition portfolio_get_db ::
  "(bool \<Rightarrow> ('s, 'd, 'k) orm) \<Rightarrow> (('s, 'd, 'k) orm \<Rightarrow> ('s, 'a) prog) \<Rightarrow> 'd option \<Rightarrow> 'd option \<times> 'a option" where
  "portfolio_get_db sessionmaker p = with_session (sessionmaker True) (p (sessionmaker True))"

definition grid_get_session ::
  "(bool \<Rightarrow> ('s, 'd, 'k) orm) \<Rightarrow> (('s, 'd, 'k) orm \<Rightarrow> ('s, 'a) prog) \<Rightarrow> 'd option \<Rightarrow> 'd option \<times> 'a option" where
  "grid_get_session sessionmaker p = with_session (sessionmaker True) (p (sessionmaker True))"

section \<open>Grid readings\<close>

text \<open>A node has its name for key, a reading its number.\<close>

definition node_row :: "string \<Rightarrow> meter \<Rightarrow> (grid_db, string + nat) insertion" where
  "node_row nid m db = (case insert_node db nid m of Inl _ \<Rightarrow> None | Inr db' \<Rightarrow> Some (db', Inl nid))"

definition load_row :: "int \<Rightarrow> load_reading \<Rightarrow> (grid_db, string + nat) insertion" where
  "load_row now r db = (case Grid_Service.insert_reading now db r of Inl _ \<Rightarrow> None | Inr (db', row) \<Rightarrow> Some (db', Inr (lr_id row)))"

definition load_by_id :: "string + nat \<Rightarrow> grid_db \<Rightarrow> reading_row option" where
  "load_by_id k db = find (\<lambda>row. Inr (lr_id row) = k) (g_rows db)"

text \<open>Both objects are flushed as they are made; the endpoint commits them together.\<close>

definition ensure_node_session :: "('s, grid_db, string + nat) orm \<Rightarrow> string \<Rightarrow> meter \<Rightarrow> ('s, (string + nat) list) prog" where
  "ensure_node_session orm nid m =
     bind (query orm (\<lambda>db. Some (g_nodes db nid)))
       (\<lambda>node. if node = None then bind (add orm [node_row nid m]) (\<lambda>_. orm_flush orm) else (\<lambda>s. (s, Some [])))"

definition ingest_session :: "int \<Rightarrow> load_reading \<Rightarrow> ('s, grid_db, string + nat) orm \<Rightarrow> ('s, reading_row) prog" where
  "ingest_session now r orm =
     bind (ensure_node_session orm (r_node r) (meter_or_default (r_meter r)))
       (\<lambda>_. bind (add orm [load_row now r]) (\<lambda>_. bind (orm_flush orm) (\<lambda>ks. query orm (load_by_id (last ks)))))"

definition ingest_commit :: "int \<Rightarrow> load_reading \<Rightarrow> ('s, grid_db, string + nat) orm \<Rightarrow> ('s, reading_row) prog" where
  "ingest_commit now r orm = bind (ingest_session now r orm) (\<lambda>row. bind (orm_commit orm) (\<lambda>_ s. (s, Some row)))"

definition ingest_reading_session ::
  "(bool \<Rightarrow> ('s, grid_db, string + nat) orm) \<Rightarrow> int \<Rightarrow> raw_reading \<Rightarrow> grid_db option
   \<Rightarrow> grid_db option \<times> (schema_error list, reading_row) response" where
  "ingest_reading_session sessionmaker now raw tables =
     (case validate_reading now raw of
        Inl es \<Rightarrow> (tables, Inl (HTTPException 422 es))
      | Inr r \<Rightarrow>
          (case grid_get_session sessionmaker (ingest_commit now r) tables of
             (tables', None) \<Rightarrow> (tables', Inl (HTTPException 500 []))
           | (tables', Some row) \<Rightarrow> (tables', Inr row)))"

section \<open>Deliveries\<close>

definition delivery_row :: "int \<Rightarrow> delivery_create \<Rightarrow> (fleet_db, nat) insertion" where
  "delivery_row now body db =
     (if Fleet_Auth.row_refused body db then None
      else Some (db\<lparr>deliveries := deliveries db @ [\<lparr>d_id = next_id db, d_description = dc_description body,
               d_vehicle = dc_vehicle_id body, d_status = ''pending'', d_created_at = now\<rparr>], next_id := next_id db + 1\<rparr>, next_id db))"

definition delivery_by_id :: "nat \<Rightarrow> fleet_db \<Rightarrow> delivery option" where
  "delivery_by_id k db = find (\<lambda>d. d_id d = k) (deliveries db)"

definition create_delivery_session ::
  "(bool \<Rightarrow> ('s, fleet_db, nat) orm) \<Rightarrow> (int \<Rightarrow> 't \<Rightarrow> jwt_error + payload) \<Rightarrow> int \<Rightarrow> 't option \<Rightarrow> delivery_create \<Rightarrow> fleet_db option
   \<Rightarrow> fleet_db option \<times> (auth_error, delivery_read) response" where
  "create_delivery_session sessionmaker dec now cred body tables =
     (case require_dispatcher dec now cred of
        Inl e \<Rightarrow> (tables, Inl e)
      | Inr _ \<Rightarrow>
          (case fleet_get_db sessionmaker (\<lambda>orm. insert_and_refresh orm (delivery_row now body) delivery_by_id) tables of
             (tables', None) \<Rightarrow> (tables', Inl (HTTPException 500 Unexpected))
           | (tables', Some d) \<Rightarrow> (tables', Inr (delivery_read_of d))))"

definition get_delivery_session ::
  "(bool \<Rightarrow> ('s, fleet_db, nat) orm) \<Rightarrow> (int \<Rightarrow> 't \<Rightarrow> jwt_error + payload) \<Rightarrow> int \<Rightarrow> 't option \<Rightarrow> int \<Rightarrow> fleet_db option
   \<Rightarrow> fleet_db option \<times> (auth_error, delivery_read) response" where
  "get_delivery_session sessionmaker dec now cred delivery_id tables =
     (case require_dispatcher dec now cred of
        Inl e \<Rightarrow> (tables, Inl e)
      | Inr _ \<Rightarrow>
          (case fleet_get_db sessionmaker
                  (\<lambda>orm. query orm (\<lambda>db. Some (find (\<lambda>d. int (d_id d) = delivery_id) (deliveries db)))) tables of
             (tables', None) \<Rightarrow> (tables', Inl (HTTPException 500 Unexpected))
           | (tables', Some None) \<Rightarrow> (tables', Inl (HTTPException 404 DeliveryNotFound))
           | (tables', Some (Some d)) \<Rightarrow> (tables', Inr (delivery_read_of d))))"

section \<open>Sensor events\<close>

definition event_row :: "uuid \<Rightarrow> int \<Rightarrow> bool \<Rightarrow> event_create \<Rightarrow> (sensor_event list, uuid) insertion" where
  "event_row uuid now naive_ok p rs =
     (if is_naive (ec_timestamp p) \<and> \<not> naive_ok then None else Some (fst (insert_event uuid now p rs), uuid))"

definition insert_event_session ::
  "uuid \<Rightarrow> int \<Rightarrow> bool \<Rightarrow> event_create \<Rightarrow> ('s, sensor_event list, uuid) orm \<Rightarrow> ('s, sensor_event) prog" where
  "insert_event_session uuid now naive_ok p orm = insert_and_refresh orm (event_row uuid now naive_ok p) get_by_id"

definition set_s3_key_session :: "uuid \<Rightarrow> string \<Rightarrow> ('s, sensor_event list, uuid) orm \<Rightarrow> ('s, uuid list) prog" where
  "set_s3_key_session uuid key orm = bind (orm_update orm (set_s3_key uuid key)) (\<lambda>_. orm_commit orm)"

definition get_by_id_session :: "uuid \<Rightarrow> ('s, sensor_event list, uuid) orm \<Rightarrow> ('s, sensor_event option) prog" where
  "get_by_id_session uuid orm = query orm (\<lambda>rs. Some (get_by_id uuid rs))"

text \<open>
  The background task works on the session of its request, which has been closed in the meantime; \<open>key\<close> is what the
  archive answered.
\<close>

definition archive_and_update_session :: "uuid \<Rightarrow> string option \<Rightarrow> ('s, sensor_event list, uuid) orm \<Rightarrow> ('s, uuid list) prog" where
  "archive_and_update_session uuid key orm =
     (case key of None \<Rightarrow> (\<lambda>s. (s, Some [])) | Some k \<Rightarrow> if k = [] then (\<lambda>s. (s, Some [])) else set_s3_key_session uuid k orm)"

definition create_and_archive_session ::
  "uuid \<Rightarrow> int \<Rightarrow> bool \<Rightarrow> event_create \<Rightarrow> string option \<Rightarrow> ('s, sensor_event list, uuid) orm \<Rightarrow> ('s, uuid list) prog" where
  "create_and_archive_session uuid now naive_ok p key orm =
     bind (insert_event_session uuid now naive_ok p orm) (\<lambda>_. bind (close orm) (\<lambda>_. archive_and_update_session uuid key orm))"

section \<open>Measurements and alerts\<close>

definition measurement_row :: "bool \<Rightarrow> int \<Rightarrow> measurement_create \<Rightarrow> (measurement list, unit) insertion" where
  "measurement_row pg now m ms = (if Slm_Api.row_refused pg m then None else Some (ms @ [measurement_of now m], ()))"

definition insert_readings_session ::
  "bool \<Rightarrow> int \<Rightarrow> measurement_create list \<Rightarrow> ('s, measurement list, unit) orm \<Rightarrow> ('s, unit list) prog" where
  "insert_readings_session pg now payload orm = bind (add orm (map (measurement_row pg now) payload)) (\<lambda>_. orm_commit orm)"

definition query_window_session ::
  "(measurement list \<Rightarrow> measurement list) \<Rightarrow> string \<Rightarrow> string \<Rightarrow> int \<Rightarrow> int \<Rightarrow> ('s, measurement list, unit) orm
   \<Rightarrow> ('s, measurement list) prog" where
  "query_window_session asc device sensor start finish orm = query orm (\<lambda>ms. Some (query_window asc ms device sensor start finish))"

definition alert_row :: "alert \<Rightarrow> (alert list \<times> nat, nat) insertion" where
  "alert_row a t = (case t of (as, n) \<Rightarrow> Some ((insert_alert (a\<lparr>al_id := n\<rparr>) as, n + 1), n))"

definition insert_alert_session :: "alert \<Rightarrow> ('s, alert list \<times> nat, nat) orm \<Rightarrow> ('s, alert) prog" where
  "insert_alert_session a orm = insert_and_refresh orm (alert_row a) (\<lambda>k (as, n). find (\<lambda>b. al_id b = k) as)"

section \<open>Assets and schedules\<close>

definition asset_row :: "string \<Rightarrow> asset_type \<Rightarrow> real \<Rightarrow> real \<Rightarrow> (portfolio_db, nat) insertion" where
  "asset_row name t capacity ramp db =
     (if name \<in> as_name ` set (assets db) then None
      else let i = fresh (map as_id (assets db))
           in Some (db\<lparr>assets := assets db @ [\<lparr>as_id = i, as_name = name, as_type = t, as_capacity = capacity, as_ramp = ramp\<rparr>]\<rparr>, i))"

definition insert_asset_session ::
  "string \<Rightarrow> asset_type \<Rightarrow> real \<Rightarrow> real \<Rightarrow> ('s, portfolio_db, nat) orm \<Rightarrow> ('s, asset) prog" where
  "insert_asset_session name t capacity ramp orm =
     insert_and_refresh orm (asset_row name t capacity ramp) (\<lambda>k db. find (\<lambda>a. as_id a = k) (assets db))"

text \<open>The schedule is sent first; its intervals follow, and all are committed together.\<close>

definition schedule_header :: "fahrplan \<Rightarrow> (portfolio_db, unit) insertion" where
  "schedule_header f db =
     (if fp_id f \<in> sc_id ` set (schedules db) then None
      else Some (db\<lparr>schedules := schedules db @
               [\<lparr>sc_id = fp_id f, sc_portfolio = fp_portfolio f, sc_date = iso_date (fp_date f), sc_at = fp_at f\<rparr>]\<rparr>, ()))"

definition schedule_interval :: "uuid \<Rightarrow> interval \<Rightarrow> (portfolio_db, unit) insertion" where
  "schedule_interval sid iv db =
     Some (db\<lparr>plan_rows := plan_rows db @ [plan_row_of sid (fresh (map pl_id (plan_rows db))) iv]\<rparr>, ())"

definition create_fahrplan_session :: "fahrplan \<Rightarrow> ('s, portfolio_db, unit) orm \<Rightarrow> ('s, unit list) prog" where
  "create_fahrplan_session f orm =
     bind (add orm [schedule_header f]) (\<lambda>_. bind (orm_flush orm) (\<lambda>_.
       bind (add orm (map (schedule_interval (fp_id f)) (fp_intervals f))) (\<lambda>_. orm_commit orm)))"

section \<open>The endpoint that creates an event\<close>

text \<open>The task for the archive is started only after the insertion.\<close>

definition create_event_session ::
  "(bool \<Rightarrow> ('s, sensor_event list, uuid) orm) \<Rightarrow> uuid \<Rightarrow> int \<Rightarrow> bool \<Rightarrow> event_create \<Rightarrow> sensor_event list option
   \<Rightarrow> (uuid \<times> string \<times> event_create) list
   \<Rightarrow> sensor_event list option \<times> (uuid \<times> string \<times> event_create) list \<times> (aws_error, sensor_event) response" where
  "create_event_session sessionmaker uuid now naive_ok p tables tasks =
     (if \<not> event_valid p then (tables, tasks, Inl (HTTPException 422 InvalidEvent))
      else case aws_get_session sessionmaker (insert_event_session uuid now naive_ok p) tables of
             (tables', None) \<Rightarrow> (tables', tasks, Inl (HTTPException 500 DatabaseError))
           | (tables', Some e) \<Rightarrow> (tables', tasks @ [(uuid, ec_plant p, p)], Inr e))"

section \<open>The library and its documentation\<close>

lemmas session_programs = ensure_node_session_def ingest_session_def ingest_commit_def insert_event_session_def set_s3_key_session_def
  get_by_id_session_def archive_and_update_session_def create_and_archive_session_def insert_readings_session_def
  query_window_session_def insert_alert_session_def insert_asset_session_def create_fahrplan_session_def

lemmas get_session_defs = fleet_get_db_def aws_get_session_def slm_get_db_def portfolio_get_db_def grid_get_session_def

lemma simulates_if [simulation]:
  "simulates view p p' \<Longrightarrow> simulates view q q' \<Longrightarrow> simulates view (if b then p else q) (if b then p' else q')"
  by simp

lemma simulates_option [simulation]:
  "simulates view p p' \<Longrightarrow> (\<And>x. simulates view (q x) (q' x)) \<Longrightarrow>
     simulates view (case y of None \<Rightarrow> p | Some x \<Rightarrow> q x) (case y of None \<Rightarrow> p' | Some x \<Rightarrow> q' x)"
  by (cases y) simp_all

lemma simulated:
  assumes "session_laws sessionmaker"
    and "\<And>view. orm_session sessionmaker view \<Longrightarrow> simulates view (p (sessionmaker flushes)) (p' (documented flushes))"
  shows "with_session (sessionmaker flushes) (p (sessionmaker flushes)) tables =
    with_session (documented flushes) (p' (documented flushes)) tables"
  using assms orm_session.with_session_eq unfolding session_laws_def by blast

lemmas library_simulation = orm_session.simulates_operations orm_session.simulates_query orm_session.simulates_insert

text \<open>Every program gives over the library what it gives over the documented session.\<close>

lemma grid_documented:
  assumes "session_laws sessionmaker"
  shows "ingest_reading_session sessionmaker now raw tables = ingest_reading_session documented now raw tables"
proof -
  have "with_session (sessionmaker True) (ingest_commit now r (sessionmaker True)) tables =
      with_session (documented True) (ingest_commit now r (documented True)) tables" for r
    unfolding session_programs by (rule simulated [OF assms]) (intro simulation library_simulation, assumption?)+
  then show ?thesis by (simp add: ingest_reading_session_def get_session_defs split: sum.split)
qed

lemma fleet_documented:
  assumes "session_laws sessionmaker"
  shows "create_delivery_session sessionmaker dec now cred body tables = create_delivery_session documented dec now cred body tables"
    and "get_delivery_session sessionmaker dec now cred i tables = get_delivery_session documented dec now cred i tables"
proof -
  have "with_session (sessionmaker False) (insert_and_refresh (sessionmaker False) (delivery_row now body) delivery_by_id) tables =
      with_session (documented False) (insert_and_refresh (documented False) (delivery_row now body) delivery_by_id) tables"
    by (rule simulated [OF assms]) (intro library_simulation)
  then show "create_delivery_session sessionmaker dec now cred body tables = create_delivery_session documented dec now cred body tables"
    by (simp add: create_delivery_session_def get_session_defs split: sum.split)
  let ?q = "\<lambda>db. Some (find (\<lambda>d. int (d_id d) = i) (deliveries db))"
  have "with_session (sessionmaker False) (query (sessionmaker False) ?q) tables =
      with_session (documented False) (query (documented False :: ((fleet_db, nat) session, fleet_db, nat) orm) ?q) tables"
    by (rule simulated [OF assms]) (intro library_simulation)
  then show "get_delivery_session sessionmaker dec now cred i tables = get_delivery_session documented dec now cred i tables"
    by (simp add: get_delivery_session_def get_session_defs split: sum.split)
qed

lemma aws_documented:
  assumes "session_laws sessionmaker"
  shows "create_event_session sessionmaker uuid now naive_ok p tables tasks = create_event_session documented uuid now naive_ok p tables tasks"
    and "aws_get_session sessionmaker (create_and_archive_session uuid now naive_ok p key) tables =
      aws_get_session documented (create_and_archive_session uuid now naive_ok p key) tables"
    and "aws_get_session sessionmaker (get_by_id_session uuid) tables = aws_get_session documented (get_by_id_session uuid) tables"
proof -
  have "with_session (sessionmaker True) (insert_event_session uuid now naive_ok p (sessionmaker True)) tables =
      with_session (documented True) (insert_event_session uuid now naive_ok p (documented True)) tables"
    unfolding session_programs by (rule simulated [OF assms]) (intro library_simulation)
  then show "create_event_session sessionmaker uuid now naive_ok p tables tasks = create_event_session documented uuid now naive_ok p tables tasks"
    by (simp add: create_event_session_def get_session_defs)
  show "aws_get_session sessionmaker (create_and_archive_session uuid now naive_ok p key) tables =
      aws_get_session documented (create_and_archive_session uuid now naive_ok p key) tables"
    unfolding session_programs get_session_defs by (rule simulated [OF assms]) (intro simulation library_simulation, assumption?)+
  show "aws_get_session sessionmaker (get_by_id_session uuid) tables = aws_get_session documented (get_by_id_session uuid) tables"
    unfolding session_programs get_session_defs by (rule simulated [OF assms]) (intro library_simulation)
qed

lemma slm_documented:
  assumes "session_laws sessionmaker"
  shows "slm_get_db sessionmaker (insert_readings_session pg now payload) tables = slm_get_db documented (insert_readings_session pg now payload) tables"
  unfolding session_programs get_session_defs by (rule simulated [OF assms]) (intro simulation library_simulation, assumption?)+

lemma alert_documented:
  assumes "session_laws sessionmaker"
  shows "slm_get_db sessionmaker (insert_alert_session a) tables = slm_get_db documented (insert_alert_session a) tables"
  unfolding session_programs get_session_defs by (rule simulated [OF assms]) (intro library_simulation)

lemma portfolio_documented:
  assumes "session_laws sessionmaker"
  shows "portfolio_get_db sessionmaker (create_fahrplan_session f) tables = portfolio_get_db documented (create_fahrplan_session f) tables"
  unfolding session_programs get_session_defs by (rule simulated [OF assms]) (intro simulation library_simulation, assumption?)+

lemma asset_documented:
  assumes "session_laws sessionmaker"
  shows "portfolio_get_db sessionmaker (insert_asset_session name t capacity ramp) tables =
    portfolio_get_db documented (insert_asset_session name t capacity ramp) tables"
  unfolding session_programs get_session_defs by (rule simulated [OF assms]) (intro library_simulation)

section \<open>A request is one transaction\<close>

lemma find_new: "k \<notin> f ` set xs \<Longrightarrow> f y = k \<Longrightarrow> find (\<lambda>x. f x = k) (xs @ [y]) = Some y"
  by (induction xs) auto

lemma insert_readings_rows:
  "insert_rows (map (measurement_row pg now) payload) ms =
     (if list_ex (Slm_Api.row_refused pg) payload then None
      else Some (ms @ map (measurement_of now) payload, map (\<lambda>_. ()) payload))"
  by (induction payload arbitrary: ms) (simp_all add: measurement_row_def)

lemma set_s3_key_transaction:
  "with_session (documented flushes) (set_s3_key_session uuid key (documented flushes)) (Some rs) = (Some (set_s3_key uuid key rs), Some [])"
  by (simp add: set_s3_key_session_def session_simps)

lemma insert_readings_transaction:
  "slm_get_db documented (insert_readings_session pg now payload) (Some ms) =
     (case insert_readings pg now payload ms of
        None \<Rightarrow> (Some ms, None) | Some ms' \<Rightarrow> (Some ms', Some (map (\<lambda>_. ()) payload)))"
  by (simp add: slm_get_db_def insert_readings_session_def session_simps insert_readings_rows insert_readings_def split: option.split)

lemma fleet_transaction:
  assumes "fleet_wf db"
  shows "create_delivery_session documented dec now cred body (Some db) = apfst Some (create_delivery dec now cred body db)"
    and "get_delivery_session documented dec now cred i (Some db) = (Some db, get_delivery dec now cred i db)"
proof -
  have "next_id db \<notin> d_id ` set (deliveries db)" using assms by (auto simp: fleet_wf_def)
  then show "create_delivery_session documented dec now cred body (Some db) = apfst Some (create_delivery dec now cred body db)"
    by (simp add: create_delivery_session_def create_delivery_def fleet_get_db_def insert_and_refresh_session delivery_row_def
        delivery_by_id_def find_new Let_def split: sum.split)
  show "get_delivery_session documented dec now cred i (Some db) = (Some db, get_delivery dec now cred i db)"
    by (simp add: get_delivery_session_def get_delivery_def fleet_get_db_def query_session split: sum.split option.split)
qed

lemma insert_event_transaction:
  assumes "uuid \<notin> ev_id ` set rs"
  shows "with_session (documented flushes) (insert_event_session uuid now naive_ok p (documented flushes)) (Some rs) =
    (if is_naive (ec_timestamp p) \<and> \<not> naive_ok then (Some rs, None)
     else (Some (fst (insert_event uuid now p rs)), Some (snd (insert_event uuid now p rs))))"
  using assms
  by (auto simp: find_new insert_event_session_def insert_and_refresh_session event_row_def insert_event_def get_by_id_def Let_def)

lemma create_event_transaction:
  assumes "uuid \<notin> ev_id ` set (rows app)"
  shows "create_event_session documented uuid now naive_ok p (Some (rows app)) (pending app) =
    (let (app', r) = create_event uuid now naive_ok p app in (Some (rows app'), pending app', r))"
  by (simp add: create_event_session_def create_event_def aws_get_session_def insert_event_transaction [OF assms] split_def Let_def)

lemma archive_transaction:
  assumes "uuid \<notin> ev_id ` set rs" and "\<not> (is_naive (ec_timestamp p) \<and> \<not> naive_ok)"
  shows "aws_get_session documented (create_and_archive_session uuid now naive_ok p key) (Some rs) =
    (Some (case key of None \<Rightarrow> fst (insert_event uuid now p rs)
       | Some k \<Rightarrow> if k = [] then fst (insert_event uuid now p rs) else set_s3_key uuid k (fst (insert_event uuid now p rs))), Some [])"
  using assms
  by (auto simp: find_new aws_get_session_def create_and_archive_session_def archive_and_update_session_def insert_event_session_def set_s3_key_session_def session_simps
      event_row_def insert_event_def get_by_id_def Let_def split: option.split)

lemma insert_alert_transaction:
  assumes "\<forall>b\<in>set as. al_id b < n"
  shows "slm_get_db documented (insert_alert_session a) (Some (as, n)) = (Some (insert_alert (a\<lparr>al_id := n\<rparr>) as, n + 1), Some (a\<lparr>al_id := n\<rparr>))"
proof -
  have "n \<notin> al_id ` set as" using assms by auto
  then show ?thesis
    by (simp add: find_new slm_get_db_def insert_alert_session_def insert_and_refresh_session alert_row_def insert_alert_def)
qed

lemma ingest_session_run:
  assumes "\<forall>row\<in>set (g_rows db). lr_id row < g_next db"
  shows "with_session (documented flushes) (ingest_commit now r (documented flushes)) (Some db) =
    (case ingest now db r of Inl _ \<Rightarrow> (Some db, None) | Inr (db', row) \<Rightarrow> (Some db', Some row))"
proof -
  have "g_next db \<notin> lr_id ` set (g_rows db)" using assms by auto
  moreover have "(\<lambda>row. Inr (lr_id row) = (Inr k :: string + nat)) = (\<lambda>row. lr_id row = k)" for k by auto
  ultimately show ?thesis
    by (cases "g_nodes db (r_node r)")
      (auto simp: ingest_commit_def ingest_session_def ensure_node_session_def session_simps node_row_def load_row_def load_by_id_def
        Grid_Service.insert_reading_def insert_node_def ingest_def ensure_node_def find_new Let_def)
qed

lemma ingest_reading_transaction:
  assumes "Grid_Service.db_wf db"
  shows "ingest_reading_session documented now raw (Some db) = apfst Some (ingest_reading now db raw)"
proof -
  have "\<forall>row\<in>set (g_rows db). lr_id row < g_next db" using assms by (simp add: Grid_Service.db_wf_def)
  from ingest_session_run [OF this] show ?thesis
    by (auto simp: ingest_reading_session_def ingest_reading_def grid_get_session_def split: sum.split)
qed

lemma fresh_snoc: "fresh (ids @ [fresh ids]) = Suc (fresh ids)"
proof -
  have "fold max ids 0 \<le> fresh ids" by (simp add: fresh_def)
  then show ?thesis by (simp add: fresh_def [of "ids @ [fresh ids]"])
qed

lemma schedule_interval_rows:
  "insert_rows (map (schedule_interval sid) ivs) db =
     Some (db\<lparr>plan_rows := plan_rows db @ number_plan sid (fresh (map pl_id (plan_rows db))) ivs\<rparr>, map (\<lambda>_. ()) ivs)"
  by (induction ivs arbitrary: db) (simp_all add: schedule_interval_def fresh_snoc plan_row_of_def)

lemma create_fahrplan_transaction:
  "portfolio_get_db documented (create_fahrplan_session f) (Some db) =
     (case insert_schedule f db of
        None \<Rightarrow> (Some db, None) | Some db' \<Rightarrow> (Some db', Some (map (\<lambda>_. ()) (fp_intervals f))))"
proof -
  let ?orm = "documented True"
  have header: "bind (add ?orm [schedule_header f]) (\<lambda>_. bind (orm_flush ?orm) p) (open_session True (Some db)) =
      (if fp_id f \<in> sc_id ` set (schedules db) then (open_session True (Some db), None)
       else p [()] ((open_session True (Some db))\<lparr>working := map_option fst (schedule_header f db)\<rparr>))" for p
    by (simp add: bind_def add_def documented_def flush_def open_session_def rollback_def schedule_header_def)
  have opened: "orm_open ?orm = open_session True" "orm_close ?orm = rollback" "orm_tables ?orm = committed"
    by (simp_all add: documented_def)
  show ?thesis
    unfolding portfolio_get_db_def with_session_def create_fahrplan_session_def opened header
    by (simp add: add_commit open_session_def schedule_header_def insert_schedule_def schedule_interval_rows rollback_def)
qed

lemma insert_asset_transaction:
  "portfolio_get_db documented (insert_asset_session (ac_name b) t (ac_capacity b) (ramp_of b)) (Some db) =
     (if ac_name b \<in> as_name ` set (assets db) then (Some db, None)
      else let a = \<lparr>as_id = fresh (map as_id (assets db)), as_name = ac_name b, as_type = t,
                    as_capacity = ac_capacity b, as_ramp = ramp_of b\<rparr>
           in (Some (db\<lparr>assets := assets db @ [a]\<rparr>), Some a))"
proof -
  have "fresh (map as_id (assets db)) \<notin> as_id ` set (assets db)"
    using fresh_greater [of "fresh (map as_id (assets db))" "map as_id (assets db)"] by auto
  then show ?thesis
    by (simp add: portfolio_get_db_def insert_asset_session_def insert_and_refresh_session asset_row_def find_new Let_def)
qed


definition sample_fleet :: fleet_db where
  "sample_fleet = \<lparr>vehicles = [7], deliveries = [], next_id = 1, strict = True\<rparr>"

definition sample_alert :: alert where
  "sample_alert = \<lparr>al_id = 0, al_device = ''press'', al_sensor = ''temperature'', al_score = -1, al_threshold = 0, al_at = 5,
     al_features = \<lparr>f_mean = 1, f_std = 0, f_rms = 1, f_p2p = 0, f_kurt = 0\<rparr>\<rparr>"

definition sample_raw :: raw_reading where
  "sample_raw = \<lparr>raw_node = ''NODE-002'', raw_ts = Naive 100, raw_kwh = 3, raw_meter = None\<rparr>"

lemma ok_db_wf: "Grid_Service.db_wf ok_db"
  by (simp add: ok_db_def Grid_Service.db_wf_def)


section \<open>Without tables\<close>

text \<open>Requests of the fleet service that reach the database, with the token of a dispatcher.\<close>

datatype 't fleet_request = PostDelivery int 't delivery_create | GetDelivery int 't int

fun fleet_answer :: "(bool \<Rightarrow> ('s, fleet_db, nat) orm) \<Rightarrow> (int \<Rightarrow> 't \<Rightarrow> jwt_error + payload) \<Rightarrow> 't fleet_request \<Rightarrow> fleet_db option \<Rightarrow> fleet_db option \<times> (auth_error, delivery_read) response" where
  "fleet_answer orm dec (PostDelivery now cred body) tables = create_delivery_session orm dec now (Some cred) body tables"
| "fleet_answer orm dec (GetDelivery now cred i) tables = get_delivery_session orm dec now (Some cred) i tables"

fun fleet_answers :: "(bool \<Rightarrow> ('s, fleet_db, nat) orm) \<Rightarrow> (int \<Rightarrow> 't \<Rightarrow> jwt_error + payload) \<Rightarrow> 't fleet_request list \<Rightarrow> fleet_db option \<Rightarrow> fleet_db option \<times> (auth_error, delivery_read) response list" where
  "fleet_answers orm dec [] tables = (tables, [])"
| "fleet_answers orm dec (r # rs) tables =
     (let (tables', a) = fleet_answer orm dec r tables; (tables'', as) = fleet_answers orm dec rs tables' in (tables'', a # as))"

fun request_allowed :: "(int \<Rightarrow> 't \<Rightarrow> jwt_error + payload) \<Rightarrow> 't fleet_request \<Rightarrow> bool" where
  "request_allowed dec (PostDelivery now cred body) = (\<not> isl (require_dispatcher dec now (Some cred)))"
| "request_allowed dec (GetDelivery now cred i) = (\<not> isl (require_dispatcher dec now (Some cred)))"

lemma fleet_answer_without_tables:
  assumes "session_laws orm"
  shows "fst (fleet_answer orm dec r None) = None \<and>
    (request_allowed dec r \<longrightarrow> snd (fleet_answer orm dec r None) = Inl (HTTPException 500 Unexpected)) \<and> isl (snd (fleet_answer orm dec r None))"
proof -
  have "create_delivery_session documented dec now cred body None = (None, case require_dispatcher dec now cred of
      Inl e \<Rightarrow> Inl e | Inr _ \<Rightarrow> Inl (HTTPException 500 Unexpected))" for now cred body
    by (simp add: create_delivery_session_def fleet_get_db_def insert_and_refresh_session split: sum.split)
  moreover have "get_delivery_session documented dec now cred i None = (None, case require_dispatcher dec now cred of
      Inl e \<Rightarrow> Inl e | Inr _ \<Rightarrow> Inl (HTTPException 500 Unexpected))" for now cred i
    by (simp add: get_delivery_session_def fleet_get_db_def query_session split: sum.split)
  ultimately show ?thesis
    by (cases r) (auto simp: fleet_documented [OF assms] split: sum.split)
qed

text \<open>
  Neither the fleet nor the event service has a migration, and neither creates its tables when it starts: on the fresh database
  of its compose file every request that reaches the database ends with 500, and never creates a table, whatever was
  requested before.
\<close>

theorem services_without_tables:
  assumes "session_laws fleet_orm" and "session_laws aws_orm"
  shows "(let (tables, answers) = fleet_answers fleet_orm dec rs None
    in tables = None \<and> length answers = length rs \<and> list_all isl answers \<and>
       (list_all (request_allowed dec) rs \<longrightarrow> list_all (\<lambda>a. a = Inl (HTTPException 500 Unexpected)) answers)) \<and>
   (\<exists>e. create_event_session aws_orm uuid now naive_ok p None tasks =
      (None, tasks, Inl (HTTPException (if event_valid p then 500 else 422) e))) \<and>
   aws_get_session aws_orm (get_by_id_session uuid) None = (None, None)"
proof (intro conjI)
  show "let (tables, answers) = fleet_answers fleet_orm dec rs None
    in tables = None \<and> length answers = length rs \<and> list_all isl answers \<and>
       (list_all (request_allowed dec) rs \<longrightarrow> list_all (\<lambda>a. a = Inl (HTTPException 500 Unexpected)) answers)"
  proof (induction rs)
    case (Cons r rs)
    then show ?case using fleet_answer_without_tables [OF assms(1), of dec r] by (auto simp: split_def Let_def)
  qed simp
  have rows: "aws_get_session documented (insert_event_session uuid now naive_ok p) None = (None, None)"
    "aws_get_session documented (get_by_id_session uuid) None = (None, None)"
    by (simp_all add: aws_get_session_def insert_event_session_def insert_and_refresh_session get_by_id_session_def query_session)
  then show "\<exists>e. create_event_session aws_orm uuid now naive_ok p None tasks =
      (None, tasks, Inl (HTTPException (if event_valid p then 500 else 422) e))"
    unfolding aws_documented [OF assms(2)] by (simp add: create_event_session_def)
  show "aws_get_session aws_orm (get_by_id_session uuid) None = (None, None)"
    unfolding aws_documented [OF assms(2)] by (rule rows)
qed

end
