(* ===== verification/Slm_Bodies.thy ===== *)
theory Slm_Bodies
  imports Slm_Api Json
begin

text \<open>
  The request and response bodies of the machine analytics API (\<open>slm_sensor_analytics/app/api/v1/schemas.py\<close>) and its endpoints
  from the text of a request to the JSON of the answer. What pydantic takes for a number or a time is a parameter; texts must be
  JSON strings, keys without a field are ignored, and a number that is no real (\<open>NaN\<close>) is left out.
\<close>

section \<open>Fields\<close>

record pydantic =
  p_float :: "json \<Rightarrow> real option"
  p_int :: "json \<Rightarrow> int option"
  p_datetime :: "json \<Rightarrow> pytime option"

definition as_str :: "json \<Rightarrow> string option" where
  "as_str v = (case v of JStr s \<Rightarrow> Some s | _ \<Rightarrow> None)"

definition required :: "string \<Rightarrow> (json \<Rightarrow> 'a option) \<Rightarrow> (string \<times> json) list \<Rightarrow> 'a option" where
  "required key conv obj = Option.bind (field_of key obj) conv"

definition defaulted :: "string \<Rightarrow> 'a \<Rightarrow> (json \<Rightarrow> 'a option) \<Rightarrow> (string \<times> json) list \<Rightarrow> 'a option" where
  "defaulted key dflt conv obj = (case field_of key obj of None \<Rightarrow> Some dflt | Some v \<Rightarrow> conv v)"

definition nullable :: "(json \<Rightarrow> 'a option) \<Rightarrow> json \<Rightarrow> 'a option option" where
  "nullable conv v = (if v = JNull then Some None else map_option Some (conv v))"

section \<open>Requests\<close>

definition parse_measurement :: "pydantic \<Rightarrow> json \<Rightarrow> measurement_create option" where
  "parse_measurement pyd v =
     (case v of
        JObj obj \<Rightarrow>
          (case (required ''device_id'' as_str obj, required ''sensor_type'' as_str obj, required ''value'' (p_float pyd) obj,
                 required ''unit'' as_str obj, defaulted ''recorded_at'' None (nullable (p_datetime pyd)) obj) of
             (Some d, Some s, Some x, Some u, Some t) \<Rightarrow>
               Some \<lparr>mc_device = d, mc_sensor = s, mc_value = x, mc_unit = u, mc_at = t\<rparr>
           | _ \<Rightarrow> None)
      | _ \<Rightarrow> None)"

fun parse_all :: "(json \<Rightarrow> 'a option) \<Rightarrow> json list \<Rightarrow> 'a list option" where
  "parse_all conv [] = Some []"
| "parse_all conv (v # vs) =
     (case (conv v, parse_all conv vs) of (Some x, Some xs) \<Rightarrow> Some (x # xs) | _ \<Rightarrow> None)"

definition parse_payload :: "pydantic \<Rightarrow> json \<Rightarrow> measurement_create list option" where
  "parse_payload pyd v = (case v of JList vs \<Rightarrow> parse_all (parse_measurement pyd) vs | _ \<Rightarrow> None)"

record train_request =
  tq_device_id :: string
  tq_sensor_type :: string
  tq_start :: pytime
  tq_end :: pytime
  tq_window_size :: int

definition parse_train :: "pydantic \<Rightarrow> json \<Rightarrow> train_request option" where
  "parse_train pyd v =
     (case v of
        JObj obj \<Rightarrow>
          (case (required ''device_id'' as_str obj, required ''sensor_type'' as_str obj, required ''start'' (p_datetime pyd) obj,
                 required ''end'' (p_datetime pyd) obj, defaulted ''window_size'' 10 (p_int pyd) obj) of
             (Some d, Some s, Some a, Some b, Some w) \<Rightarrow>
               Some \<lparr>tq_device_id = d, tq_sensor_type = s, tq_start = a, tq_end = b, tq_window_size = w\<rparr>
           | _ \<Rightarrow> None)
      | _ \<Rightarrow> None)"

record predict_request =
  pq_device_id :: string
  pq_sensor_type :: string
  pq_lookback_minutes :: int

definition parse_predict :: "pydantic \<Rightarrow> json \<Rightarrow> predict_request option" where
  "parse_predict pyd v =
     (case v of
        JObj obj \<Rightarrow>
          (case (required ''device_id'' as_str obj, required ''sensor_type'' as_str obj,
                 defaulted ''lookback_minutes'' 10 (p_int pyd) obj) of
             (Some d, Some s, Some m) \<Rightarrow> Some \<lparr>pq_device_id = d, pq_sensor_type = s, pq_lookback_minutes = m\<rparr>
           | _ \<Rightarrow> None)
      | _ \<Rightarrow> None)"

section \<open>Answers\<close>

definition ingest_response :: "nat \<Rightarrow> json" where
  "ingest_response n = JObj [(''inserted'', JNum (real n))]"

definition train_response :: "nat \<times> string \<Rightarrow> json" where
  "train_response r = (case r of (n, key) \<Rightarrow> JObj [(''windows_trained'', JNum (real n)), (''model_key'', JStr key)])"

definition features_dict :: "features \<Rightarrow> json" where
  "features_dict f =
     JObj (zip [''mean'', ''std'', ''rms'', ''peak_to_peak'', ''kurtosis''] (map JNum (as_list f)))"

definition predict_body :: "predict_response \<Rightarrow> json" where
  "predict_body r =
     JObj [(''anomaly_score'', JNum (pr_score r)), (''is_anomaly'', JBool (pr_anomaly r)), (''features'', features_dict (pr_features r)),
       (''alert_id'', case pr_alert r of None \<Rightarrow> JNull | Some i \<Rightarrow> JNum (real i))]"

text \<open>\<open>show_time\<close> is the ISO text of a stored time.\<close>

definition alert_out :: "(int \<Rightarrow> string) \<Rightarrow> alert \<Rightarrow> json" where
  "alert_out show_time a =
     JObj [(''id'', JNum (real (al_id a))), (''device_id'', JStr (al_device a)), (''sensor_type'', JStr (al_sensor a)),
       (''anomaly_score'', JNum (al_score a)), (''threshold'', JNum (al_threshold a)), (''triggered_at'', JStr (show_time (al_at a))),
       (''feature_snapshot'', features_dict (al_features a))]"

section \<open>The endpoints\<close>

datatype body_error = BodyInvalid | Handler slm_error

text \<open>A body that is not JSON or does not fit is answered with 422 before the handler runs.\<close>

definition endpoint ::
  "(json \<Rightarrow> 'q option) \<Rightarrow> ('r \<Rightarrow> json) \<Rightarrow> ('q \<Rightarrow> 's \<Rightarrow> 's \<times> (slm_error, 'r) response) \<Rightarrow> string \<Rightarrow> 's \<Rightarrow> 's \<times> (body_error, json) response" where
  "endpoint parse answer handler body s =
     (case Option.bind (loads body) parse of
        None \<Rightarrow> (s, Inl (HTTPException 422 BodyInvalid))
      | Some q \<Rightarrow> apsnd (map_sum (map_http_error Handler) answer) (handler q s))"

definition ingest_endpoint :: "pydantic \<Rightarrow> bool \<Rightarrow> int \<Rightarrow> string \<Rightarrow> 'm slm_app \<Rightarrow> 'm slm_app \<times> (body_error, json) response" where
  "ingest_endpoint pyd pg now = endpoint (parse_payload pyd) ingest_response (post_ingest pg now)"

definition train_endpoint ::
  "pydantic \<Rightarrow> bool \<Rightarrow> (measurement list \<Rightarrow> measurement list) \<Rightarrow> numlib \<Rightarrow> (real list list \<Rightarrow> 'm) \<Rightarrow> string
   \<Rightarrow> 'm slm_app \<Rightarrow> 'm slm_app \<times> (body_error, json) response" where
  "train_endpoint pyd pg asc np train =
     endpoint (parse_train pyd) train_response
       (\<lambda>q. train_model pg asc np train (tq_device_id q) (tq_sensor_type q) (tq_start q) (tq_end q) (tq_window_size q))"

definition predict_endpoint ::
  "pydantic \<Rightarrow> (measurement list \<Rightarrow> measurement list) \<Rightarrow> numlib \<Rightarrow> ('m \<Rightarrow> real list \<Rightarrow> real) \<Rightarrow> real \<Rightarrow> int \<Rightarrow> int \<Rightarrow> string
   \<Rightarrow> 'm slm_app \<Rightarrow> 'm slm_app \<times> (body_error, json) response" where
  "predict_endpoint pyd asc np decide threshold now clock =
     endpoint (parse_predict pyd) predict_body
       (\<lambda>q. predict_anomaly asc np decide threshold now clock (pq_device_id q) (pq_sensor_type q) (pq_lookback_minutes q))"

definition alerts_endpoint ::
  "(int \<Rightarrow> string) \<Rightarrow> bool \<Rightarrow> (alert list \<Rightarrow> alert list) \<Rightarrow> string option \<Rightarrow> int \<Rightarrow> 'm slm_app \<Rightarrow> (slm_error, json) response" where
  "alerts_endpoint show_time pg desc device limit app =
     map_sum id (\<lambda>as. JList (map (alert_out show_time) as)) (get_alerts pg desc device limit app)"

section \<open>Properties\<close>

lemma endpoint_invalid: "Option.bind (loads body) parse = None \<Longrightarrow> endpoint parse answer handler body s = (s, Inl (HTTPException 422 BodyInvalid))"
  by (simp add: endpoint_def)

lemma endpoint_valid:
  "loads body = Some v \<Longrightarrow> parse v = Some q \<Longrightarrow> endpoint parse answer handler body s = apsnd (map_sum (map_http_error Handler) answer) (handler q s)"
  by (simp add: endpoint_def)

text \<open>Pydantic takes an integer for an integer.\<close>

definition takes_int :: "pydantic \<Rightarrow> int \<Rightarrow> bool" where
  "takes_int pyd i \<longleftrightarrow> p_int pyd (JNum (of_int i)) = Some i"

text \<open>
  From the text of a request to the handler: a body that the client writes for a prediction is read as it was meant, whatever the
  texts of device and sensor, the look-back is ten minutes when it is left out, and a body that is not JSON, or lacks its
  device, changes nothing and is answered with 422.
\<close>

theorem predict_body_read:
  assumes "takes_int pyd m"
  shows "predict_endpoint pyd asc np decide threshold now clock
      (dump_object [(''device_id'', json_string d), (''sensor_type'', json_string s), (''lookback_minutes'', show_int m)]) app =
    apsnd (map_sum (map_http_error Handler) predict_body) (predict_anomaly asc np decide threshold now clock d s m app) \<and>
    predict_endpoint pyd asc np decide threshold now clock
      (dump_object [(''device_id'', json_string d), (''sensor_type'', json_string s)]) app =
    apsnd (map_sum (map_http_error Handler) predict_body) (predict_anomaly asc np decide threshold now clock d s 10 app) \<and>
    (loads body = None \<or> (\<exists>obj. loads body = Some (JObj obj) \<and> field_of ''device_id'' obj = None) \<longrightarrow>
      predict_endpoint pyd asc np decide threshold now clock body app = (app, Inl (HTTPException 422 BodyInvalid)))"
proof (intro conjI impI)
  have full: "loads (dump_object [(''device_id'', json_string d), (''sensor_type'', json_string s), (''lookback_minutes'', show_int m)]) =
      Some (JObj [(''device_id'', JStr d), (''sensor_type'', JStr s), (''lookback_minutes'', JNum (of_int m))])"
    by (rule loads_dump_object) (simp add: value_text_int value_text_string)
  have short: "loads (dump_object [(''device_id'', json_string d), (''sensor_type'', json_string s)]) =
      Some (JObj [(''device_id'', JStr d), (''sensor_type'', JStr s)])"
    by (rule loads_dump_object) (simp add: value_text_string)
  show "predict_endpoint pyd asc np decide threshold now clock
      (dump_object [(''device_id'', json_string d), (''sensor_type'', json_string s), (''lookback_minutes'', show_int m)]) app =
    apsnd (map_sum (map_http_error Handler) predict_body) (predict_anomaly asc np decide threshold now clock d s m app)"
    using assms by (simp add: predict_endpoint_def endpoint_def full parse_predict_def required_def defaulted_def field_of_def as_str_def takes_int_def)
  show "predict_endpoint pyd asc np decide threshold now clock
      (dump_object [(''device_id'', json_string d), (''sensor_type'', json_string s)]) app =
    apsnd (map_sum (map_http_error Handler) predict_body) (predict_anomaly asc np decide threshold now clock d s 10 app)"
    by (simp add: predict_endpoint_def endpoint_def short parse_predict_def required_def defaulted_def field_of_def as_str_def)
  assume "loads body = None \<or> (\<exists>obj. loads body = Some (JObj obj) \<and> field_of ''device_id'' obj = None)"
  then show "predict_endpoint pyd asc np decide threshold now clock body app = (app, Inl (HTTPException 422 BodyInvalid))"
    by (auto simp: predict_endpoint_def endpoint_def parse_predict_def required_def)
qed

definition exact_pydantic :: pydantic where
  "exact_pydantic = \<lparr>p_float = (\<lambda>v. case v of JNum x \<Rightarrow> Some x | _ \<Rightarrow> None),
     p_int = (\<lambda>v. case v of JNum x \<Rightarrow> if x = of_int \<lfloor>x\<rfloor> then Some \<lfloor>x\<rfloor> else None | _ \<Rightarrow> None), p_datetime = (\<lambda>v. None)\<rparr>"

theorem predict_body_read_witness:
  "snd (predict_endpoint exact_pydantic (\<lambda>ms. ms) exact_np (\<lambda>n fs. 0) 0 5 5
      (dump_object [(''device_id'', json_string ''d''), (''sensor_type'', json_string ''s'')]) (demo_app\<lparr>measurements := []\<rparr>)) =
     Inl (HTTPException 422 (Handler TooFewReadings))"
proof -
  have "takes_int exact_pydantic 3" by (simp add: takes_int_def exact_pydantic_def)
  then show ?thesis
    by (simp add: predict_body_read [THEN conjunct2, THEN conjunct1] predict_anomaly_def minutes_before_def datetime_ok_def
        Let_def query_window_def predict_readings_def)
qed

end
