(* ===== verification/Environment.thy ===== *)
theory Environment
  imports Grid_Seed
begin

text \<open>
  What the dosing daemon and the PLC simulator take from their environment: host and port
  (\<open>controller/src/main.cpp\<close>, \<open>plc_simulator/simulator.py\<close>), with \<open>atoi\<close> of C and \<open>int\<close> of Python on texts.
\<close>

type_synonym environ = "string \<rightharpoonup> string"

definition environ_get :: "environ \<Rightarrow> string \<Rightarrow> string \<Rightarrow> string" where
  "environ_get env key dflt = (case env key of None \<Rightarrow> dflt | Some t \<Rightarrow> t)"

section \<open>Integers in texts\<close>

definition digit_char :: "char \<Rightarrow> bool" where
  "digit_char c \<longleftrightarrow> (let n = (of_char c :: nat) in 48 \<le> n \<and> n \<le> 57)"

definition split_sign :: "string \<Rightarrow> bool \<times> string" where
  "split_sign s =
     (case s of
        [] \<Rightarrow> (False, [])
      | c # t \<Rightarrow> if c = CHR ''-'' then (True, t) else if c = CHR ''+'' then (False, t) else (False, s))"

definition signed :: "bool \<Rightarrow> nat \<Rightarrow> int" where
  "signed neg n = (if neg then - int n else int n)"

text \<open>
  C's \<open>atoi\<close>: white space, a sign, the digits that follow, and nothing else is looked at; a value that is no \<open>int\<close> is
  undefined behaviour.
\<close>

definition c_space :: "char \<Rightarrow> bool" where
  "c_space c \<longleftrightarrow> (let n = (of_char c :: nat) in 9 \<le> n \<and> n \<le> 13 \<or> n = 32)"

definition int_range :: "int \<Rightarrow> bool" where
  "int_range i \<longleftrightarrow> - (2 ^ 31) \<le> i \<and> i < 2 ^ 31"

definition atoi :: "string \<Rightarrow> int option" where
  "atoi s =
     (case split_sign (dropWhile c_space s) of
        (neg, t) \<Rightarrow> let i = signed neg (undecimal (takeWhile digit_char t)) in if int_range i then Some i else None)"

text \<open>Python's \<open>int\<close>: white space on both sides, a sign, digits with single underscores between them, at most 4300 digits.\<close>

fun digit_groups :: "string \<Rightarrow> bool" where
  "digit_groups [] = False"
| "digit_groups [c] = digit_char c"
| "digit_groups (c # d # s) = (digit_char c \<and> (if d = CHR ''_'' then digit_groups s else digit_groups (d # s)))"

definition py_int :: "string \<Rightarrow> int option" where
  "py_int s =
     (case split_sign (py_strip s) of
        (neg, t) \<Rightarrow>
          let ds = filter digit_char t
          in if digit_groups t \<and> length ds \<le> 4300 then Some (signed neg (undecimal ds)) else None)"

section \<open>The port of the daemon\<close>

text \<open>\<open>daemon_port\<close> is what the daemon listens on; \<open>plc_target\<close> what the simulator connects to, by arguments or environment.\<close>

definition daemon_port :: "environ \<Rightarrow> int option" where
  "daemon_port env = (case env ''MODBUS_PORT'' of None \<Rightarrow> Some 5502 | Some t \<Rightarrow> atoi t)"

definition plc_target :: "environ \<Rightarrow> string option \<Rightarrow> int option \<Rightarrow> (string \<times> int) option" where
  "plc_target env host port =
     (let h = (case host of Some h \<Rightarrow> if h \<noteq> [] then h else environ_get env ''MODBUS_HOST'' ''localhost''
               | None \<Rightarrow> environ_get env ''MODBUS_HOST'' ''localhost'');
          p = (case port of Some p \<Rightarrow> if p \<noteq> 0 then Some p else py_int (environ_get env ''MODBUS_PORT'' ''5502'')
               | None \<Rightarrow> py_int (environ_get env ''MODBUS_PORT'' ''5502''))
      in map_option (Pair h) p)"

subsection \<open>Daemon and simulator agree\<close>

lemma space_digit: "c_space c \<Longrightarrow> py_space c" "py_space c \<Longrightarrow> \<not> digit_char c"
  by (auto simp: c_space_def py_space_def digit_char_def Let_def)

lemma dropWhile_split: "s = takeWhile P s @ dropWhile P s"
  by simp

lemma py_strip_split: "\<exists>ws. dropWhile py_space s = py_strip s @ ws \<and> list_all py_space ws"
proof -
  let ?s = "dropWhile py_space s"
  have "?s = py_strip s @ rev (takeWhile py_space (rev ?s))"
    by (metis dropWhile_split py_strip_def rev_append rev_rev_ident)
  moreover have "list_all py_space (rev (takeWhile py_space (rev ?s)))" by (auto simp: list_all_iff dest: set_takeWhileD)
  ultimately show ?thesis by blast
qed

lemma digit_groups_digits: "digit_groups s \<Longrightarrow> CHR ''_'' \<notin> set s \<Longrightarrow> list_all digit_char s"
  by (induction s rule: digit_groups.induct) auto

lemma split_sign_append: "u \<noteq> [] \<Longrightarrow> split_sign (u @ ws) = map_prod id (\<lambda>t. t @ ws) (split_sign u)"
  by (cases u) (auto simp: split_sign_def)

lemma split_sign_set: "set (snd (split_sign u)) \<subseteq> set u"
  by (cases u) (auto simp: split_sign_def)

lemma takeWhile_int: "list_all digit_char t \<Longrightarrow> list_all py_space ws \<Longrightarrow> takeWhile digit_char (t @ ws) = t"
proof (induction t)
  case Nil
  then show ?case using space_digit(2) by (cases ws) auto
qed simp

lemma atoi_py_int:
  assumes "py_int s = Some i" and "int_range i" and "CHR ''_'' \<notin> set s" and "list_all (\<lambda>c. py_space c \<longrightarrow> c_space c) s"
  shows "atoi s = Some i"
proof -
  obtain ws where ws: "dropWhile py_space s = py_strip s @ ws" "list_all py_space ws" using py_strip_split by blast
  obtain neg t where t: "split_sign (py_strip s) = (neg, t)" by fastforce
  with assms(1) have groups: "digit_groups t" and i: "i = signed neg (undecimal (filter digit_char t))"
    by (auto simp: py_int_def Let_def split: if_splits)
  have "set t \<subseteq> set (py_strip s)" using split_sign_set [of "py_strip s"] t by simp
  also have "\<dots> \<subseteq> set (dropWhile py_space s)" using ws(1) by simp
  also have "\<dots> \<subseteq> set s" by (auto dest: set_dropWhileD)
  finally have digits: "list_all digit_char t" using groups assms(3) by (auto intro: digit_groups_digits)
  have "dropWhile c_space s = dropWhile py_space s"
    using assms(4) space_digit(1) by (induction s) auto
  moreover have "py_strip s \<noteq> []" using t groups by (auto simp: split_sign_def)
  ultimately have "split_sign (dropWhile c_space s) = (neg, t @ ws)" using t ws(1) by (simp add: split_sign_append)
  moreover have "filter digit_char t = t" using digits by (simp add: list_all_iff)
  ultimately show ?thesis using i assms(2) takeWhile_int [OF digits ws(2)] by (simp add: atoi_def Let_def)
qed

lemma decimal_not_Nil: "decimal n \<noteq> []"
  by (subst decimal.simps) simp

lemma decimal_digits: "list_all digit_char (decimal n)"
proof (induction n rule: decimal.induct)
  case (1 n)
  have "digit_char (digit m)" if "m < 10" for m using that by (simp add: digit_char_def of_char_digit)
  then show ?case using 1 by (subst decimal.simps) simp
qed

lemma digits_groups: "list_all digit_char s \<Longrightarrow> s \<noteq> [] \<Longrightarrow> digit_groups s"
  by (induction s rule: digit_groups.induct) (auto simp: digit_char_def)

lemma py_strip_digits: "list_all digit_char s \<Longrightarrow> py_strip s = s"
proof -
  have "dropWhile py_space s = s" if "list_all digit_char s" for s
    using that space_digit(2) by (cases s) auto
  then show "list_all digit_char s \<Longrightarrow> py_strip s = s" by (simp add: py_strip_def)
qed

lemma py_int_decimal: "n < 2 ^ 31 \<Longrightarrow> py_int (decimal n) = Some (int n)"
proof -
  assume "n < 2 ^ 31"
  then have "n < 10 ^ 10" by simp
  then have "length (decimal n) \<le> 10" using length_decimal [of n 10] by simp
  moreover have "split_sign (decimal n) = (False, decimal n)"
    using decimal_digits [of n] by (cases "decimal n") (auto simp: split_sign_def digit_char_def)
  moreover have "filter digit_char (decimal n) = decimal n" using decimal_digits [of n] by (simp add: list_all_iff)
  ultimately show ?thesis
    using decimal_digits [of n] decimal_not_Nil [of n]
    by (simp add: py_int_def py_strip_digits digits_groups signed_def undecimal_decimal)
qed

text \<open>
  Daemon and simulator on one environment. Without a port both take 5502; a port written in decimal is read alike; and
  whenever the simulator starts at all, it connects to the port the daemon listens on, unless the text has
  underscores, white space that C does not know, or a value that is no \<open>int\<close>. Where the simulator refuses a text
  without digits, the daemon listens on port 0, and \<open>55_02\<close> is 55 for the one and 5502 for the other.
\<close>

theorem modbus_ports_agree:
  "(env ''MODBUS_PORT'' = None \<longrightarrow> daemon_port env = Some 5502 \<and> plc_target env None None = Some (environ_get env ''MODBUS_HOST'' ''localhost'', 5502)) \<and>
   (\<forall>n<65536. env ''MODBUS_PORT'' = Some (decimal n) \<longrightarrow>
      daemon_port env = Some (int n) \<and> plc_target env None None = Some (environ_get env ''MODBUS_HOST'' ''localhost'', int n)) \<and>
   (\<forall>t h p. env ''MODBUS_PORT'' = Some t \<and> plc_target env None None = Some (h, p) \<and> int_range p \<and> CHR ''_'' \<notin> set t \<and>
      list_all (\<lambda>c. py_space c \<longrightarrow> c_space c) t \<longrightarrow> daemon_port env = Some p) \<and>
   (env ''MODBUS_PORT'' = Some ''port'' \<longrightarrow> daemon_port env = Some 0 \<and> plc_target env None None = None) \<and>
   (env ''MODBUS_PORT'' = Some ''55_02'' \<longrightarrow>
      daemon_port env = Some 55 \<and> plc_target env None None = Some (environ_get env ''MODBUS_HOST'' ''localhost'', 5502))"
proof (intro conjI impI allI)
  assume "env ''MODBUS_PORT'' = None"
  moreover have "py_int ''5502'' = Some 5502" by code_simp
  ultimately show "daemon_port env = Some 5502" "plc_target env None None = Some (environ_get env ''MODBUS_HOST'' ''localhost'', 5502)"
    by (simp_all add: daemon_port_def plc_target_def environ_get_def)
next
  fix n :: nat
  assume "n < 65536" and env: "env ''MODBUS_PORT'' = Some (decimal n)"
  then have n: "py_int (decimal n) = Some (int n)" by (intro py_int_decimal) simp
  then show "plc_target env None None = Some (environ_get env ''MODBUS_HOST'' ''localhost'', int n)"
    by (simp add: plc_target_def environ_get_def env)
  have "c \<noteq> CHR ''_''" "\<not> py_space c" if "c \<in> set (decimal n)" for c
    using decimal_digits [of n] that space_digit(2) by (auto simp: list_all_iff digit_char_def)
  then have "atoi (decimal n) = Some (int n)"
    using n \<open>n < 65536\<close> by (intro atoi_py_int) (auto simp: int_range_def list_all_iff)
  then show "daemon_port env = Some (int n)" by (simp add: daemon_port_def env)
next
  fix t h p
  assume a: "env ''MODBUS_PORT'' = Some t \<and> plc_target env None None = Some (h, p) \<and> int_range p \<and> CHR ''_'' \<notin> set t \<and>
      list_all (\<lambda>c. py_space c \<longrightarrow> c_space c) t"
  then have "py_int t = Some p" by (auto simp: plc_target_def environ_get_def)
  then show "daemon_port env = Some p" using a by (simp add: daemon_port_def atoi_py_int)
next
  have "atoi ''port'' = Some 0" "py_int ''port'' = None" by code_simp+
  moreover assume "env ''MODBUS_PORT'' = Some ''port''"
  ultimately show "daemon_port env = Some 0" "plc_target env None None = None"
    by (simp_all add: daemon_port_def plc_target_def environ_get_def)
next
  have "atoi ''55_02'' = Some 55" "py_int ''55_02'' = Some 5502" by code_simp+
  moreover assume "env ''MODBUS_PORT'' = Some ''55_02''"
  ultimately show "daemon_port env = Some 55" "plc_target env None None = Some (environ_get env ''MODBUS_HOST'' ''localhost'', 5502)"
    by (simp_all add: daemon_port_def plc_target_def environ_get_def)
qed

end
