(* ===== verification/Ev_Systemd.thy ===== *)
theory Ev_Systemd
  imports Ev_Lifespan Environment
begin

text \<open>
  The orchestrator as a systemd service (\<open>ev_battery_hil/systemd/orchestrator.service\<close>): a unit of type \<open>notify\<close> with a
  watchdog, and the messages that \<open>app/fault_injector.py\<close> sends to it, second by second. What systemd does with such a
  unit is a parameter, with its documented behaviour as the locale \<open>notify_manager\<close>.
\<close>

section \<open>Units of type notify\<close>

text \<open>
  A unit is started when its process has sent \<open>READY=1\<close>; when that takes longer than the start timeout it is
  stopped and started again. A started unit must send \<open>WATCHDOG=1\<close> before its watchdog expires. The seconds
  count from the start, from the last message, and from the stop. A manager takes the messages of a second and the state to the
  next state.
\<close>

datatype unit_state = Activating nat | Active nat | Restarting nat

type_synonym manager = "string list \<Rightarrow> unit_state \<Rightarrow> unit_state"

locale notify_manager =
  fixes manager :: manager and start_timeout watchdog restart :: nat
  assumes activating: "''READY=1'' \<notin> set ms \<Longrightarrow>
      manager ms (Activating t) = (if t + 1 < start_timeout then Activating (t + 1) else Restarting 0)"
    and ready: "''READY=1'' \<in> set ms \<Longrightarrow> manager ms (Activating t) = Active 0"
    and pinged: "''WATCHDOG=1'' \<in> set ms \<Longrightarrow> manager ms (Active t) = Active 0"
    and silent: "''WATCHDOG=1'' \<notin> set ms \<Longrightarrow> manager ms (Active t) = (if t + 1 < watchdog then Active (t + 1) else Restarting 0)"
    and waiting: "manager ms (Restarting t) = (if t + 1 < restart then Restarting (t + 1) else Activating 0)"

definition systemd_second :: "nat \<Rightarrow> nat \<Rightarrow> nat \<Rightarrow> manager" where
  "systemd_second start_timeout watchdog restart ms st =
     (case st of
        Activating t \<Rightarrow>
          if ''READY=1'' \<in> set ms then Active 0 else if t + 1 < start_timeout then Activating (t + 1) else Restarting 0
      | Active t \<Rightarrow>
          if ''WATCHDOG=1'' \<in> set ms then Active 0 else if t + 1 < watchdog then Active (t + 1) else Restarting 0
      | Restarting t \<Rightarrow> if t + 1 < restart then Restarting (t + 1) else Activating 0)"

section \<open>The unit of the orchestrator\<close>

definition BMS_HOST :: string where "BMS_HOST = ''localhost''"
definition BMS_PORT :: string where "BMS_PORT = ''5555''"
definition WatchdogSec :: nat where "WatchdogSec = 30"
definition RestartSec :: nat where "RestartSec = 5"

interpretation systemd: notify_manager "systemd_second 90 WatchdogSec RestartSec" 90 WatchdogSec RestartSec
  by unfold_locales (simp_all add: systemd_second_def)

text \<open>\<open>s_age\<close> is the seconds of the process, \<open>s_starts\<close> how often it was started.\<close>

record service =
  s_unit :: unit_state
  s_process :: orchestrator
  s_age :: nat
  s_starts :: nat

definition ping :: string where "ping = ''WATCHDOG=1''"

text \<open>A start runs the start-up of the application with the environment of the unit.\<close>

definition boot_service :: "nat \<Rightarrow> service option" where
  "boot_service starts =
     map_option (\<lambda>proc. \<lparr>s_unit = Activating 0, s_process = proc, s_age = 0, s_starts = starts + 1\<rparr>)
       (lifespan_start py_int (Some BMS_HOST) (Some BMS_PORT) no_globals)"

text \<open>The messages of a second of the process: a ping each ten seconds, and \<open>boot\<close> once, which is empty for this program.\<close>

definition process_second :: "string list \<Rightarrow> service \<Rightarrow> orchestrator \<times> string list" where
  "process_second boot s =
     (let proc = s_process s;
          proc' = (if (s_age s + 1) mod 10 = 0 then watchdog_wake (Some ''/run/systemd/notify'') True proc else proc)
      in (proc', (if s_age s = 0 then boot else []) @ replicate (o_pings proc' - o_pings proc) ping))"

definition service_second :: "manager \<Rightarrow> string list \<Rightarrow> service \<Rightarrow> service option" where
  "service_second manager boot s =
     (case s_unit s of
        Restarting t \<Rightarrow>
          (case manager [] (Restarting t) of
             Restarting t' \<Rightarrow> Some (s\<lparr>s_unit := Restarting t'\<rparr>)
           | _ \<Rightarrow> boot_service (s_starts s))
      | _ \<Rightarrow>
          (case process_second boot s of
             (proc, messages) \<Rightarrow> Some (s\<lparr>s_unit := manager messages (s_unit s), s_process := proc, s_age := s_age s + 1\<rparr>)))"

fun service_run :: "manager \<Rightarrow> string list \<Rightarrow> nat \<Rightarrow> service option" where
  "service_run manager boot 0 = boot_service 0"
| "service_run manager boot (Suc n) = Option.bind (service_run manager boot n) (service_second manager boot)"

section \<open>What it does\<close>

lemma boot_service_unit:
  "\<exists>proc. boot_service starts = Some \<lparr>s_unit = Activating 0, s_process = proc, s_age = 0, s_starts = starts + 1\<rparr> \<and>
     o_watchdog proc = Sleeping_10s"
proof -
  have "py_int ''5555'' = Some 5555" by code_simp
  then show ?thesis by (simp add: boot_service_def lifespan_start_def BMS_HOST_def BMS_PORT_def injector_start_def Let_def)
qed

text \<open>A second of a process whose watchdog task runs.\<close>

lemma process_second_pings:
  "o_watchdog (s_process s) = Sleeping_10s \<Longrightarrow> \<exists>proc. o_watchdog proc = Sleeping_10s \<and>
     process_second boot s = (proc, (if s_age s = 0 then boot else []) @ (if (s_age s + 1) mod 10 = 0 then [ping] else []))"
  by (auto simp: process_second_def watchdog_wake_def send_watchdog_ping_def Let_def)

lemma mod_Suc_div: "0 < c \<Longrightarrow> Suc n mod c = (if Suc (n mod c) = c then 0 else Suc (n mod c)) \<and>
   Suc n div c = (if Suc (n mod c) = c then Suc (n div c) else n div c)" for n c :: nat
  by (simp add: mod_Suc div_Suc)

context notify_manager
begin

text \<open>The cycle of a unit that is never ready: activating for the timeout, then waiting for the next start.\<close>

definition never_ready :: "nat \<Rightarrow> service \<Rightarrow> bool" where
  "never_ready n s \<longleftrightarrow>
     (let r = n mod (start_timeout + restart) in s_unit s = (if r < start_timeout then Activating r else Restarting (r - start_timeout))) \<and>
     s_starts s = n div (start_timeout + restart) + 1 \<and> o_watchdog (s_process s) = Sleeping_10s"

lemma never_ready_step:
  assumes "0 < start_timeout" and "0 < restart" and "never_ready n s"
  shows "\<exists>s'. service_second manager [] s = Some s' \<and> never_ready (Suc n) s'"
proof -
  let ?c = "start_timeout + restart"
  have c: "0 < ?c" "n mod ?c < ?c" using assms(1) by simp_all
  show ?thesis
  proof (cases "n mod ?c < start_timeout")
    case True
    then have later: "Suc n mod ?c = Suc (n mod ?c)" "Suc n div ?c = n div ?c"
      using mod_Suc_div [OF c(1), of n] assms(2) by auto
    have unit: "s_unit s = Activating (n mod ?c)" using assms(3) True by (simp add: never_ready_def Let_def)
    obtain proc where proc: "process_second [] s = (proc, if (s_age s + 1) mod 10 = 0 then [ping] else [])" "o_watchdog proc = Sleeping_10s"
      using process_second_pings [of s "[]"] assms(3) by (auto simp: never_ready_def split: if_splits)
    have "''READY=1'' \<notin> set (if (s_age s + 1) mod 10 = 0 then [ping] else [])" by (simp add: ping_def)
    from activating [OF this] show ?thesis using assms(3) True proc
      by (auto simp: service_second_def unit never_ready_def later Let_def)
  next
    case False
    then have unit: "s_unit s = Restarting (n mod ?c - start_timeout)" using assms(3) by (simp add: never_ready_def Let_def)
    show ?thesis
    proof (cases "Suc (n mod ?c) = ?c")
      case True
      then have "\<not> n mod ?c - start_timeout + 1 < restart" using False by linarith
      then show ?thesis using boot_service_unit [of "s_starts s"] assms mod_Suc_div [OF c(1), of n] True
        by (auto simp: service_second_def unit never_ready_def waiting)
    next
      case more: False
      then have "n mod ?c - start_timeout + 1 < restart" using False c(2) by linarith
      moreover have "Suc (n mod ?c) - start_timeout = Suc (n mod ?c - start_timeout)" using False by simp
      ultimately show ?thesis using assms mod_Suc_div [OF c(1), of n] more False
        by (auto simp: service_second_def unit never_ready_def waiting)
    qed
  qed
qed

lemma never_ready_run:
  assumes "0 < start_timeout" and "0 < restart"
  shows "\<exists>s. service_run manager [] n = Some s \<and> never_ready n s"
proof (induction n)
  case 0
  then show ?case using boot_service_unit [of 0] assms by (auto simp: never_ready_def)
next
  case (Suc n)
  then show ?case using never_ready_step [OF assms, of n] by auto
qed

text \<open>A process that says it is ready stays active: fewer than ten seconds have passed since its last message.\<close>

definition stays_active :: "nat \<Rightarrow> service \<Rightarrow> bool" where
  "stays_active n s \<longleftrightarrow> (\<exists>t. s_unit s = Active t \<and> t \<le> n mod 10) \<and> s_age s = n \<and> s_starts s = 1 \<and> o_watchdog (s_process s) = Sleeping_10s"

lemma stays_active_step:
  assumes "10 \<le> watchdog" and "stays_active n s" and "0 < n"
  shows "\<exists>s'. service_second manager boot s = Some s' \<and> stays_active (Suc n) s'"
proof -
  obtain t where t: "s_unit s = Active t" "t \<le> n mod 10" "s_age s = n" "s_starts s = 1" "o_watchdog (s_process s) = Sleeping_10s"
    using assms(2) by (auto simp: stays_active_def)
  obtain proc where proc: "process_second boot s = (proc, if Suc n mod 10 = 0 then [ping] else [])" "o_watchdog proc = Sleeping_10s"
    using process_second_pings [OF t(5), of boot] assms(3) t(3) by (auto split: if_splits)
  have "\<exists>t'. manager (if Suc n mod 10 = 0 then [ping] else []) (Active t) = Active t' \<and> t' \<le> Suc n mod 10"
  proof (cases "Suc n mod 10 = 0")
    case True
    then show ?thesis using pinged [of "[ping]" t] by (simp add: ping_def)
  next
    case False
    then have "Suc n mod 10 = Suc (n mod 10)" using mod_Suc_div [of 10 n] by (auto split: if_splits)
    moreover have "Suc n mod 10 < 10" by simp
    ultimately show ?thesis using silent [of "[]" t] t(2) assms(1) False by simp
  qed
  then show ?thesis using proc t by (auto simp: service_second_def stays_active_def)
qed

lemma stays_active_run:
  assumes "10 \<le> watchdog"
  shows "\<exists>s. service_run manager [''READY=1''] (Suc n) = Some s \<and> stays_active (Suc n) s"
proof (induction n)
  case 0
  obtain proc where proc: "boot_service 0 = Some \<lparr>s_unit = Activating 0, s_process = proc, s_age = 0, s_starts = 1\<rparr>" "o_watchdog proc = Sleeping_10s"
    using boot_service_unit [of 0] by auto
  let ?s = "\<lparr>s_unit = Activating 0, s_process = proc, s_age = 0, s_starts = 1\<rparr>"
  obtain proc' where "process_second [''READY=1''] ?s = (proc', [''READY=1''])" "o_watchdog proc' = Sleeping_10s"
    using process_second_pings [of ?s "[''READY=1'']"] proc(2) by auto
  then show ?case using ready [of "[''READY=1'']" 0] by (simp add: proc(1) service_second_def stays_active_def)
next
  case (Suc n)
  then show ?case using stays_active_step [OF assms, of "Suc n"] by fastforce
qed

end

text \<open>
  C40. The service under systemd, whatever its start timeout and the seconds that stopping takes. The program sends only pings and
  never \<open>READY=1\<close>, so its unit is never active: each time the start timeout has passed it is stopped, with whatever test is
  running, and started again, for ever. With that one message at its start the unit is active from the first second on, is never
  stopped, and its pings keep twenty seconds clear of the watchdog.
\<close>

theorem orchestrator_never_ready:
  assumes "notify_manager manager start_timeout WatchdogSec (stop_s + RestartSec)" and "0 < start_timeout"
  shows "(\<exists>s. service_run manager [] n = Some s \<and>
      s_unit s = (let r = n mod (start_timeout + (stop_s + RestartSec))
                  in if r < start_timeout then Activating r else Restarting (r - start_timeout)) \<and>
      s_starts s = n div (start_timeout + (stop_s + RestartSec)) + 1) \<and>
    (\<exists>s t. service_run manager [''READY=1''] (Suc n) = Some s \<and> s_unit s = Active t \<and> t + 20 < WatchdogSec \<and> s_starts s = 1)"
proof
  have "0 < stop_s + RestartSec" "10 \<le> WatchdogSec" by (simp_all add: RestartSec_def WatchdogSec_def)
  then show "\<exists>s. service_run manager [] n = Some s \<and>
      s_unit s = (let r = n mod (start_timeout + (stop_s + RestartSec))
                  in if r < start_timeout then Activating r else Restarting (r - start_timeout)) \<and>
      s_starts s = n div (start_timeout + (stop_s + RestartSec)) + 1"
    using notify_manager.never_ready_run [OF assms, of n] by (auto simp: notify_manager.never_ready_def [OF assms(1)] Let_def)
  show "\<exists>s t. service_run manager [''READY=1''] (Suc n) = Some s \<and> s_unit s = Active t \<and> t + 20 < WatchdogSec \<and> s_starts s = 1"
    using notify_manager.stays_active_run [OF assms(1) \<open>10 \<le> WatchdogSec\<close>, of n] mod_less_divisor [of 10 "Suc n"]
    by (fastforce simp: notify_manager.stays_active_def [OF assms(1)] WatchdogSec_def)
qed

theorem orchestrator_never_ready_witness:
  "\<exists>s. service_run (systemd_second 90 WatchdogSec RestartSec) [] 95 = Some s \<and> s_unit s = Activating 0 \<and> s_starts s = 2"
proof -
  have "notify_manager (systemd_second 90 WatchdogSec RestartSec) 90 WatchdogSec (0 + RestartSec)"
    using systemd.notify_manager_axioms by simp
  from orchestrator_never_ready [OF this, of 95, THEN conjunct1] show ?thesis by (simp add: RestartSec_def numeral_2_eq_2)
qed

end
